(* ===== verification/Prelude.thy ===== *)
theory Prelude
  imports Complex_Main "HOL-Library.Word" "HOL-Library.Log_Nat" "HOL-Library.Multiset"
    "HOL-Library.Signed_Division"
begin

text \<open>
  Shared vocabulary of the development: the Go types the validator uses, the iteration
  over Go maps, the generic run of a state machine, and the lemmas on these that every
  component shares.

  Go's \<^verbatim>\<open>uint64\<close> is \<open>64 word\<close>, compared and ordered as an unsigned word; Go's
  \<^verbatim>\<open>int\<close> (64 bits on the platforms the validator is built for) is \<open>64 word\<close> too, and
  is compared through \<open>sint\<close>. A Go \<^verbatim>\<open>string\<close> is a byte string, that is a HOL
  \<open>string\<close>; a \<^verbatim>\<open>[]byte\<close> is a list of \<open>8 word\<close>. A \<^verbatim>\<open>*big.Int\<close> is \<open>int\<close>.
  A \<^verbatim>\<open>time.Time\<close> is the number of nanoseconds since the epoch, as an \<open>int\<close>.
\<close>

section \<open>Types\<close>

type_synonym byte = "8 word"
type_synonym bytes = "byte list"
type_synonym uint64 = "64 word"
type_synonym uint32 = "32 word"
type_synonym uint16 = "16 word"
type_synonym uint8 = "8 word"
type_synonym goint = "64 word"
type_synonym big_int = int
type_synonym go_time = int
type_synonym hash = bytes
type_synonym address = bytes

text \<open>The run-time panics the modelled code can reach.\<close>

datatype go_panic = ErrNaN | NilPointer | DivideByZero

text \<open>A call that returns a value, returns an \<^verbatim>\<open>error\<close>, or panics.\<close>

datatype ('e, 'a) go_result = Ok 'a | Err 'e | Panic go_panic

section \<open>Collections of rewrite rules\<close>

named_theorems go_defs \<open>definitions of small helpers that proofs unfold freely\<close>
named_theorems inv_intros \<open>one rule per operation: it preserves its component's invariant\<close>

section \<open>Go maps\<close>

text \<open>
  A Go map is a partial function. A \<^verbatim>\<open>range\<close> loop visits the entries in an order that the
  language leaves open and that may differ from one loop to the next: a loop takes the
  order of the keys as an argument \<open>ks\<close>, and \<open>range_order m ks\<close> says that it is a
  possible one.
\<close>

definition range_order :: "('k \<rightharpoonup> 'v) \<Rightarrow> 'k list \<Rightarrow> bool" where
  "range_order m ks \<longleftrightarrow> distinct ks \<and> set ks = dom m"

definition range_vals :: "('k \<rightharpoonup> 'v) \<Rightarrow> 'k list \<Rightarrow> 'v list" where
  "range_vals m ks = List.map_filter m ks"

lemma range_vals_simps [simp]:
  "range_vals m [] = []"
  "range_vals m (k # ks) = (case m k of None \<Rightarrow> range_vals m ks | Some v \<Rightarrow> v # range_vals m ks)"
  by (simp_all add: range_vals_def map_filter_simps split: option.split)

lemma range_vals_append [simp]: "range_vals m (xs @ ys) = range_vals m xs @ range_vals m ys"
  by (induction xs) (auto split: option.splits)

lemma range_order_perm:
  assumes "range_order m ks" "range_order m ks'"
  shows "mset ks = mset ks'"
  using assms by (auto simp: range_order_def set_eq_iff_mset_eq_distinct [symmetric])

lemma mset_range_vals: "mset ks = mset ks' \<Longrightarrow> mset (range_vals m ks) = mset (range_vals m ks')"
  by (simp add: range_vals_def List.map_filter_def)

lemma set_range_vals: "range_order m ks \<Longrightarrow> set (range_vals m ks) = ran m"
  by (force simp: range_vals_def List.map_filter_def range_order_def ran_def)

lemma length_range_vals: "range_order m ks \<Longrightarrow> length (range_vals m ks) = card (dom m)"
proof -
  assume o: "range_order m ks"
  have "set ks \<subseteq> dom m \<Longrightarrow> length (range_vals m ks) = length ks"
    by (induction ks) auto
  with o show ?thesis
    by (auto simp: range_order_def distinct_card [symmetric])
qed

section \<open>Runs of a state machine\<close>

text \<open>
  A component's operations are the events of a state machine; a run applies a list of
  them from the left. The locale collects what every component needs: an invariant that
  each admissible operation keeps holds after every run, and so does every relation
  between the first and the last state that each operation respects.
\<close>

fun run :: "('s \<Rightarrow> 'op \<Rightarrow> 's) \<Rightarrow> 's \<Rightarrow> 'op list \<Rightarrow> 's" where
  "run step s [] = s"
| "run step s (x # xs) = run step (step s x) xs"

lemma run_append: "run step s (xs @ ys) = run step (run step s xs) ys"
  by (induction xs arbitrary: s) auto

locale machine =
  fixes step :: "'s \<Rightarrow> 'op \<Rightarrow> 's"
    and ok :: "'op \<Rightarrow> bool"
    and inv :: "'s \<Rightarrow> bool"
    and le :: "'s \<Rightarrow> 's \<Rightarrow> bool"
  assumes inv_step: "inv s \<Longrightarrow> ok x \<Longrightarrow> inv (step s x)"
    and le_refl: "le s s"
    and le_trans: "le s t \<Longrightarrow> le t u \<Longrightarrow> le s u"
    and le_step: "inv s \<Longrightarrow> ok x \<Longrightarrow> le s (step s x)"
begin

lemma run_inv: "inv s \<Longrightarrow> list_all ok xs \<Longrightarrow> inv (run step s xs)"
  by (induction xs arbitrary: s) (auto intro: inv_step)

lemma run_le: "inv s \<Longrightarrow> list_all ok xs \<Longrightarrow> le s (run step s xs)"
proof (induction xs arbitrary: s)
  case Nil
  show ?case by (simp add: le_refl)
next
  case (Cons x xs)
  then have "le s (step s x)" and "le (step s x) (run step (step s x) xs)"
    by (auto intro: le_step inv_step)
  then show ?case by (auto intro: le_trans)
qed

end

text \<open>
  The same for an invariant that counts the operations done so far, up to a budget: a
  counter that cannot have wrapped around yet.
\<close>

locale budget_machine =
  fixes step :: "'s \<Rightarrow> 'op \<Rightarrow> 's"
    and inv :: "nat \<Rightarrow> 's \<Rightarrow> bool"
    and budget :: nat
  assumes inv_Suc: "inv n s \<Longrightarrow> n < budget \<Longrightarrow> inv (Suc n) (step s x)"
begin

lemma run_budget: "inv n s \<Longrightarrow> n + length xs \<le> budget \<Longrightarrow> inv (n + length xs) (run step s xs)"
proof (induction xs arbitrary: n s)
  case (Cons x xs)
  then have "inv (Suc n + length xs) (run step (step s x) xs)"
    by (intro Cons.IH inv_Suc) auto
  then show ?case by simp
qed simp

end

text \<open>
  A component that implements an abstract one: each operation, seen through the abstraction
  function, is the abstract operation, and so is every run.
\<close>

locale refinement =
  fixes cstep :: "'s \<Rightarrow> 'op \<Rightarrow> 's"
    and astep :: "'a \<Rightarrow> 'op \<Rightarrow> 'a"
    and abst :: "'s \<Rightarrow> 'a"
    and inv :: "'s \<Rightarrow> bool"
    and ok :: "'op \<Rightarrow> bool"
  assumes keeps_inv: "inv s \<Longrightarrow> ok x \<Longrightarrow> inv (cstep s x)"
    and simulates: "inv s \<Longrightarrow> ok x \<Longrightarrow> abst (cstep s x) = astep (abst s) x"
begin

lemma run_refines: "inv s \<Longrightarrow> list_all ok xs \<Longrightarrow> abst (run cstep s xs) = run astep (abst s) xs"
  by (induction xs arbitrary: s) (auto simp: simulates keeps_inv)

end

text \<open>
  The same for step relations: a step of the component is a step of the abstract one, or is
  not visible there.
\<close>

locale simulation =
  fixes cstep :: "'s \<Rightarrow> 's \<Rightarrow> bool"
    and astep :: "'a \<Rightarrow> 'a \<Rightarrow> bool"
    and abst :: "'s \<Rightarrow> 'a"
    and inv :: "'s \<Rightarrow> bool"
  assumes inv_step: "inv s \<Longrightarrow> cstep s t \<Longrightarrow> inv t"
    and simulated: "inv s \<Longrightarrow> cstep s t \<Longrightarrow> abst t = abst s \<or> astep (abst s) (abst t)"
begin

lemma run_inv: "cstep\<^sup>*\<^sup>* s t \<Longrightarrow> inv s \<Longrightarrow> inv t"
  by (induction rule: rtranclp_induct) (auto intro: inv_step)

lemma run_simulated: "cstep\<^sup>*\<^sup>* s t \<Longrightarrow> inv s \<Longrightarrow> astep\<^sup>*\<^sup>* (abst s) (abst t)"
proof (induction rule: rtranclp_induct)
  case (step t u)
  then show ?case using simulated [OF run_inv [OF step.hyps(1) step.prems] step.hyps(2)] by auto
qed simp

end

section \<open>Unsigned words\<close>

lemma unat_add_no_wrap:
  "unat (a :: 'a::len word) + unat b < 2 ^ LENGTH('a) \<Longrightarrow> unat (a + b) = unat a + unat b"
  by (simp add: unat_word_ariths)

lemma unat_mult_no_wrap:
  "unat (a :: 'a::len word) * unat b < 2 ^ LENGTH('a) \<Longrightarrow> unat (a * b) = unat a * unat b"
  by (simp add: unat_word_ariths)

lemma unat_sub_le: "b \<le> (a :: 'a::len word) \<Longrightarrow> unat (a - b) = unat a - unat b"
  by (simp add: unat_sub)

lemma unat_inc_le: "unat (x + 1 :: 'a::len word) \<le> Suc (unat x)"
  by (simp add: unat_word_ariths)

lemma unat_inc_sum:
  "unat (x :: 'a::len word) + k \<le> n \<Longrightarrow> unat (x + 1) + k \<le> Suc n"
  "k + unat (x :: 'a::len word) \<le> n \<Longrightarrow> k + unat (x + 1) \<le> Suc n"
  using unat_inc_le [of x] by linarith+

lemma ratio_le: "0 < t \<Longrightarrow> a \<le> t \<Longrightarrow> c * a div t \<le> (c :: nat)"
  by (metis div_le_mono mult_le_mono2 nonzero_mult_div_cancel_right less_not_refl)

end
