(* ===== verification/Bytes.thy ===== *)
theory Bytes
  imports Prelude
begin

text \<open>
  Big-endian words: what \<^verbatim>\<open>binary.BigEndian\<close> writes and reads, and the bytes of a
  \<^verbatim>\<open>*big.Int\<close> made from a \<^verbatim>\<open>uint64\<close>, which have no leading zero.
\<close>

unbundle bit_operations_syntax

definition be_word32 :: "bytes \<Rightarrow> uint32" where
  "be_word32 bs = foldl (\<lambda>w b. push_bit 8 w OR ucast b) 0 bs"

definition be_bytes32 :: "uint32 \<Rightarrow> bytes" where
  "be_bytes32 w = map (\<lambda>i. ucast (drop_bit (24 - 8 * i) w)) [0, 1, 2, 3]"

definition be_bytes64 :: "uint64 \<Rightarrow> bytes" where
  "be_bytes64 w = map (\<lambda>i. ucast (drop_bit (56 - 8 * i) w)) [0, 1, 2, 3, 4, 5, 6, 7]"

text \<open>\<^verbatim>\<open>new(big.Int).SetUint64(v).Bytes()\<close>.\<close>

definition big_bytes :: "uint64 \<Rightarrow> bytes" where
  "big_bytes v = dropWhile (\<lambda>b. b = 0) (be_bytes64 v)"

lemma length_be_bytes32 [simp]: "length (be_bytes32 w) = 4"
  by (simp add: be_bytes32_def)

lemma length_be_bytes64 [simp]: "length (be_bytes64 w) = 8"
  by (simp add: be_bytes64_def)

lemma be_word32_bytes [simp]: "be_word32 (be_bytes32 w) = w"
proof (rule bit_word_eqI)
  fix n :: nat
  assume n: "n < LENGTH(32)"
  then consider "n < 8" | "8 \<le> n" "n < 16" | "16 \<le> n" "n < 24" | "24 \<le> n" "n < 32" by fastforce
  then show "bit (be_word32 (be_bytes32 w)) n = bit w n"
    by cases (auto simp: be_word32_def be_bytes32_def bit_simps)
qed

lemma be_bytes64_nth:
  assumes "be_bytes64 v = be_bytes64 w" "i < 8" "j < 8"
  shows "bit v (8 * i + j) = bit w (8 * i + j)"
proof -
  have e: "be_bytes64 x ! (7 - i) = ucast (drop_bit (8 * i) x)" for x
  proof -
    have "i \<in> {0, 1, 2, 3, 4, 5, 6, 7}" using assms(2) by auto
    then show ?thesis by (auto simp: be_bytes64_def)
  qed
  have "(ucast (drop_bit (8 * i) v) :: byte) = ucast (drop_bit (8 * i) w)"
    using assms(1) by (simp flip: e)
  then have "bit (ucast (drop_bit (8 * i) v) :: byte) j = bit (ucast (drop_bit (8 * i) w) :: byte) j"
    by (rule arg_cong)
  then show ?thesis using assms(2,3) by (simp add: bit_simps add.commute)
qed

lemma be_bytes64_inject [simp]: "be_bytes64 v = be_bytes64 w \<longleftrightarrow> v = w"
proof
  assume e: "be_bytes64 v = be_bytes64 w"
  show "v = w"
  proof (rule bit_word_eqI)
    fix n :: nat
    assume "n < LENGTH(64)"
    then have "n div 8 < 8" "n mod 8 < 8" by auto
    from be_bytes64_nth [OF e this] show "bit v n = bit w n" by simp
  qed
qed simp

lemma big_bytes_pad: "be_bytes64 v = replicate (8 - length (big_bytes v)) 0 @ big_bytes v"
proof -
  let ?z = "takeWhile (\<lambda>b. b = 0) (be_bytes64 v)"
  have s: "be_bytes64 v = ?z @ big_bytes v"
    by (simp add: big_bytes_def takeWhile_dropWhile_id)
  then have "length ?z + length (big_bytes v) = 8"
    by (metis length_append length_be_bytes64)
  moreover have "?z = replicate (length ?z) 0"
    by (rule replicate_length_same [symmetric]) (auto dest: set_takeWhileD)
  ultimately show ?thesis using s by (metis add_diff_cancel_right')
qed

lemma big_bytes_length: "length (big_bytes v) \<le> 8"
  using length_dropWhile_le [of "\<lambda>b. b = 0" "be_bytes64 v"] by (simp add: big_bytes_def)

lemma big_bytes_inject [simp]: "big_bytes v = big_bytes w \<longleftrightarrow> v = w"
  using big_bytes_pad [of v] big_bytes_pad [of w] by (metis be_bytes64_inject)

lemma big_bytes_hd: "big_bytes v \<noteq> [] \<Longrightarrow> hd (big_bytes v) \<noteq> 0"
  using hd_dropWhile [of "\<lambda>b. b = 0" "be_bytes64 v"] by (auto simp: big_bytes_def dropWhile_eq_Nil_conv)

text \<open>The number with the given bytes.\<close>

definition be_word64 :: "bytes \<Rightarrow> uint64" where
  "be_word64 bs = foldl (\<lambda>w b. push_bit 8 w OR ucast b) 0 bs"

lemma bit_be_word64:
  "bit (be_word64 bs) n \<longleftrightarrow> n < 64 \<and> n div 8 < length bs \<and> bit (rev bs ! (n div 8)) (n mod 8)"
proof (induction bs arbitrary: n rule: rev_induct)
  case (snoc b bs)
  have s: "be_word64 (bs @ [b]) = push_bit 8 (be_word64 bs) OR ucast b" by (simp add: be_word64_def)
  show ?case
  proof (cases "n < 8")
    case True
    then show ?thesis by (simp add: s bit_or_iff bit_push_bit_iff bit_ucast_iff)
  next
    case False
    then obtain m where m: "n = m + 8" by (metis add.commute le_Suc_ex not_less)
    have "bit (ucast b :: uint64) n = False" using False bit_imp_le_length [of b n] by (auto simp: bit_ucast_iff)
    then have "bit (be_word64 (bs @ [b])) n \<longleftrightarrow> n < 64 \<and> bit (be_word64 bs) m" using m by (simp add: s bit_or_iff bit_push_bit_iff)
    then show ?thesis using snoc.IH [of m] m by auto
  qed
qed (simp add: be_word64_def)

lemma be_bytes64_word:
  assumes "length bs \<le> 8"
  shows "be_bytes64 (be_word64 bs) = replicate (8 - length bs) 0 @ bs"
proof (rule nth_equalityI)
  fix i assume "i < length (be_bytes64 (be_word64 bs))"
  then have i: "i < 8" by simp
  then have "i \<in> {0, 1, 2, 3, 4, 5, 6, 7}" by auto
  then have e: "be_bytes64 (be_word64 bs) ! i = ucast (drop_bit (8 * (7 - i)) (be_word64 bs))" by (auto simp: be_bytes64_def)
  show "be_bytes64 (be_word64 bs) ! i = (replicate (8 - length bs) 0 @ bs) ! i"
  proof (rule bit_word_eqI)
    fix j assume "j < LENGTH(8)"
    then have j: "j < 8" by simp
    then have k: "8 * (7 - i) + j < 64" by linarith
    have "bit (be_bytes64 (be_word64 bs) ! i) j \<longleftrightarrow> 7 - i < length bs \<and> bit (rev bs ! (7 - i)) j"
      using i j k by (simp add: e bit_ucast_iff bit_drop_bit_eq bit_be_word64)
    then show "bit (be_bytes64 (be_word64 bs) ! i) j = bit ((replicate (8 - length bs) 0 @ bs) ! i) j"
      using i assms by (auto simp: nth_append rev_nth add.commute)
  qed
qed (use assms in simp)

lemma big_bytes_word64:
  assumes "length bs \<le> 8" "bs = [] \<or> hd bs \<noteq> 0"
  shows "big_bytes (be_word64 bs) = bs"
proof -
  have "dropWhile (\<lambda>b. b = 0) (replicate n 0 @ bs) = bs" for n using assms(2) by (induction n) (cases bs; auto)+
  then show ?thesis using be_bytes64_word [OF assms(1)] by (simp add: big_bytes_def)
qed

lemma big_bytes_Nil [simp]: "big_bytes v = [] \<longleftrightarrow> v = 0"
proof -
  have "big_bytes 0 = []" by code_simp
  then show ?thesis using big_bytes_inject [of v 0] by simp
qed

end
