(* ===== verification/SHA256.thy ===== *)
theory SHA256
  imports Bytes
begin

text \<open>
  The hash \<^verbatim>\<open>crypto/sha256\<close> of Go's standard library, as FIPS 180-4 defines it, on lists of
  bytes: padding to whole blocks of 64 bytes, a schedule of 64 words per block, and 64
  rounds on the eight chaining words. \<open>sha256\<close> is what \<^verbatim>\<open>sha256.New()\<close>, one \<^verbatim>\<open>Write\<close> of the
  given bytes and \<^verbatim>\<open>Sum(nil)\<close> return; several writes hash the concatenation.
\<close>

unbundle bit_operations_syntax

section \<open>Words and bytes\<close>

fun words_of :: "bytes \<Rightarrow> uint32 list" where
  "words_of (a # b # c # d # bs) = be_word32 [a, b, c, d] # words_of bs"
| "words_of _ = []"

fun blocks :: "bytes \<Rightarrow> bytes list" where
  "blocks bs = (if bs = [] then [] else take 64 bs # blocks (drop 64 bs))"

declare blocks.simps [simp del]

section \<open>The compression function\<close>

definition rotr :: "nat \<Rightarrow> uint32 \<Rightarrow> uint32" where
  "rotr n w = drop_bit n w OR push_bit (32 - n) w"

definition round_consts :: "uint32 list" where
  "round_consts = [
     1116352408, 1899447441, 3049323471, 3921009573, 961987163, 1508970993, 2453635748,
     2870763221, 3624381080, 310598401, 607225278, 1426881987, 1925078388, 2162078206,
     2614888103, 3248222580, 3835390401, 4022224774, 264347078, 604807628, 770255983,
     1249150122, 1555081692, 1996064986, 2554220882, 2821834349, 2952996808, 3210313671,
     3336571891, 3584528711, 113926993, 338241895, 666307205, 773529912, 1294757372,
     1396182291, 1695183700, 1986661051, 2177026350, 2456956037, 2730485921, 2820302411,
     3259730800, 3345764771, 3516065817, 3600352804, 4094571909, 275423344, 430227734,
     506948616, 659060556, 883997877, 958139571, 1322822218, 1537002063, 1747873779,
     1955562222, 2024104815, 2227730452, 2361852424, 2428436474, 2756734187, 3204031479,
     3329325298]"

definition initial_hash :: "uint32 list" where
  "initial_hash = [
     1779033703, 3144134277, 1013904242, 2773480762, 1359893119, 2600822924, 528734635,
     1541459225]"

definition schedule_word :: "uint32 \<Rightarrow> uint32 \<Rightarrow> uint32 \<Rightarrow> uint32 \<Rightarrow> uint32" where
  "schedule_word w2 w7 w15 w16 =
     (rotr 17 w2 XOR rotr 19 w2 XOR drop_bit 10 w2) + w7 +
     (rotr 7 w15 XOR rotr 18 w15 XOR drop_bit 3 w15) + w16"

text \<open>The schedule is built newest word first.\<close>

fun extend_schedule :: "nat \<Rightarrow> uint32 list \<Rightarrow> uint32 list" where
  "extend_schedule 0 ws = ws"
| "extend_schedule (Suc n) ws =
     extend_schedule n (schedule_word (ws ! 1) (ws ! 6) (ws ! 14) (ws ! 15) # ws)"

definition schedule :: "bytes \<Rightarrow> uint32 list" where
  "schedule block = rev (extend_schedule 48 (rev (words_of block)))"

datatype chain = Chain uint32 uint32 uint32 uint32 uint32 uint32 uint32 uint32

fun sha_round :: "uint32 \<times> uint32 \<Rightarrow> chain \<Rightarrow> chain" where
  "sha_round (k, w) (Chain a b c d e f g h) =
     (let t1 = h + (rotr 6 e XOR rotr 11 e XOR rotr 25 e) + ((e AND f) XOR (NOT e AND g)) + k + w;
          t2 = (rotr 2 a XOR rotr 13 a XOR rotr 22 a) + ((a AND b) XOR (a AND c) XOR (b AND c))
      in Chain (t1 + t2) a b c (d + t1) e f g)"

fun chain_add :: "chain \<Rightarrow> chain \<Rightarrow> chain" where
  "chain_add (Chain a b c d e f g h) (Chain a' b' c' d' e' f' g' h') =
     Chain (a + a') (b + b') (c + c') (d + d') (e + e') (f + f') (g + g') (h + h')"

definition compress :: "bytes \<Rightarrow> chain \<Rightarrow> chain" where
  "compress block c = chain_add c (fold sha_round (zip round_consts (schedule block)) c)"

fun chain_bytes :: "chain \<Rightarrow> bytes" where
  "chain_bytes (Chain a b c d e f g h) = concat (map be_bytes32 [a, b, c, d, e, f, g, h])"

definition initial_chain :: chain where
  "initial_chain = Chain (initial_hash ! 0) (initial_hash ! 1) (initial_hash ! 2) (initial_hash ! 3)
     (initial_hash ! 4) (initial_hash ! 5) (initial_hash ! 6) (initial_hash ! 7)"

section \<open>The hash\<close>

text \<open>A one bit, zeros up to 56 bytes modulo 64, and the length in bits.\<close>

definition sha_pad :: "bytes \<Rightarrow> bytes" where
  "sha_pad bs = bs @ [0x80] @ replicate ((119 - length bs mod 64) mod 64) 0 @ be_bytes64 (word_of_nat (8 * length bs))"

definition sha256 :: "bytes \<Rightarrow> hash" where
  "sha256 bs = chain_bytes (fold compress (blocks (sha_pad bs)) initial_chain)"

lemma length_sha256 [simp]: "length (sha256 bs) = 32"
  unfolding sha256_def by (cases "fold compress (blocks (sha_pad bs)) initial_chain") simp

lemma pad_length:
  assumes "r < 64"
  shows "(119 - r) mod 64 + r = (if r \<le> 55 then 55 else (119 :: nat))"
proof (cases "r \<le> 55")
  case True
  then have "119 - r = (55 - r) + 64" by linarith
  then have "(119 - r) mod 64 = ((55 - r) + 64) mod 64" by (simp only:)
  also have "\<dots> = (55 - r) mod 64" by (rule mod_add_self2)
  also have "\<dots> = 55 - r" by (rule mod_less) linarith
  finally have "(119 - r) mod 64 + r = (55 - r) + r" by (simp only:)
  also have "\<dots> = 55" using True by simp
  finally show ?thesis using True by (simp only: if_True)
qed (use assms in simp)

lemma sha_pad_blocks: "\<exists>q. length (sha_pad bs) = 64 * q"
proof -
  define q r where "q = length bs div 64" and "r = length bs mod 64"
  have n: "length bs = 64 * q + r" and r: "r < 64" by (simp_all add: q_def r_def)
  have "length (sha_pad bs) = length bs + 9 + (119 - r) mod 64" by (simp add: sha_pad_def r_def)
  then have "length (sha_pad bs) = 64 * (if r \<le> 55 then q + 1 else q + 2)"
    using n pad_length [OF r] by (auto split: if_splits)
  then show ?thesis ..
qed

end
