(* ===== verification/Json.thy ===== *)
theory Json
  imports Prelude
begin

text \<open>
  The part of Go's \<^verbatim>\<open>encoding/json\<close> the validator relies on. Reading a text is the scanner
  of \<^verbatim>\<open>encoding/json\<close>: an automaton with a stack that takes one byte at a time, so it is a
  structural recursion over the input and needs no fuel; nesting deeper than 10000 is an
  error there and here. Decoding a value into a Go type follows \<^verbatim>\<open>Unmarshal\<close>: keys match the
  field name up to case, unknown keys are ignored, later keys win, \<^verbatim>\<open>null\<close> leaves a field as
  it is, and a value of the wrong kind is an error. Writing is \<^verbatim>\<open>Marshal\<close>: compact, in field
  order, with the HTML-safe escapes; \<^verbatim>\<open>[]byte\<close> travels in base64.
\<close>

section \<open>Values and characters\<close>

datatype json =
    JNull
  | JBool bool
  | JNum string
  | JStr string
  | JArr "json list"
  | JObj "(string \<times> json) list"

abbreviation code :: "char \<Rightarrow> nat" where
  "code c \<equiv> of_char c"

definition is_space :: "char \<Rightarrow> bool" where
  "is_space c \<longleftrightarrow> code c = 32 \<or> code c = 9 \<or> code c = 13 \<or> code c = 10"

definition is_digit :: "char \<Rightarrow> bool" where
  "is_digit c \<longleftrightarrow> 48 \<le> code c \<and> code c \<le> 57"

definition hex_val :: "char \<Rightarrow> nat option" where
  "hex_val c = (if is_digit c then Some (code c - 48)
     else if 97 \<le> code c \<and> code c \<le> 102 then Some (code c - 87)
     else if 65 \<le> code c \<and> code c \<le> 70 then Some (code c - 55) else None)"

section \<open>Strings: UTF-8 and escapes\<close>

definition cont :: "char \<Rightarrow> bool" where
  "cont c \<longleftrightarrow> 128 \<le> code c \<and> code c < 192"

text \<open>The length of the valid UTF-8 sequence at the head of a string, 0 if there is none.\<close>

fun utf8_width :: "string \<Rightarrow> nat" where
  "utf8_width [] = 0"
| "utf8_width (a # s) =
     (if code a < 128 then 1
      else if 194 \<le> code a \<and> code a \<le> 223 then
        (case s of b # _ \<Rightarrow> if cont b then 2 else 0 | _ \<Rightarrow> 0)
      else if 224 \<le> code a \<and> code a \<le> 239 then
        (case s of b # c # _ \<Rightarrow>
           if cont b \<and> cont c \<and> (code a = 224 \<longrightarrow> 160 \<le> code b) \<and> (code a = 237 \<longrightarrow> code b < 160) then 3 else 0
         | _ \<Rightarrow> 0)
      else if 240 \<le> code a \<and> code a \<le> 244 then
        (case s of b # c # d # _ \<Rightarrow>
           if cont b \<and> cont c \<and> cont d \<and> (code a = 240 \<longrightarrow> 144 \<le> code b) \<and> (code a = 244 \<longrightarrow> code b < 144) then 4 else 0
         | _ \<Rightarrow> 0)
      else 0)"

definition chr :: "nat \<Rightarrow> char" where
  "chr n = char_of n"

definition encode_rune :: "nat \<Rightarrow> string" where
  "encode_rune r =
     (if r < 128 then [chr r]
      else if r < 2048 then [chr (192 + r div 64), chr (128 + r mod 64)]
      else if 55296 \<le> r \<and> r < 57344 \<or> 1114111 < r then [chr 239, chr 191, chr 189]
      else if r < 65536 then [chr (224 + r div 4096), chr (128 + r div 64 mod 64), chr (128 + r mod 64)]
      else [chr (240 + r div 262144), chr (128 + r div 4096 mod 64), chr (128 + r div 64 mod 64), chr (128 + r mod 64)])"

text \<open>\<^verbatim>\<open>getu4\<close>: the rune of an escape \<open>\u\<close> with four hexadecimal digits.\<close>

fun getu4 :: "string \<Rightarrow> nat option" where
  "getu4 (x # u # a # b # c # d # _) =
     (if code x = 92 \<and> code u = 117 then
        (case (hex_val a, hex_val b, hex_val c, hex_val d) of
           (Some p, Some q, Some r, Some s) \<Rightarrow> Some (((p * 16 + q) * 16 + r) * 16 + s)
         | _ \<Rightarrow> None)
      else None)"
| "getu4 _ = None"

definition escape_value :: "char \<Rightarrow> string" where
  "escape_value c =
     (if code c = 98 then [chr 8] else if code c = 102 then [chr 12] else if code c = 110 then [chr 10]
      else if code c = 114 then [chr 13] else if code c = 116 then [chr 9] else [c])"

text \<open>The Go string of the raw text between the quotes.\<close>

function unquote :: "string \<Rightarrow> string" where
  "unquote s = (case s of
     [] \<Rightarrow> []
   | x # t \<Rightarrow>
       if code x = 92 then
         (case t of
            [] \<Rightarrow> []
          | e # t' \<Rightarrow>
              if code e = 117 then
                (case getu4 s of
                   None \<Rightarrow> unquote (drop 6 s)
                 | Some r \<Rightarrow>
                     if 55296 \<le> r \<and> r < 57344 then
                       (case getu4 (drop 6 s) of
                          Some r' \<Rightarrow>
                            if r < 56320 \<and> 56320 \<le> r' \<and> r' < 57344
                            then encode_rune ((r - 55296) * 1024 + (r' - 56320) + 65536) @ unquote (drop 12 s)
                            else encode_rune 65533 @ unquote (drop 6 s)
                        | None \<Rightarrow> encode_rune 65533 @ unquote (drop 6 s))
                     else encode_rune r @ unquote (drop 6 s))
              else escape_value e @ unquote t')
       else if code x < 128 then x # unquote t
       else if utf8_width s = 0 then encode_rune 65533 @ unquote t
       else take (utf8_width s) s @ unquote (drop (utf8_width s) s))"
  by pat_completeness auto
termination
  by (relation "measure length") auto

declare unquote.simps [simp del]

section \<open>The scanner\<close>

datatype frame =
    FArr "json list"
  | FObj "(string \<times> json) list"
  | FKey "(string \<times> json) list" string

datatype num_state = NNeg | N0 | N1 | NDot | NDot0 | NE | NESign | NE0

datatype scan_state =
    BeginValue
  | BeginValueOrEmpty
  | BeginStringOrEmpty
  | BeginString
  | EndValue
  | InString string
  | InStringEsc string
  | InStringEscU nat string
  | InNumber num_state string
  | InLiteral string json
  | ScanError
  | EndTop json

type_synonym scanner = "frame list \<times> scan_state"

definition max_nesting :: nat where
  "max_nesting = 10000"

fun close_value :: "json \<Rightarrow> frame list \<Rightarrow> scanner" where
  "close_value v [] = ([], EndTop v)"
| "close_value v (FArr vs # st) = (FArr (v # vs) # st, EndValue)"
| "close_value v (FKey kvs k # st) = (FObj ((k, v) # kvs) # st, EndValue)"
| "close_value v (FObj kvs # st) = (FObj kvs # st, ScanError)"

fun close_string :: "string \<Rightarrow> frame list \<Rightarrow> scanner" where
  "close_string s (FObj kvs # st) = (FKey kvs s # st, EndValue)"
| "close_string s st = close_value (JStr s) st"

fun end_step :: "scanner \<Rightarrow> char \<Rightarrow> scanner" where
  "end_step (st, EndTop v) c = (if is_space c then (st, EndTop v) else (st, ScanError))"
| "end_step (st, EndValue) c =
     (if is_space c then (st, EndValue)
      else (case st of
          FKey kvs k # _ \<Rightarrow> if c = CHR '':'' then (st, BeginValue) else (st, ScanError)
        | FObj kvs # st' \<Rightarrow>
            if c = CHR '','' then (st, BeginString)
            else if c = CHR ''}'' then close_value (JObj (rev kvs)) st' else (st, ScanError)
        | FArr vs # st' \<Rightarrow>
            if c = CHR '','' then (st, BeginValue)
            else if c = CHR '']'' then close_value (JArr (rev vs)) st' else (st, ScanError)
        | [] \<Rightarrow> (st, ScanError)))"
| "end_step (st, _) c = (st, ScanError)"

definition push :: "frame \<Rightarrow> frame list \<Rightarrow> scan_state \<Rightarrow> scanner" where
  "push f st next = (if length st < max_nesting then (f # st, next) else (st, ScanError))"

definition begin_value :: "frame list \<Rightarrow> char \<Rightarrow> scanner" where
  "begin_value st c =
     (if is_space c then (st, BeginValue)
      else if c = CHR ''{'' then push (FObj []) st BeginStringOrEmpty
      else if c = CHR ''['' then push (FArr []) st BeginValueOrEmpty
      else if code c = 34 then (st, InString [])
      else if c = CHR ''-'' then (st, InNumber NNeg [c])
      else if c = CHR ''0'' then (st, InNumber N0 [c])
      else if is_digit c then (st, InNumber N1 [c])
      else if c = CHR ''t'' then (st, InLiteral ''rue'' (JBool True))
      else if c = CHR ''f'' then (st, InLiteral ''alse'' (JBool False))
      else if c = CHR ''n'' then (st, InLiteral ''ull'' JNull)
      else (st, ScanError))"

definition begin_string :: "frame list \<Rightarrow> char \<Rightarrow> scan_state \<Rightarrow> scanner" where
  "begin_string st c self =
     (if is_space c then (st, self) else if code c = 34 then (st, InString []) else (st, ScanError))"

text \<open>\<open>None\<close>: the number has ended before this byte.\<close>

fun num_step :: "num_state \<Rightarrow> char \<Rightarrow> num_state option + unit" where
  "num_step NNeg c = (if c = CHR ''0'' then Inl (Some N0) else if is_digit c then Inl (Some N1) else Inr ())"
| "num_step N1 c = (if is_digit c then Inl (Some N1) else if c = CHR ''.'' then Inl (Some NDot)
     else if c = CHR ''e'' \<or> c = CHR ''E'' then Inl (Some NE) else Inl None)"
| "num_step N0 c = (if c = CHR ''.'' then Inl (Some NDot)
     else if c = CHR ''e'' \<or> c = CHR ''E'' then Inl (Some NE) else Inl None)"
| "num_step NDot c = (if is_digit c then Inl (Some NDot0) else Inr ())"
| "num_step NDot0 c = (if is_digit c then Inl (Some NDot0)
     else if c = CHR ''e'' \<or> c = CHR ''E'' then Inl (Some NE) else Inl None)"
| "num_step NE c = (if c = CHR ''+'' \<or> c = CHR ''-'' then Inl (Some NESign)
     else if is_digit c then Inl (Some NE0) else Inr ())"
| "num_step NESign c = (if is_digit c then Inl (Some NE0) else Inr ())"
| "num_step NE0 c = (if is_digit c then Inl (Some NE0) else Inl None)"

definition is_escape :: "char \<Rightarrow> bool" where
  "is_escape c \<longleftrightarrow> c \<in> set ''bfnrt/'' \<or> code c = 92 \<or> code c = 34"

fun scan_step :: "scanner \<Rightarrow> char \<Rightarrow> scanner" where
  "scan_step (st, BeginValue) c = begin_value st c"
| "scan_step (st, BeginValueOrEmpty) c =
     (if is_space c then (st, BeginValueOrEmpty)
      else if c = CHR '']'' then end_step (st, EndValue) c else begin_value st c)"
| "scan_step (st, BeginStringOrEmpty) c =
     (if c = CHR ''}'' then end_step (st, EndValue) c else begin_string st c BeginStringOrEmpty)"
| "scan_step (st, BeginString) c = begin_string st c BeginString"
| "scan_step (st, InString acc) c =
     (if code c = 34 then close_string (unquote (rev acc)) st
      else if code c = 92 then (st, InStringEsc (c # acc))
      else if code c < 32 then (st, ScanError) else (st, InString (c # acc)))"
| "scan_step (st, InStringEsc acc) c =
     (if is_escape c then (st, InString (c # acc))
      else if c = CHR ''u'' then (st, InStringEscU 4 (c # acc)) else (st, ScanError))"
| "scan_step (st, InStringEscU n acc) c =
     (case hex_val c of None \<Rightarrow> (st, ScanError)
      | Some _ \<Rightarrow> (st, if n \<le> 1 then InString (c # acc) else InStringEscU (n - 1) (c # acc)))"
| "scan_step (st, InNumber n acc) c = (case num_step n c of
      Inr _ \<Rightarrow> (st, ScanError)
    | Inl (Some n') \<Rightarrow> (st, InNumber n' (c # acc))
    | Inl None \<Rightarrow> end_step (close_value (JNum (rev acc)) st) c)"
| "scan_step (st, InLiteral rest v) c = (case rest of
      [] \<Rightarrow> (st, ScanError)
    | r # rest' \<Rightarrow> if c \<noteq> r then (st, ScanError)
        else if rest' = [] then close_value v st else (st, InLiteral rest' v))"
| "scan_step (st, EndValue) c = end_step (st, EndValue) c"
| "scan_step (st, EndTop v) c = end_step (st, EndTop v) c"
| "scan_step (st, ScanError) c = (st, ScanError)"

definition scan_result :: "scanner \<Rightarrow> json option" where
  "scan_result sc = (case scan_step sc CHR '' '' of (_, EndTop v) \<Rightarrow> Some v | _ \<Rightarrow> None)"

text \<open>\<^verbatim>\<open>json.Unmarshal\<close> checks the whole text first.\<close>

definition json_parse :: "string \<Rightarrow> json option" where
  "json_parse s = scan_result (foldl scan_step ([], BeginValue) s)"

text \<open>\<^verbatim>\<open>Decoder.Decode\<close> stops after the first value.\<close>

fun decode_first :: "scanner \<Rightarrow> string \<Rightarrow> json option" where
  "decode_first (st, EndTop v) s = Some v"
| "decode_first sc [] = scan_result sc"
| "decode_first sc (c # cs) = decode_first (scan_step sc c) cs"

definition json_decode_first :: "string \<Rightarrow> json option" where
  "json_decode_first s = decode_first ([], BeginValue) s"

end
