(* ===== verification/Float64.thy ===== *)
theory Float64
  imports Prelude
begin

text \<open>
  IEEE 754 binary64 arithmetic as Go's \<^verbatim>\<open>float64\<close> uses it, and the part of Go's
  \<^verbatim>\<open>math/big.Float\<close> the validator uses.

  A finite float is the rational number it denotes. Every operation is the exact
  operation on rationals followed by rounding to nearest, ties to even, on the grid of
  the format (53 significant bits, smallest unit \<open>2 powi -1074\<close>, overflow at \<open>2 ^ 1024\<close>).
  The sign of zero is not represented: no division of the program can have a negative
  zero as its divisor and no other operation of it observes the sign (a request identifier \<^verbatim>\<open>-0\<close>
  is treated where it is read). Operations are not fused: the language allows a compiler to fuse
  a product and a sum, and the sources do not fix the target; the model is that of amd64, whose
  compiler does not.
\<close>

section \<open>Rounding to nearest, ties to even\<close>

definition rne :: "rat \<Rightarrow> int" where
  "rne q = (let f = \<lfloor>q\<rfloor>; r = q - of_int f in
     if r < 1/2 then f else if r > 1/2 then f + 1 else if even f then f else f + 1)"

lemma rne_of_int [simp]: "rne (of_int n) = n"
  by (simp add: rne_def)

lemma rne_floor: "rne q = \<lfloor>q\<rfloor> \<or> rne q = \<lfloor>q\<rfloor> + 1"
  by (auto simp: rne_def Let_def)

lemma rne_error: "\<bar>of_int (rne q) - q\<bar> \<le> 1/2"
  unfolding rne_def Let_def abs_le_iff
  by (simp; linarith)

lemma rne_mono: "p \<le> q \<Longrightarrow> rne p \<le> rne q"
proof (cases "\<lfloor>p\<rfloor> = \<lfloor>q\<rfloor>")
  case True
  moreover assume "p \<le> q"
  ultimately show ?thesis by (auto simp: rne_def Let_def)
next
  case False
  assume "p \<le> q"
  with False have "\<lfloor>p\<rfloor> + 1 \<le> \<lfloor>q\<rfloor>" using floor_mono by fastforce
  with rne_floor [of p] rne_floor [of q] show ?thesis by auto
qed

lemma rne_le_int: "q \<le> of_int n \<Longrightarrow> rne q \<le> n"
  using rne_mono [of q "of_int n"] by simp

lemma rne_ge_int: "of_int n \<le> q \<Longrightarrow> n \<le> rne q"
  using rne_mono [of "of_int n" q] by simp

lemma rne_eqI:
  assumes "\<bar>q - of_int k\<bar> < 1/2 \<or> \<bar>q - of_int k\<bar> = 1/2 \<and> even k"
  shows "rne q = k"
proof -
  consider "\<bar>q - of_int k\<bar> < 1/2" | "q = of_int k + 1/2" "even k" | "q = of_int (k - 1) + 1/2" "even k"
    using assms by (auto simp: abs_if split: if_splits)
  then show ?thesis
  proof cases
    case 1
    moreover have "\<bar>of_int (rne q) - q\<bar> \<le> 1/2" by (rule rne_error)
    ultimately have "\<bar>of_int (rne q - k)\<bar> < (1::rat)"
      unfolding abs_less_iff abs_le_iff of_int_diff by linarith
    then show ?thesis by linarith
  next
    case 2
    then have "\<lfloor>q\<rfloor> = k" by (intro floor_unique) auto
    with 2 show ?thesis by (simp add: rne_def)
  next
    case 3
    then have "\<lfloor>q\<rfloor> = k - 1" by (intro floor_unique) auto
    with 3 show ?thesis by (simp add: rne_def)
  qed
qed

lemma rne_uminus: "rne (- q) = - rne q"
proof (cases "of_int \<lfloor>q\<rfloor> = q")
  case True
  then show ?thesis by (metis of_int_minus rne_of_int)
next
  case False
  then have "\<lceil>q\<rceil> = \<lfloor>q\<rfloor> + 1"
    by (simp add: ceiling_altdef)
  then show ?thesis
    unfolding rne_def Let_def by (auto simp: floor_minus)
qed

lemma abs_diff_chain:
  fixes a b c d :: rat
  shows "\<bar>a - d\<bar> \<le> \<bar>a - b\<bar> + \<bar>b - c\<bar> + \<bar>c - d\<bar>"
  by linarith

section \<open>Binary exponent\<close>

text \<open>\<open>ilog2 x\<close> is the exponent of the binade of a positive rational.\<close>

definition ilog2 :: "rat \<Rightarrow> int" where
  "ilog2 x = (case quotient_of x of (n, d) \<Rightarrow>
     let k = bitlen n - bitlen d in if 2 powi k \<le> x then k else k - 1)"

lemma bitlen_powi:
  assumes "0 < (n::int)"
  shows "2 powi (bitlen n - 1) \<le> (of_int n :: rat)" "(of_int n :: rat) < 2 powi bitlen n"
proof -
  have b: "2 ^ nat (bitlen n - 1) \<le> n" "n < 2 ^ nat (bitlen n)" and p: "0 < bitlen n"
    using bitlen_bounds [OF assms] bitlen_nonneg [of n] bitlen_eq_zero_iff [of n] assms by auto
  have "2 powi (bitlen n - 1) = (of_int (2 ^ nat (bitlen n - 1)) :: rat)"
    using p by (simp add: power_int_def)
  then show "2 powi (bitlen n - 1) \<le> (of_int n :: rat)"
    using b(1) by (metis of_int_le_iff)
  have "2 powi bitlen n = (of_int (2 ^ nat (bitlen n)) :: rat)"
    using p by (simp add: power_int_def)
  then show "(of_int n :: rat) < 2 powi bitlen n"
    using b(2) by (metis of_int_less_iff)
qed

lemma ilog2_bounds:
  assumes "0 < x"
  shows "2 powi ilog2 x \<le> x" "x < 2 powi (ilog2 x + 1)"
proof -
  obtain n d where q: "quotient_of x = (n, d)" by (cases "quotient_of x") auto
  have d: "0 < d" using quotient_of_denom_pos [OF q] .
  have x: "x = of_int n / of_int d" using quotient_of_div [OF q] .
  have n: "0 < n" using assms d by (simp add: x zero_less_divide_iff)
  let ?k = "bitlen n - bitlen d"
  note bn = bitlen_powi [OF n] and bd = bitlen_powi [OF d]
  have "of_int n < (2 powi bitlen n :: rat)" by (rule bn)
  also have "\<dots> = 2 powi (?k + 1) * 2 powi (bitlen d - 1)"
    by (simp add: power_int_add [symmetric])
  also have "\<dots> \<le> 2 powi (?k + 1) * of_int d"
    by (intro mult_left_mono bd) simp
  finally have hi: "x < 2 powi (?k + 1)"
    using d by (simp add: x divide_less_eq)
  have "2 powi (?k - 1) * of_int d \<le> 2 powi (?k - 1) * (2 powi bitlen d :: rat)"
    using bd(2) by (intro mult_left_mono) auto
  also have "\<dots> = 2 powi (bitlen n - 1)" by (simp add: power_int_add [symmetric])
  also have "\<dots> \<le> of_int n" by (rule bn)
  finally have lo: "2 powi (?k - 1) \<le> x"
    using d by (simp add: x le_divide_eq)
  show "2 powi ilog2 x \<le> x" "x < 2 powi (ilog2 x + 1)"
    using hi lo by (auto simp: ilog2_def q Let_def)
qed

lemma powi_less_iff: "(2::rat) powi a < 2 powi b \<longleftrightarrow> a < b"
  by (meson linorder_not_less one_less_numeral_iff order_less_imp_le power_int_increasing
      power_int_strict_increasing semiring_norm(76))

lemma powi_le_iff: "(2::rat) powi a \<le> 2 powi b \<longleftrightarrow> a \<le> b"
  using powi_less_iff [of b a] by (simp add: not_less [symmetric])

lemma ilog2_unique:
  assumes "2 powi e \<le> x" "x < 2 powi (e + 1)"
  shows "ilog2 x = e"
proof -
  have "0 < x" using assms(1) zero_less_power_int [of "2::rat" e] by linarith
  from ilog2_bounds [OF this] assms
  have "(2::rat) powi ilog2 x < 2 powi (e + 1)" "(2::rat) powi e < 2 powi (ilog2 x + 1)"
    by auto
  then show ?thesis by (simp add: powi_less_iff)
qed

lemma ilog2_mono: "0 < x \<Longrightarrow> x \<le> y \<Longrightarrow> ilog2 x \<le> ilog2 y"
proof -
  assume a: "0 < x" "x \<le> y"
  then have "(2::rat) powi ilog2 x < 2 powi (ilog2 y + 1)"
    using ilog2_bounds [of x] ilog2_bounds [of y] by linarith
  then show ?thesis by (simp add: powi_less_iff)
qed

section \<open>Rounding on a grid\<close>

text \<open>
  A format is given by the exponent \<open>U e\<close> of the unit in which it counts in the binade
  \<open>e\<close>. The locale states the two facts on \<open>U\<close> from which monotonicity of rounding follows.
\<close>

definition round_unit :: "int \<Rightarrow> rat \<Rightarrow> rat" where
  "round_unit u x = of_int (rne (x / 2 powi u)) * 2 powi u"

definition round_grid :: "(int \<Rightarrow> int) \<Rightarrow> rat \<Rightarrow> rat" where
  "round_grid U x = (if x = 0 then 0 else round_unit (U (ilog2 \<bar>x\<bar>)) x)"

lemma round_unit_mono: "x \<le> y \<Longrightarrow> round_unit u x \<le> round_unit u y"
  by (auto simp: round_unit_def intro!: mult_right_mono rne_mono divide_right_mono)

lemma round_unit_int [simp]: "round_unit u (of_int k * 2 powi u) = of_int k * 2 powi u"
  by (simp add: round_unit_def)

lemma round_unit_powi: "u \<le> e \<Longrightarrow> round_unit u (2 powi e) = 2 powi e"
proof -
  assume "u \<le> e"
  then have "2 powi e = of_int (2 ^ nat (e - u)) * (2 powi u :: rat)"
    by (simp add: power_int_add [symmetric] power_int_of_nat [symmetric] del: power_int_of_nat)
  then show ?thesis by (metis round_unit_int)
qed

lemma round_unit_uminus: "round_unit u (- x) = - round_unit u x"
  by (simp add: round_unit_def rne_uminus)

lemma round_unit_error: "\<bar>round_unit u x - x\<bar> \<le> 2 powi (u - 1)"
proof -
  have "round_unit u x - x = (of_int (rne (x / 2 powi u)) - x / 2 powi u) * 2 powi u"
    by (simp add: round_unit_def algebra_simps)
  then have "\<bar>round_unit u x - x\<bar> = \<bar>of_int (rne (x / 2 powi u)) - x / 2 powi u\<bar> * 2 powi u"
    by (simp add: abs_mult)
  also have "\<dots> \<le> 1/2 * 2 powi u"
    by (intro mult_right_mono rne_error) simp
  also have "\<dots> = 2 powi (u - 1)" by (simp add: power_int_diff)
  finally show ?thesis .
qed

lemma round_grid_zero [simp]: "round_grid U 0 = 0"
  by (simp add: round_grid_def)

lemma round_grid_uminus [simp]: "round_grid U (- x) = - round_grid U x"
  by (simp add: round_grid_def round_unit_uminus)

lemma round_grid_nonneg: "0 \<le> x \<Longrightarrow> 0 \<le> round_grid U x"
  using rne_ge_int [of 0] by (auto simp: round_grid_def round_unit_def intro!: mult_nonneg_nonneg)

lemma round_grid_nonpos: "x \<le> 0 \<Longrightarrow> round_grid U x \<le> 0"
  using round_grid_nonneg [of "- x" U] by simp

lemma round_grid_error:
  "x \<noteq> 0 \<Longrightarrow> \<bar>round_grid U x - x\<bar> \<le> 2 powi (U (ilog2 \<bar>x\<bar>) - 1)"
  using round_unit_error by (simp add: round_grid_def)

text \<open>A number that is a multiple of the unit of its own binade is not changed.\<close>

definition on_grid :: "(int \<Rightarrow> int) \<Rightarrow> rat \<Rightarrow> bool" where
  "on_grid U x \<longleftrightarrow> round_grid U x = x"

lemma on_gridI: "x = of_int k * 2 powi u \<Longrightarrow> U (ilog2 \<bar>x\<bar>) \<le> u \<Longrightarrow> on_grid U x"
proof (cases "x = 0")
  case False
  assume x: "x = of_int k * 2 powi u" and u: "U (ilog2 \<bar>x\<bar>) \<le> u"
  let ?v = "U (ilog2 \<bar>x\<bar>)"
  have "2 powi u = of_int (2 ^ nat (u - ?v)) * (2 powi ?v :: rat)"
    using u by (simp add: power_int_add [symmetric] power_int_of_nat [symmetric] del: power_int_of_nat)
  then have "x = of_int (k * 2 ^ nat (u - ?v)) * 2 powi ?v"
    using x by simp
  with False show ?thesis
    by (metis on_grid_def round_grid_def round_unit_int)
qed (simp add: on_grid_def)

locale grid =
  fixes U :: "int \<Rightarrow> int"
  assumes mono_U: "d \<le> e \<Longrightarrow> U d \<le> U e"
    and fine_U: "U d < U e \<Longrightarrow> U e \<le> e"
begin

lemma round_mono_pos:
  assumes "0 < x" "x \<le> y"
  shows "round_grid U x \<le> round_grid U y"
proof -
  let ?d = "ilog2 x" and ?e = "ilog2 y"
  have y: "0 < y" using assms by simp
  have de: "?d \<le> ?e" using assms by (rule ilog2_mono)
  have rx: "round_grid U x = round_unit (U ?d) x" and ry: "round_grid U y = round_unit (U ?e) y"
    using assms y by (auto simp: round_grid_def)
  show ?thesis
  proof (cases "U ?d = U ?e")
    case True
    then show ?thesis using assms(2) by (simp add: rx ry round_unit_mono)
  next
    case False
    then have lt: "U ?d < U ?e" using mono_U [OF de] by simp
    then have f: "U ?e \<le> ?e" by (rule fine_U)
    have "?d < ?e" using lt de by (cases "?d = ?e") auto
    then have "x \<le> 2 powi ?e"
      using ilog2_bounds(2) [OF assms(1)] powi_le_iff [of "?d + 1" ?e] by linarith
    then have "round_unit (U ?d) x \<le> 2 powi ?e"
      using round_unit_mono [of x "2 powi ?e" "U ?d"] round_unit_powi [of "U ?d" ?e] lt f by simp
    moreover have "2 powi ?e \<le> round_unit (U ?e) y"
      using round_unit_mono [OF ilog2_bounds(1) [OF y], of "U ?e"] round_unit_powi [OF f] by simp
    ultimately show ?thesis by (simp add: rx ry)
  qed
qed

lemma round_mono: "x \<le> y \<Longrightarrow> round_grid U x \<le> round_grid U y"
proof -
  assume a: "x \<le> y"
  consider "0 < x" | "x \<le> 0" "0 \<le> y" | "y < 0" by linarith
  then show ?thesis
  proof cases
    case 1
    then show ?thesis using a by (rule round_mono_pos)
  next
    case 2
    then show ?thesis using round_grid_nonneg round_grid_nonpos order_trans by blast
  next
    case 3
    then have "round_grid U (- y) \<le> round_grid U (- x)"
      using a by (intro round_mono_pos) auto
    then show ?thesis by simp
  qed
qed

lemma round_le: "x \<le> y \<Longrightarrow> on_grid U y \<Longrightarrow> round_grid U x \<le> y"
  using round_mono [of x y] by (simp add: on_grid_def)

lemma round_ge: "x \<le> y \<Longrightarrow> on_grid U x \<Longrightarrow> x \<le> round_grid U y"
  using round_mono [of x y] by (simp add: on_grid_def)

lemma on_grid_round_pos:
  assumes "0 < x"
  shows "on_grid U (round_grid U x)"
proof -
  let ?e = "ilog2 x" and ?y = "round_grid U x"
  let ?u = "U ?e"
  have ry: "?y = round_unit ?u x" using assms by (simp add: round_grid_def)
  obtain k where y: "?y = of_int k * 2 powi ?u" by (simp add: ry round_unit_def)
  have y0: "0 \<le> ?y" using assms by (intro round_grid_nonneg) simp
  consider "?y = 0" | "0 < ?y" "?y < 2 powi (?e + 1)" | "2 powi (?e + 1) \<le> ?y" "?u \<le> ?e + 1"
    | "0 < ?y" "?e + 1 < ?u"
    using y0 by linarith
  then show ?thesis
  proof cases
    case 1
    then show ?thesis by (simp add: on_grid_def)
  next
    case 2
    then have "ilog2 ?y \<le> ?e"
      using ilog2_bounds(1) [of ?y] powi_less_iff [of "ilog2 ?y" "?e + 1"] by linarith
    then show ?thesis using 2 by (intro on_gridI [OF y]) (simp add: mono_U)
  next
    case 3
    have "?y \<le> 2 powi (?e + 1)"
      using round_unit_mono [of x "2 powi (?e + 1)" ?u] ilog2_bounds(2) [OF assms] 3
      by (simp add: ry round_unit_powi)
    with 3 have yy: "?y = 2 powi (?e + 1)" by simp
    have "ilog2 ?y = ?e + 1" by (rule ilog2_unique) (simp_all add: yy powi_less_iff)
    moreover have "U (?e + 1) \<le> ?e + 1"
      using 3(2) fine_U [of ?e "?e + 1"] by linarith
    ultimately show ?thesis
      using yy by (intro on_gridI [where k = 1 and u = "?e + 1"]) simp_all
  next
    case 4
    have "x \<le> 2 powi ?u"
      using ilog2_bounds(2) [OF assms] 4(2) powi_le_iff [of "?e + 1" ?u] by linarith
    then have "?y \<le> 2 powi ?u"
      using round_unit_mono [of x "2 powi ?u" ?u] by (simp add: ry round_unit_powi)
    then have "of_int k \<le> (1::rat)" by (simp add: y)
    moreover have "0 < (of_int k :: rat)"
      using 4(1) unfolding y by (rule zero_less_mult_pos2) simp
    ultimately have yy: "?y = 2 powi ?u" by (simp add: y)
    have "ilog2 ?y = ?u" by (rule ilog2_unique) (simp_all add: yy powi_less_iff)
    moreover have "U ?u \<le> ?u" using fine_U [of ?e ?u] by linarith
    ultimately show ?thesis
      using yy by (intro on_gridI [where k = 1 and u = "?u"]) simp_all
  qed
qed

lemma on_grid_round: "on_grid U (round_grid U x)"
proof (cases x "0::rat" rule: linorder_cases)
  case less
  then have "on_grid U (round_grid U (- x))" by (intro on_grid_round_pos) simp
  then show ?thesis by (simp add: on_grid_def)
next
  case greater
  then show ?thesis by (rule on_grid_round_pos)
qed (simp add: on_grid_def)

end

section \<open>The binary64 format\<close>

definition f64_unit :: "int \<Rightarrow> int" where
  "f64_unit e = max (e - 52) (-1074)"

interpretation f64: grid f64_unit
  by unfold_locales (auto simp: f64_unit_def)

datatype float64 = Fin rat | PInf | NInf | NaN

definition round64 :: "rat \<Rightarrow> float64" where
  "round64 x = (let y = round_grid f64_unit x in
     if 2 ^ 1024 \<le> y then PInf else if y \<le> - (2 ^ 1024) then NInf else Fin y)"

text \<open>The numbers a binary64 value can hold.\<close>

definition is_f64 :: "rat \<Rightarrow> bool" where
  "is_f64 x \<longleftrightarrow> on_grid f64_unit x \<and> \<bar>x\<bar> < 2 ^ 1024"

fun valid_f64 :: "float64 \<Rightarrow> bool" where
  "valid_f64 (Fin x) = is_f64 x"
| "valid_f64 _ = True"

definition fsign_inf :: "bool \<Rightarrow> float64" where
  "fsign_inf pos = (if pos then PInf else NInf)"

fun fadd :: "float64 \<Rightarrow> float64 \<Rightarrow> float64" where
  "fadd NaN _ = NaN"
| "fadd _ NaN = NaN"
| "fadd (Fin x) (Fin y) = round64 (x + y)"
| "fadd (Fin _) b = b"
| "fadd PInf NInf = NaN"
| "fadd NInf PInf = NaN"
| "fadd a _ = a"

fun fmul :: "float64 \<Rightarrow> float64 \<Rightarrow> float64" where
  "fmul NaN _ = NaN"
| "fmul _ NaN = NaN"
| "fmul (Fin x) (Fin y) = round64 (x * y)"
| "fmul (Fin x) b = (if x = 0 then NaN else fsign_inf ((0 < x) = (b = PInf)))"
| "fmul a (Fin y) = (if y = 0 then NaN else fsign_inf ((0 < y) = (a = PInf)))"
| "fmul a b = fsign_inf (a = b)"

fun fdiv :: "float64 \<Rightarrow> float64 \<Rightarrow> float64" where
  "fdiv NaN _ = NaN"
| "fdiv _ NaN = NaN"
| "fdiv (Fin x) (Fin y) =
     (if y = 0 then (if x = 0 then NaN else fsign_inf (0 < x)) else round64 (x / y))"
| "fdiv (Fin _) _ = Fin 0"
| "fdiv a (Fin y) = fsign_inf ((0 \<le> y) = (a = PInf))"
| "fdiv _ _ = NaN"

fun flt :: "float64 \<Rightarrow> float64 \<Rightarrow> bool" where
  "flt NaN _ = False"
| "flt _ NaN = False"
| "flt (Fin x) (Fin y) = (x < y)"
| "flt (Fin _) b = (b = PInf)"
| "flt a (Fin _) = (a = NInf)"
| "flt a b = (a = NInf \<and> b = PInf)"

definition feq :: "float64 \<Rightarrow> float64 \<Rightarrow> bool" where
  "feq a b \<longleftrightarrow> a \<noteq> NaN \<and> a = b"

definition fle :: "float64 \<Rightarrow> float64 \<Rightarrow> bool" where
  "fle a b \<longleftrightarrow> flt a b \<or> feq a b"

text \<open>\<^verbatim>\<open>math.Min\<close>.\<close>

definition fmin :: "float64 \<Rightarrow> float64 \<Rightarrow> float64" where
  "fmin a b = (if a = NInf \<or> b = NInf then NInf
     else if a = NaN \<or> b = NaN then NaN
     else if flt a b then a else b)"

text \<open>
  Conversions. A float is truncated when converted to an integer; when the integer type
  cannot hold the result, the language leaves the value to the implementation, which is
  the argument \<open>impl\<close>.
\<close>

definition trunc :: "rat \<Rightarrow> int" where
  "trunc x = (if 0 \<le> x then \<lfloor>x\<rfloor> else \<lceil>x\<rceil>)"

definition f64_of_int :: "int \<Rightarrow> float64" where
  "f64_of_int n = round64 (of_int n)"

definition f64_of_uint64 :: "uint64 \<Rightarrow> float64" where
  "f64_of_uint64 w = f64_of_int (uint w)"

definition f64_to_uint64 :: "(float64 \<Rightarrow> uint64) \<Rightarrow> float64 \<Rightarrow> uint64" where
  "f64_to_uint64 impl a = (case a of
     Fin x \<Rightarrow> if 0 \<le> trunc x \<and> trunc x < 2 ^ 64 then word_of_int (trunc x) else impl a
   | _ \<Rightarrow> impl a)"

subsection \<open>Exactness, ranges and monotonicity\<close>

lemma round64_exact: "is_f64 x \<Longrightarrow> round64 x = Fin x"
  by (auto simp: round64_def is_f64_def on_grid_def Let_def abs_less_iff)

lemma is_f64_zero [simp]: "is_f64 0"
  by (simp add: is_f64_def on_grid_def)

lemma is_f64_uminus [simp]: "is_f64 (- x) = is_f64 x"
  by (simp add: is_f64_def on_grid_def)

lemma is_f64I:
  assumes x: "x = of_int k * 2 powi u" and k: "\<bar>k\<bar> \<le> 2 ^ 53" and u: "-1074 \<le> u" "u \<le> 970"
  shows "is_f64 x"
proof (cases "k = 0")
  case False
  have ax: "\<bar>x\<bar> = of_int \<bar>k\<bar> * 2 powi u" using x by (simp add: abs_mult)
  have pos: "0 < \<bar>x\<bar>" using False by (simp add: ax)
  have p53: "(2::rat) powi (u + 53) = 2 ^ 53 * 2 powi u"
    by (simp add: power_int_add)
  have le: "\<bar>x\<bar> \<le> 2 powi (u + 53)"
    unfolding ax p53 using k by (intro mult_right_mono) (metis of_int_le_iff of_int_numeral of_int_power, simp)
  have big: "\<bar>x\<bar> < 2 ^ 1024"
  proof -
    have "(2::rat) powi (u + 53) < 2 powi 1024" using u by (simp only: powi_less_iff)
    then show ?thesis using le by simp
  qed
  have "on_grid f64_unit x"
  proof (cases "\<bar>x\<bar> = 2 powi (u + 53)")
    case True
    have "ilog2 \<bar>x\<bar> = u + 53" by (rule ilog2_unique) (simp_all add: True powi_less_iff)
    moreover have "of_int (sgn k) * of_int \<bar>k\<bar> = (of_int k :: rat)"
      by (metis of_int_mult sgn_mult_abs)
    then have "x = of_int (sgn k) * \<bar>x\<bar>" unfolding ax using x by (metis mult.assoc)
    then have "x = of_int (sgn k) * 2 powi (u + 53)" using True by simp
    ultimately show ?thesis
      using u by (intro on_gridI [where u = "u + 53"]) (auto simp: f64_unit_def)
  next
    case no: False
    then have "2 powi ilog2 \<bar>x\<bar> < (2::rat) powi (u + 53)"
      using ilog2_bounds(1) [OF pos] le by linarith
    then have "ilog2 \<bar>x\<bar> < u + 53" by (simp only: powi_less_iff)
    then show ?thesis using u by (intro on_gridI [OF x]) (auto simp: f64_unit_def)
  qed
  with big show ?thesis by (simp add: is_f64_def)
qed (simp add: x)

lemma is_f64_of_int: "\<bar>n\<bar> \<le> 2 ^ 53 \<Longrightarrow> is_f64 (of_int n)"
  by (rule is_f64I [where k = n and u = 0]) auto

lemma is_f64_one [simp]: "is_f64 1"
  using is_f64_of_int [of 1] by simp

text \<open>
  \<open>between l h v\<close>: the float is finite and lies in the interval. Rounding keeps the
  interval when its ends are floats.
\<close>

definition between :: "rat \<Rightarrow> rat \<Rightarrow> float64 \<Rightarrow> bool" where
  "between l h v \<longleftrightarrow> (\<exists>x. v = Fin x \<and> is_f64 x \<and> l \<le> x \<and> x \<le> h)"

lemma betweenE:
  assumes "between l h v"
  obtains x where "v = Fin x" "is_f64 x" "l \<le> x" "x \<le> h"
  using assms by (auto simp: between_def)

lemma between_Fin [simp]: "between l h (Fin x) \<longleftrightarrow> is_f64 x \<and> l \<le> x \<and> x \<le> h"
  by (auto simp: between_def)

lemma between_weaken: "between l h v \<Longrightarrow> l' \<le> l \<Longrightarrow> h \<le> h' \<Longrightarrow> between l' h' v"
  by (auto simp: between_def)

lemma round64_between:
  assumes "l \<le> x" "x \<le> h" "is_f64 l" "is_f64 h"
  shows "between l h (round64 x)"
proof -
  let ?y = "round_grid f64_unit x"
  have "l \<le> ?y" "?y \<le> h"
    using assms f64.round_ge [of l x] f64.round_le [of x h] by (auto simp: is_f64_def)
  moreover from this have "\<bar>?y\<bar> < 2 ^ 1024"
    using assms(3,4) by (auto simp: is_f64_def abs_less_iff)
  moreover have "on_grid f64_unit ?y" by (rule f64.on_grid_round)
  ultimately show ?thesis
    by (auto simp: round64_def Let_def is_f64_def between_def abs_less_iff)
qed

lemma round64_between_Fin:
  assumes "l \<le> x" "x \<le> h" "round64 l = Fin l'" "round64 h = Fin h'"
  shows "between l' h' (round64 x)"
proof -
  have l: "l' = round_grid f64_unit l" "- (2 ^ 1024) < l'"
    and h: "h' = round_grid f64_unit h" "h' < 2 ^ 1024"
    using assms(3,4) by (auto simp: round64_def Let_def split: if_splits)
  let ?y = "round_grid f64_unit x"
  have "l' \<le> ?y" "?y \<le> h'" unfolding l h using assms(1,2) by (auto intro: f64.round_mono)
  moreover from this have "\<bar>?y\<bar> < 2 ^ 1024" using l(2) h(2) by (auto simp: abs_less_iff)
  moreover have "on_grid f64_unit ?y" by (rule f64.on_grid_round)
  ultimately show ?thesis
    by (auto simp: round64_def Let_def is_f64_def between_def abs_less_iff)
qed

lemma fle_round64_mono: "x \<le> y \<Longrightarrow> fle (round64 x) (round64 y)"
  using f64.round_mono [of x y] by (auto simp: round64_def Let_def fle_def feq_def)

lemma fle_Fin [simp]: "fle (Fin x) (Fin y) \<longleftrightarrow> x \<le> y"
  by (auto simp: fle_def feq_def)

lemma fle_PInf [simp]: "fle (Fin x) PInf"
  by (simp add: fle_def)

lemma fadd_between:
  assumes "between a b u" "between c d v" "l \<le> a + c" "b + d \<le> h" "is_f64 l" "is_f64 h"
  shows "between l h (fadd u v)"
  using assms by (auto elim!: betweenE intro!: round64_between)

lemma fmul_between_nonneg:
  assumes "between a b u" "between c d v" "0 \<le> a" "0 \<le> c" "l \<le> a * c" "b * d \<le> h"
    "is_f64 l" "is_f64 h"
  shows "between l h (fmul u v)"
proof -
  obtain x y where v: "u = Fin x" "v = Fin y" and b: "a \<le> x" "x \<le> b" "c \<le> y" "y \<le> d"
    using assms(1,2) by (auto elim!: betweenE)
  have "a * c \<le> x * y" "x * y \<le> b * d"
    using b assms(3,4) by (auto intro!: mult_mono)
  then show ?thesis
    using assms by (auto simp: v intro!: round64_between)
qed

lemma f64_of_int_between:
  assumes "is_f64 l" "is_f64 h" "l \<le> of_int n" "of_int n \<le> h"
  shows "between l h (f64_of_int n)"
  unfolding f64_of_int_def using assms by (intro round64_between)

text \<open>The rounding error of a result in the unit interval.\<close>

lemma round64_error_unit:
  assumes "0 \<le> x" "x \<le> 1" "round64 x = Fin y"
  shows "\<bar>y - x\<bar> \<le> 1 / 2 ^ 53"
proof (cases "x = 0")
  case False
  have y: "y = round_grid f64_unit x"
    using assms(3) by (auto simp: round64_def Let_def split: if_splits)
  have "(2::rat) powi ilog2 x \<le> 2 powi 0"
    using ilog2_bounds(1) [of x] assms False by simp
  then have "ilog2 x \<le> 0" by (simp only: powi_le_iff)
  then have "f64_unit (ilog2 \<bar>x\<bar>) - 1 \<le> -53" using assms(1) by (simp add: f64_unit_def)
  then have "(2::rat) powi (f64_unit (ilog2 \<bar>x\<bar>) - 1) \<le> 2 powi (-53)"
    by (simp only: powi_le_iff)
  then show ?thesis
    using round_grid_error [OF False, of f64_unit] y by (simp add: power_int_minus_divide)
qed (use assms in \<open>simp add: round64_exact\<close>)

text \<open>
  A certificate for one concrete rounding: the binade, the unit and the integer are given,
  and only inequalities between numerals remain.
\<close>

lemma round64_eval:
  assumes "2 powi e \<le> x" "x < 2 powi (e + 1)" "-1022 \<le> e" "e < 1023"
    and "\<bar>x - of_int k * 2 powi (e - 52)\<bar> < 2 powi (e - 53) \<or>
      \<bar>x - of_int k * 2 powi (e - 52)\<bar> = 2 powi (e - 53) \<and> even k"
  shows "round64 x = Fin (of_int k * 2 powi (e - 52))"
proof -
  let ?u = "e - 52"
  have x0: "0 < x" using assms(1) zero_less_power_int [of "2::rat" e] by linarith
  have e: "ilog2 x = e" by (rule ilog2_unique [OF assms(1,2)])
  have u: "f64_unit e = ?u" using assms(3) by (simp add: f64_unit_def)
  let ?q = "x / 2 powi ?u"
  have half: "(2::rat) powi (e - 53) = 1/2 * 2 powi ?u" by (simp add: power_int_diff)
  have "x - of_int k * 2 powi ?u = (?q - of_int k) * 2 powi ?u"
    by (simp add: left_diff_distrib)
  then have eq: "\<bar>x - of_int k * 2 powi ?u\<bar> = \<bar>?q - of_int k\<bar> * 2 powi ?u"
    by (simp add: abs_mult)
  have p: "(0::rat) < 2 powi ?u" by simp
  have k: "rne ?q = k"
  proof (rule rne_eqI)
    show "\<bar>?q - of_int k\<bar> < 1/2 \<or> \<bar>?q - of_int k\<bar> = 1/2 \<and> even k"
      using assms(5) p unfolding eq half mult_less_cancel_right mult_cancel_right by auto
  qed
  have r: "round_grid f64_unit x = of_int k * 2 powi ?u"
    using x0 by (simp add: round_grid_def e u round_unit_def k)
  have "round_grid f64_unit x \<le> round_grid f64_unit (2 powi (e + 1))"
    using assms(2) by (intro f64.round_mono) simp
  also have "\<dots> = 2 powi (e + 1)"
    using is_f64I [of "2 powi (e + 1)" 1 "e + 1"] assms(3,4)
      on_gridI [of "2 powi (e + 1)" 1 "e + 1" f64_unit] ilog2_unique [of "e + 1" "2 powi (e + 1)"]
    by (simp add: on_grid_def f64_unit_def powi_less_iff)
  also have "\<dots> < 2 powi 1024" using assms(4) by (simp only: powi_less_iff)
  finally have "round_grid f64_unit x < 2 ^ 1024" by simp
  moreover have "0 \<le> round_grid f64_unit x" using x0 by (intro round_grid_nonneg) simp
  then have "- (2 ^ 1024) < round_grid f64_unit x" by (rule less_le_trans [rotated]) simp
  ultimately show ?thesis by (simp add: round64_def Let_def r not_le)
qed

end
