(* ===== verification/Codec.thy ===== *)
theory Codec
  imports Json Float64
begin

text \<open>
  Decoding JSON values into Go values and printing Go values as JSON: decimal numbers,
  base64 for \<^verbatim>\<open>[]byte\<close>, the lookup of struct fields, and the compact printer.
\<close>

section \<open>Bytes and strings\<close>

definition string_of_bytes :: "bytes \<Rightarrow> string" where
  "string_of_bytes bs = map (\<lambda>b. char_of (unat b)) bs"

definition bytes_of_string :: "string \<Rightarrow> bytes" where
  "bytes_of_string s = map (\<lambda>c. word_of_nat (code c)) s"

lemma string_of_bytes_of_string [simp]: "string_of_bytes (bytes_of_string s) = s"
proof -
  have "unat (word_of_nat (code c) :: byte) = code c" for c
    by (simp add: unat_of_nat)
  then show ?thesis by (induction s) (simp_all add: string_of_bytes_def bytes_of_string_def)
qed

lemma bytes_of_string_of_bytes [simp]: "bytes_of_string (string_of_bytes bs) = bs"
proof -
  have "word_of_nat (code (char_of (unat b))) = b" for b :: byte
    using unsigned_less [of b, where ?'a = nat] by simp
  then show ?thesis by (induction bs) (simp_all add: string_of_bytes_def bytes_of_string_def)
qed

text \<open>A \<^verbatim>\<open>[]byte\<close> that JSON carries: nil is written \<^verbatim>\<open>null\<close>, an empty slice as an empty string.\<close>

type_synonym byte_slice = "bytes option"

definition slice_bytes :: "byte_slice \<Rightarrow> bytes" where
  "slice_bytes b = (case b of None \<Rightarrow> [] | Some bs \<Rightarrow> bs)"

section \<open>Decimal numbers\<close>

definition digit_char :: "int \<Rightarrow> char" where
  "digit_char d = chr (nat d + 48)"

function decimal :: "int \<Rightarrow> string" where
  "decimal n = (if n < 0 then CHR ''-'' # decimal (- n)
     else if n < 10 then [digit_char n] else decimal (n div 10) @ [digit_char (n mod 10)])"
  by pat_completeness auto
termination
  by (relation "measure (\<lambda>n. if n < 0 then Suc (nat (- n)) else nat n)") auto

declare decimal.simps [simp del]

definition digits_value :: "string \<Rightarrow> int" where
  "digits_value s = foldl (\<lambda>n c. 10 * n + int (code c - 48)) 0 s"

text \<open>\<^verbatim>\<open>strconv.ParseUint\<close> and \<^verbatim>\<open>ParseInt\<close> in base 10 and 64 bits.\<close>

definition parse_uint64 :: "string \<Rightarrow> uint64 option" where
  "parse_uint64 s =
     (if s \<noteq> [] \<and> list_all is_digit s \<and> digits_value s < 2 ^ 64 then Some (word_of_int (digits_value s)) else None)"

definition parse_int64 :: "string \<Rightarrow> goint option" where
  "parse_int64 s =
     (case s of
        c # t \<Rightarrow> if c = CHR ''-''
          then (if t \<noteq> [] \<and> list_all is_digit t \<and> digits_value t \<le> 2 ^ 63 then Some (word_of_int (- digits_value t)) else None)
          else (if list_all is_digit s \<and> digits_value s < 2 ^ 63 then Some (word_of_int (digits_value s)) else None)
      | [] \<Rightarrow> None)"

section \<open>Base64\<close>

definition b64_char :: "nat \<Rightarrow> char" where
  "b64_char i = chr (if i < 26 then i + 65 else if i < 52 then i + 71 else if i < 62 then i - 4
     else if i = 62 then 43 else 47)"

definition b64_val :: "char \<Rightarrow> nat option" where
  "b64_val c =
     (if 65 \<le> code c \<and> code c \<le> 90 then Some (code c - 65)
      else if 97 \<le> code c \<and> code c \<le> 122 then Some (code c - 71)
      else if 48 \<le> code c \<and> code c \<le> 57 then Some (code c + 4)
      else if code c = 43 then Some 62 else if code c = 47 then Some 63 else None)"

fun b64_encode :: "bytes \<Rightarrow> string" where
  "b64_encode [] = []"
| "b64_encode [a] = [b64_char (unat a div 4), b64_char (unat a mod 4 * 16), CHR ''='', CHR ''='']"
| "b64_encode [a, b] =
     [b64_char (unat a div 4), b64_char (unat a mod 4 * 16 + unat b div 16), b64_char (unat b mod 16 * 4), CHR ''='']"
| "b64_encode (a # b # c # bs) =
     b64_char (unat a div 4) # b64_char (unat a mod 4 * 16 + unat b div 16) #
     b64_char (unat b mod 16 * 4 + unat c div 64) # b64_char (unat c mod 64) # b64_encode bs"

text \<open>Line breaks are skipped; a padded group ends the input.\<close>

fun b64_groups :: "string \<Rightarrow> bytes option" where
  "b64_groups [] = Some []"
| "b64_groups (p # q # r # s # t) =
     (case (b64_val p, b64_val q) of
        (Some i, Some j) \<Rightarrow>
          (if r = CHR ''='' then
             (if s = CHR ''='' \<and> t = [] then Some [word_of_nat (i * 4 + j div 16)] else None)
           else (case b64_val r of
               None \<Rightarrow> None
             | Some k \<Rightarrow>
                 if s = CHR ''='' then
                   (if t = [] then Some [word_of_nat (i * 4 + j div 16), word_of_nat (j mod 16 * 16 + k div 4)] else None)
                 else (case (b64_val s, b64_groups t) of
                     (Some l, Some bs) \<Rightarrow>
                       Some (word_of_nat (i * 4 + j div 16) # word_of_nat (j mod 16 * 16 + k div 4) #
                         word_of_nat (k mod 4 * 64 + l) # bs)
                   | _ \<Rightarrow> None)))
      | _ \<Rightarrow> None)"
| "b64_groups _ = None"

definition b64_decode :: "string \<Rightarrow> bytes option" where
  "b64_decode s = b64_groups (filter (\<lambda>c. code c \<noteq> 10 \<and> code c \<noteq> 13) s)"

lemma code_chr [simp]: "n < 256 \<Longrightarrow> code (chr n) = n"
  by (simp add: chr_def)

lemma code_eq_iff: "c = d \<longleftrightarrow> code c = code d"
  by simp

lemma b64_char_facts:
  assumes "i < 64"
  shows "b64_val (b64_char i) = Some i \<and> b64_char i \<noteq> CHR ''='' \<and> code (b64_char i) \<noteq> 10 \<and> code (b64_char i) \<noteq> 13"
proof -
  have "code (b64_char i) = (if i < 26 then i + 65 else if i < 52 then i + 71 else if i < 62 then i - 4
     else if i = 62 then 43 else 47)"
    using assms by (simp add: b64_char_def)
  then show ?thesis using assms unfolding b64_val_def code_eq_iff [of _ "CHR ''=''"] by auto
qed

lemma unat_byte: "unat (a :: byte) < 256"
  using unsigned_less [of a, where ?'a = nat] by simp

lemma b64_bounds:
  "unat (a :: byte) div 4 < 64" "unat (a :: byte) mod 4 * 16 < 64" "unat (a :: byte) mod 4 * 16 + unat (b :: byte) div 16 < 64"
  "unat (b :: byte) mod 16 * 4 < 64" "unat (b :: byte) mod 16 * 4 + unat (c :: byte) div 64 < 64" "unat (c :: byte) mod 64 < 64"
  using unat_byte [of a] unat_byte [of b] unat_byte [of c] by linarith+

lemma b64_div:
  "unat (b :: byte) div 16 div 16 = 0" "unat (b :: byte) div 16 mod 16 = unat b div 16"
  "unat (c :: byte) div 64 div 4 = 0" "unat (c :: byte) div 64 mod 4 = unat c div 64"
  using unat_byte [of b] unat_byte [of c] by simp_all

lemma b64_encode_chars: "c \<in> set (b64_encode bs) \<Longrightarrow> code c \<noteq> 10 \<and> code c \<noteq> 13"
  by (induction bs rule: b64_encode.induct) (auto simp: b64_char_facts b64_bounds)

lemma b64_groups_encode: "b64_groups (b64_encode bs) = Some bs"
  by (induction bs rule: b64_encode.induct)
    (simp_all add: b64_char_facts b64_bounds b64_div del: of_nat_add of_nat_mult)

lemma b64_roundtrip [simp]: "b64_decode (b64_encode bs) = Some bs"
proof -
  have "filter (\<lambda>c. code c \<noteq> 10 \<and> code c \<noteq> 13) (b64_encode bs) = b64_encode bs"
    using b64_encode_chars by (intro filter_True) blast
  then show ?thesis by (simp add: b64_decode_def b64_groups_encode)
qed

section \<open>Decimal round trip\<close>

lemma is_digit_char [simp]: "0 \<le> d \<Longrightarrow> d < 10 \<Longrightarrow> is_digit (digit_char d)"
  by (simp add: is_digit_def digit_char_def)

lemma code_digit_char: "0 \<le> d \<Longrightarrow> d < 10 \<Longrightarrow> int (code (digit_char d) - 48) = d"
  by (simp add: digit_char_def)

lemma digits_value_snoc [simp]: "digits_value (s @ [c]) = 10 * digits_value s + int (code c - 48)"
  by (simp add: digits_value_def)

lemma decimal_nonneg:
  assumes "0 \<le> n"
  shows "list_all is_digit (decimal n) \<and> decimal n \<noteq> [] \<and> digits_value (decimal n) = n \<and>
    (0 < n \<longrightarrow> hd (decimal n) \<noteq> CHR ''0'')"
  using assms
proof (induction n rule: decimal.induct)
  case (1 n)
  show ?case
  proof (cases "n < 10")
    case True
    with 1(3) have "decimal n = [digit_char n]" by (simp add: decimal.simps)
    moreover have "0 < n \<Longrightarrow> digit_char n \<noteq> CHR ''0''"
      using True by (simp add: digit_char_def code_eq_iff)
    ultimately show ?thesis
      using True 1(3) by (simp add: code_digit_char digits_value_def)
  next
    case False
    with 1(3) have d: "decimal n = decimal (n div 10) @ [digit_char (n mod 10)]"
      by (subst decimal.simps) simp
    have "list_all is_digit (decimal (n div 10)) \<and> decimal (n div 10) \<noteq> [] \<and>
        digits_value (decimal (n div 10)) = n div 10 \<and> (0 < n div 10 \<longrightarrow> hd (decimal (n div 10)) \<noteq> CHR ''0'')"
      using False 1(2,3) by simp
    then show ?thesis
      using False 1(3) by (simp add: d code_digit_char)
  qed
qed

lemma decimal_neg: "n < 0 \<Longrightarrow> decimal n = CHR ''-'' # decimal (- n)"
  by (subst decimal.simps) simp

lemma parse_uint64_decimal [simp]: "parse_uint64 (decimal (uint w)) = Some w"
  using decimal_nonneg [of "uint w"] uint_bounded [of w] by (simp add: parse_uint64_def)

lemma parse_int64_decimal [simp]: "parse_int64 (decimal (sint w)) = Some w"
proof -
  have r: "- (2 ^ 63) \<le> sint w" "sint w < 2 ^ 63"
    using sint_ge [of w] sint_lt [of w] by simp_all
  show ?thesis
  proof (cases "sint w < 0")
    case True
    then show ?thesis
      using decimal_nonneg [of "- sint w"] r by (simp add: parse_int64_def decimal_neg)
  next
    case False
    then have d: "list_all is_digit (decimal (sint w))" "decimal (sint w) \<noteq> []" "digits_value (decimal (sint w)) = sint w"
      using decimal_nonneg [of "sint w"] by simp_all
    then obtain c t where ct: "decimal (sint w) = c # t" by (cases "decimal (sint w)") auto
    then have "c \<noteq> CHR ''-''" using d(1) by (auto simp: is_digit_def)
    then show ?thesis using d r ct by (simp add: parse_int64_def split del: if_split)
  qed
qed

section \<open>Struct fields\<close>

text \<open>
  Key matching up to case: ASCII letters, and the two non-ASCII characters that fold to
  an ASCII letter (the Kelvin sign and the long s).
\<close>

fun fold_name :: "string \<Rightarrow> string" where
  "fold_name [] = []"
| "fold_name (a # s) =
     (if 97 \<le> code a \<and> code a \<le> 122 then chr (code a - 32) # fold_name s
      else if code a = 226 \<and> take 2 s = [chr 132, chr 170] then CHR ''K'' # fold_name (drop 2 s)
      else if code a = 197 \<and> take 1 s = [chr 191] then CHR ''S'' # fold_name (drop 1 s)
      else a # fold_name s)"

declare fold_name.simps [simp del]

text \<open>
  One field of a struct: the value it ends up with after all the keys of the object, or
  \<open>None\<close> when some key gives it a value of the wrong kind. A decoder takes the value the
  field holds: \<^verbatim>\<open>null\<close> leaves it as it is, except that it makes a slice empty. A \<^verbatim>\<open>[]byte\<close>
  is read from base64 or from an array of numbers.
\<close>

definition struct_field :: "('a \<Rightarrow> json \<Rightarrow> 'a option) \<Rightarrow> string \<Rightarrow> 'a \<Rightarrow> (string \<times> json) list \<Rightarrow> 'a option" where
  "struct_field dec name zero kvs =
     foldl (\<lambda>acc (k, v). if fold_name k = fold_name name
        then (case acc of None \<Rightarrow> None | Some old \<Rightarrow> dec old v) else acc) (Some zero) kvs"

definition dec_uint64 :: "uint64 \<Rightarrow> json \<Rightarrow> uint64 option" where
  "dec_uint64 old v = (case v of JNum s \<Rightarrow> parse_uint64 s | JNull \<Rightarrow> Some old | _ \<Rightarrow> None)"

definition dec_int :: "goint \<Rightarrow> json \<Rightarrow> goint option" where
  "dec_int old v = (case v of JNum s \<Rightarrow> parse_int64 s | JNull \<Rightarrow> Some old | _ \<Rightarrow> None)"

definition dec_string :: "string \<Rightarrow> json \<Rightarrow> string option" where
  "dec_string old v = (case v of JStr s \<Rightarrow> Some s | JNull \<Rightarrow> Some old | _ \<Rightarrow> None)"

definition dec_bool :: "bool \<Rightarrow> json \<Rightarrow> bool option" where
  "dec_bool old v = (case v of JBool b \<Rightarrow> Some b | JNull \<Rightarrow> Some old | _ \<Rightarrow> None)"

fun dec_byte :: "json \<Rightarrow> byte option" where
  "dec_byte JNull = Some 0"
| "dec_byte (JNum s) = (if s \<noteq> [] \<and> list_all is_digit s \<and> digits_value s < 256 then Some (word_of_int (digits_value s)) else None)"
| "dec_byte _ = None"

fun dec_list :: "('b \<Rightarrow> 'a option) \<Rightarrow> 'b list \<Rightarrow> 'a list option" where
  "dec_list dec [] = Some []"
| "dec_list dec (v # vs) =
     (case (dec v, dec_list dec vs) of (Some x, Some xs) \<Rightarrow> Some (x # xs) | _ \<Rightarrow> None)"

definition dec_bytes :: "byte_slice \<Rightarrow> json \<Rightarrow> byte_slice option" where
  "dec_bytes old v = (case v of JStr s \<Rightarrow> map_option Some (b64_decode s) | JNull \<Rightarrow> Some None
     | JArr vs \<Rightarrow> map_option Some (dec_list dec_byte vs) | _ \<Rightarrow> None)"

text \<open>
  \<^verbatim>\<open>strconv.ParseFloat\<close> on a number literal: the nearest float64 of the exact decimal value;
  a value beyond the range is an error.
\<close>

definition exponent_value :: "string \<Rightarrow> int" where
  "exponent_value s = (case s of [] \<Rightarrow> 0
     | c # t \<Rightarrow> if c = CHR ''-'' then - digits_value t else if c = CHR ''+'' then digits_value t else digits_value s)"

definition literal_value :: "string \<Rightarrow> rat" where
  "literal_value s =
     (let neg = (s \<noteq> [] \<and> hd s = CHR ''-'');
          t = (if neg then tl s else s);
          ip = takeWhile is_digit t;
          t1 = dropWhile is_digit t;
          dot = (t1 \<noteq> [] \<and> hd t1 = CHR ''.'');
          fp = (if dot then takeWhile is_digit (tl t1) else []);
          t2 = (if dot then dropWhile is_digit (tl t1) else t1);
          e = (if t2 = [] then 0 else exponent_value (tl t2));
          v = of_int (digits_value (ip @ fp)) * 10 powi (e - int (length fp))
      in if neg then - v else v)"

definition dec_float64 :: "float64 \<Rightarrow> json \<Rightarrow> float64 option" where
  "dec_float64 old v = (case v of
     JNum s \<Rightarrow> (case round64 (literal_value s) of Fin q \<Rightarrow> Some (Fin q) | _ \<Rightarrow> None)
   | JNull \<Rightarrow> Some old | _ \<Rightarrow> None)"

text \<open>The object a struct is decoded from; the top-level \<^verbatim>\<open>null\<close> is an object without keys.\<close>

definition object_of :: "json \<Rightarrow> (string \<times> json) list option" where
  "object_of v = (case v of JObj kvs \<Rightarrow> Some kvs | JNull \<Rightarrow> Some [] | _ \<Rightarrow> None)"

section \<open>Printing\<close>

definition hex_digit :: "nat \<Rightarrow> char" where
  "hex_digit d = (if d < 10 then chr (d + 48) else chr (d + 87))"

definition quote_ascii :: "char \<Rightarrow> string" where
  "quote_ascii c =
     (if code c = 34 \<or> code c = 92 then [chr 92, c]
      else if code c = 8 then [chr 92, CHR ''b''] else if code c = 12 then [chr 92, CHR ''f'']
      else if code c = 10 then [chr 92, CHR ''n''] else if code c = 13 then [chr 92, CHR ''r'']
      else if code c = 9 then [chr 92, CHR ''t'']
      else if code c < 32 \<or> code c = 60 \<or> code c = 62 \<or> code c = 38
      then [chr 92, CHR ''u'', CHR ''0'', CHR ''0'', hex_digit (code c div 16), hex_digit (code c mod 16)]
      else [c])"

function quote_body :: "string \<Rightarrow> string" where
  "quote_body s = (case s of
     [] \<Rightarrow> []
   | c # t \<Rightarrow>
       if code c < 128 then quote_ascii c @ quote_body t
       else if utf8_width s = 0 then chr 92 # ''ufffd'' @ quote_body t
       else if take 3 s = [chr 226, chr 128, chr 168] then chr 92 # ''u2028'' @ quote_body (drop 3 s)
       else if take 3 s = [chr 226, chr 128, chr 169] then chr 92 # ''u2029'' @ quote_body (drop 3 s)
       else take (utf8_width s) s @ quote_body (drop (utf8_width s) s))"
  by pat_completeness auto
termination
  by (relation "measure length") auto

declare quote_body.simps [simp del]

definition quote :: "string \<Rightarrow> string" where
  "quote s = chr 34 # quote_body s @ [chr 34]"

fun commas :: "string list \<Rightarrow> string" where
  "commas [] = []"
| "commas [x] = x"
| "commas (x # xs) = x @ CHR '','' # commas xs"

fun json_print :: "json \<Rightarrow> string" where
  "json_print JNull = ''null''"
| "json_print (JBool b) = (if b then ''true'' else ''false'')"
| "json_print (JNum s) = s"
| "json_print (JStr s) = quote s"
| "json_print (JArr vs) = CHR ''['' # commas (map json_print vs) @ '']''"
| "json_print (JObj kvs) = CHR ''{'' # commas (map (\<lambda>(k, v). quote k @ CHR '':'' # json_print v) kvs) @ ''}''"

definition json_uint64 :: "uint64 \<Rightarrow> json" where
  "json_uint64 w = JNum (decimal (uint w))"

definition json_int :: "goint \<Rightarrow> json" where
  "json_int w = JNum (decimal (sint w))"

definition json_bytes :: "byte_slice \<Rightarrow> json" where
  "json_bytes b = (case b of None \<Rightarrow> JNull | Some bs \<Rightarrow> JStr (b64_encode bs))"


end
