(* ===== verification/JsonPrint.thy ===== *)
theory JsonPrint
  imports Codec
begin

text \<open>
  The scanner of theory Json reads every printed value back: up to the replacement of bytes
  that are not UTF-8 for any value, unchanged for a value of valid strings. It never returns
  a value nested deeper than its limit.
\<close>

section \<open>Valid UTF-8\<close>

function valid_utf8 :: "string \<Rightarrow> bool" where
  "valid_utf8 s = (if s = [] then True else if utf8_width s = 0 then False else valid_utf8 (drop (utf8_width s) s))"
  by pat_completeness auto
termination
  by (relation "measure length") auto

declare valid_utf8.simps [simp del]

lemma valid_utf8_Nil [simp]: "valid_utf8 []"
  by (simp add: valid_utf8.simps)

lemma utf8_width_ascii: "code c < 128 \<Longrightarrow> utf8_width (c # s) = 1"
  by simp

lemma valid_utf8_ascii: "list_all (\<lambda>c. code c < 128) s \<Longrightarrow> valid_utf8 s"
  by (induction s) (simp_all add: valid_utf8.simps [of "_ # _"])

text \<open>The sequence at the head decides its width, and all its bytes are above ASCII.\<close>

lemma utf8_width_take:
  assumes "0 < utf8_width s"
  shows "utf8_width (take (utf8_width s) s @ r) = utf8_width s"
  using assms by (cases s rule: utf8_width.cases) (auto split: list.splits if_splits)

lemma utf8_width_le: "utf8_width s \<le> length s"
  by (cases s rule: utf8_width.cases) (auto split: list.splits if_splits)

lemma utf8_width_high:
  assumes "\<not> code c < 128" "x \<in> set (take (utf8_width (c # s)) (c # s))"
  shows "128 \<le> code x"
  using assms by (auto simp: cont_def split: list.splits if_splits)

section \<open>Printed strings are read back\<close>

lemma unquote_Nil [simp]: "unquote [] = []"
  by (simp add: unquote.simps)

lemma unquote_ascii: "code c < 128 \<Longrightarrow> code c \<noteq> 92 \<Longrightarrow> unquote (c # s) = c # unquote s"
  by (subst unquote.simps) simp

lemma unquote_escape: "code e \<noteq> 117 \<Longrightarrow> unquote (chr 92 # e # s) = escape_value e @ unquote s"
  by (subst unquote.simps) simp

lemma unquote_u:
  assumes "hex_val a = Some p" "hex_val b = Some q" "hex_val c = Some r" "hex_val d = Some s"
    "((p * 16 + q) * 16 + r) * 16 + s < 55296"
  shows "unquote (chr 92 # CHR ''u'' # a # b # c # d # t) =
    encode_rune (((p * 16 + q) * 16 + r) * 16 + s) @ unquote t"
  using assms by (subst unquote.simps) simp

lemma unquote_multi:
  assumes "\<not> code c < 128" "0 < utf8_width (c # s)"
  shows "unquote (c # s) = take (utf8_width (c # s)) (c # s) @ unquote (drop (utf8_width (c # s)) (c # s))"
  using assms by (subst unquote.simps) (simp del: utf8_width.simps)

lemma hex_val_digit [simp]: "d < 16 \<Longrightarrow> hex_val (hex_digit d) = Some d"
  by (simp add: hex_val_def hex_digit_def is_digit_def)

lemma hex_val_0: "hex_val (CHR ''0'') = Some 0"
  by (simp add: hex_val_def is_digit_def)

lemma encode_rune_ascii: "r < 128 \<Longrightarrow> encode_rune r = [chr r]"
  by (simp add: encode_rune_def)

lemma chr_code [simp]: "chr (code c) = c"
  by (simp add: chr_def)

lemma escape_back: "code e = n \<Longrightarrow> [chr n] = [e]"
  by auto

lemma unquote_quote_ascii:
  assumes "code c < 128"
  shows "unquote (quote_ascii c @ s) = c # unquote s"
proof -
  have u: "unquote (chr 92 # CHR ''u'' # CHR ''0'' # CHR ''0'' # hex_digit (code c div 16) # hex_digit (code c mod 16) # s) = c # unquote s"
    using unquote_u [OF hex_val_0 hex_val_0, of "hex_digit (code c div 16)" "code c div 16" "hex_digit (code c mod 16)" "code c mod 16" s]
      assms by (simp add: encode_rune_ascii)
  show ?thesis
    using assms u by (auto simp: quote_ascii_def unquote_ascii unquote_escape escape_value_def code_eq_iff)
qed

lemma unquote_verbatim:
  assumes "\<not> code c < 128" "0 < utf8_width (c # s)"
  shows "unquote (take (utf8_width (c # s)) (c # s) @ r) = take (utf8_width (c # s)) (c # s) @ unquote r"
proof -
  define w where "w = utf8_width (c # s)"
  have w: "0 < w" "w \<le> length (c # s)" using assms(2) utf8_width_le [of "c # s"] by (simp_all add: w_def del: utf8_width.simps)
  obtain t where t: "take w (c # s) @ r = c # t" using w(1) by (cases w) auto
  have "utf8_width (c # t) = w"
    using utf8_width_take [OF assms(2), of r] t by (simp add: w_def del: utf8_width.simps)
  then have "unquote (c # t) = take w (c # t) @ unquote (drop w (c # t))"
    using unquote_multi [OF assms(1), of t] w(1) by (simp del: utf8_width.simps)
  then show ?thesis using w(2) unfolding w_def [symmetric] by (simp add: t [symmetric])
qed

lemma quote_body_cases:
  obtains (Nil) "s = []" "quote_body s = []"
  | (ascii) c t where "s = c # t" "code c < 128" "quote_body s = quote_ascii c @ quote_body t"
  | (bad) c t where "s = c # t" "\<not> code c < 128" "utf8_width s = 0" "quote_body s = chr 92 # ''ufffd'' @ quote_body t"
  | (sep) d where "take 3 s = [chr 226, chr 128, chr (168 + d)]" "d < 2" "utf8_width s = 3"
      "quote_body s = chr 92 # ''u202'' @ [hex_digit (8 + d)] @ quote_body (drop 3 s)"
  | (multi) c t where "s = c # t" "\<not> code c < 128" "0 < utf8_width s"
      "quote_body s = take (utf8_width s) s @ quote_body (drop (utf8_width s) s)"
proof (cases s)
  case Nil
  then show ?thesis using that(1) by (simp add: quote_body.simps)
next
  case (Cons c t)
  have sep: thesis if h: "take 3 s = [chr 226, chr 128, chr (168 + d)]" "d < 2"
      "quote_body s = chr 92 # ''u202'' @ [hex_digit (8 + d)] @ quote_body (drop 3 s)" for d
  proof -
    have "utf8_width (take 3 s @ drop 3 s) = 3"
      unfolding h(1) using h(2) by (simp add: cont_def)
    then have "utf8_width s = 3" by (simp only: append_take_drop_id)
    with h show ?thesis by (intro sep)
  qed
  have qb: "quote_body s = (if code c < 128 then quote_ascii c @ quote_body t
       else if utf8_width s = 0 then chr 92 # ''ufffd'' @ quote_body t
       else if take 3 s = [chr 226, chr 128, chr 168] then chr 92 # ''u2028'' @ quote_body (drop 3 s)
       else if take 3 s = [chr 226, chr 128, chr 169] then chr 92 # ''u2029'' @ quote_body (drop 3 s)
       else take (utf8_width s) s @ quote_body (drop (utf8_width s) s))"
    unfolding Cons by (subst quote_body.simps) (simp only: list.case)
  have hd: "hex_digit 8 = CHR ''8''" "hex_digit 9 = CHR ''9''" by (simp_all add: hex_digit_def code_eq_iff)
  consider "code c < 128" | "\<not> code c < 128" "utf8_width s = 0"
    | "\<not> code c < 128" "utf8_width s \<noteq> 0" "take 3 s = [chr 226, chr 128, chr 168]"
    | "\<not> code c < 128" "utf8_width s \<noteq> 0" "take 3 s = [chr 226, chr 128, chr 169]" "take 3 s \<noteq> [chr 226, chr 128, chr 168]"
    | "\<not> code c < 128" "utf8_width s \<noteq> 0" "take 3 s \<noteq> [chr 226, chr 128, chr 168]" "take 3 s \<noteq> [chr 226, chr 128, chr 169]"
    by blast
  then show ?thesis
  proof cases
    case 1
    then show ?thesis using that(2) [OF Cons] qb by simp
  next
    case 2
    then show ?thesis using that(3) [OF Cons] qb by simp
  next
    case 3
    then have "quote_body s = chr 92 # ''u202'' @ [hex_digit 8] @ quote_body (drop 3 s)"
      unfolding qb hd by simp
    then show ?thesis using sep [of 0] 3 by simp
  next
    case 4
    then have "quote_body s = chr 92 # ''u202'' @ [hex_digit 9] @ quote_body (drop 3 s)"
      unfolding qb hd by simp
    then show ?thesis using sep [of 1] 4 by simp
  next
    case 5
    then show ?thesis using that(5) [OF Cons] qb by simp
  qed
qed

lemma unquote_quote_body: "valid_utf8 s \<Longrightarrow> unquote (quote_body s) = s"
proof (induction s rule: valid_utf8.induct)
  case (1 s)
  show ?case
  proof (cases s rule: quote_body_cases)
    case Nil
    then show ?thesis by simp
  next
    case (ascii c t)
    then have "valid_utf8 t" "utf8_width s = 1" using 1(2) valid_utf8.simps [of "c # t"] by simp_all
    then show ?thesis using ascii 1(1) by (simp add: unquote_quote_ascii)
  next
    case (bad c t)
    then show ?thesis using 1(2) valid_utf8.simps [of "c # t"] by (simp del: utf8_width.simps)
  next
    case (sep d)
    then have "valid_utf8 (drop 3 s)" "s \<noteq> []" using 1(2) valid_utf8.simps [of s] by (auto split: if_splits)
    then have ih: "unquote (quote_body (drop 3 s)) = drop 3 s" using 1(1) sep by simp
    have e: "encode_rune (8232 + d) = take 3 s"
      using sep(1,2) by (cases d) (simp_all add: encode_rune_def)
    have "unquote (quote_body s) = encode_rune (8232 + d) @ drop 3 s"
      unfolding sep(4)
      using unquote_u [of "CHR ''2''" 2 "CHR ''0''" 0 "CHR ''2''" 2 "hex_digit (8 + d)" "8 + d"] sep(2) ih
      by (simp add: hex_val_def [of "CHR ''2''"] hex_val_0 is_digit_def)
    then show ?thesis by (simp add: e)
  next
    case (multi c t)
    then have "valid_utf8 (drop (utf8_width s) s)" using 1(2) valid_utf8.simps [of s] by (simp split: if_splits)
    then show ?thesis
      using multi 1(1) unquote_verbatim [of c t] by (simp del: utf8_width.simps)
  qed
qed

lemma scan_in_string:
  "list_all (\<lambda>x. 32 \<le> code x \<and> code x \<noteq> 34 \<and> code x \<noteq> 92) u \<Longrightarrow>
    foldl scan_step (st, InString acc) u = (st, InString (rev u @ acc))"
  by (induction u arbitrary: acc) auto

lemma scan_escape_u:
  assumes "list_all (\<lambda>x. hex_val x \<noteq> None) [a, b, c, d]"
  shows "foldl scan_step (st, InString acc) [chr 92, CHR ''u'', a, b, c, d] = (st, InString (rev [chr 92, CHR ''u'', a, b, c, d] @ acc))"
  using assms by (auto simp: is_escape_def)

lemma scan_quote_ascii:
  assumes "code c < 128"
  shows "foldl scan_step (st, InString acc) (quote_ascii c) = (st, InString (rev (quote_ascii c) @ acc))"
proof -
  have "code c div 16 < 16" using assms by linarith
  then show ?thesis
    using assms by (auto simp: quote_ascii_def is_escape_def hex_val_0)
qed

lemma scan_quote_body:
  "foldl scan_step (st, InString acc) (quote_body s) = (st, InString (rev (quote_body s) @ acc))"
proof (induction "length s" arbitrary: s acc rule: less_induct)
  case less
  show ?case
  proof (cases s rule: quote_body_cases)
    case Nil
    then show ?thesis by simp
  next
    case (ascii c t)
    then show ?thesis using less [of t] by (simp add: scan_quote_ascii)
  next
    case (bad c t)
    have "foldl scan_step (st, InString acc) (chr 92 # ''ufffd'') = (st, InString (rev (chr 92 # ''ufffd'') @ acc))"
      by (intro scan_escape_u) (simp add: hex_val_def is_digit_def)
    then show ?thesis using bad less [of t] by simp
  next
    case (sep d)
    have "foldl scan_step (st, InString acc) (chr 92 # ''u202'' @ [hex_digit (8 + d)]) =
        (st, InString (rev (chr 92 # ''u202'' @ [hex_digit (8 + d)]) @ acc))"
      using sep(2) scan_escape_u [of "CHR ''2''" "CHR ''0''" "CHR ''2''" "hex_digit (8 + d)"]
      by (simp add: hex_val_0 hex_val_def [of "CHR ''2''"] is_digit_def)
    moreover have "length (drop 3 s) < length s" using sep(1) by (cases s) auto
    ultimately show ?thesis using sep(4) less [of "drop 3 s"] by simp
  next
    case (multi c t)
    have "list_all (\<lambda>x. 32 \<le> code x \<and> code x \<noteq> 34 \<and> code x \<noteq> 92) (take (utf8_width s) s)"
      using utf8_width_high [of c _ t] multi(1,2) by (fastforce simp: list_all_iff simp del: utf8_width.simps)
    then have "foldl scan_step (st, InString acc) (take (utf8_width s) s) = (st, InString (rev (take (utf8_width s) s) @ acc))"
      by (rule scan_in_string)
    moreover have "length (drop (utf8_width s) s) < length s" using multi(1,3) by simp
    ultimately show ?thesis using multi(4) less [of "drop (utf8_width s) s"] by simp
  qed
qed

text \<open>The string a reader gets: every byte that is not UTF-8 has become the replacement character.\<close>

definition valid_text :: "string \<Rightarrow> string" where
  "valid_text s = unquote (quote_body s)"

lemma valid_text_id: "valid_utf8 s \<Longrightarrow> valid_text s = s"
  by (simp add: valid_text_def unquote_quote_body)

lemma scan_quote: "foldl scan_step (st, InString []) (quote_body s @ [chr 34]) = close_string (valid_text s) st"
  by (simp add: scan_quote_body valid_text_def)

section \<open>Printed values are read back\<close>

text \<open>A number the scanner accepts: its automaton ends in an accepting state.\<close>

definition num_start :: "char \<Rightarrow> num_state option" where
  "num_start c = (if c = CHR ''-'' then Some NNeg else if c = CHR ''0'' then Some N0
     else if is_digit c then Some N1 else None)"

fun num_run :: "num_state \<Rightarrow> string \<Rightarrow> num_state option" where
  "num_run n [] = Some n"
| "num_run n (c # cs) = (case num_step n c of Inl (Some n') \<Rightarrow> num_run n' cs | _ \<Rightarrow> None)"

definition num_final :: "num_state \<Rightarrow> bool" where
  "num_final n \<longleftrightarrow> n = N0 \<or> n = N1 \<or> n = NDot0 \<or> n = NE0"

definition num_literal :: "string \<Rightarrow> bool" where
  "num_literal s = (case s of [] \<Rightarrow> False | c # cs \<Rightarrow>
     (case num_start c of None \<Rightarrow> False | Some n \<Rightarrow>
        (case num_run n cs of None \<Rightarrow> False | Some n' \<Rightarrow> num_final n')))"

fun printable :: "json \<Rightarrow> bool" where
  "printable (JNum s) \<longleftrightarrow> num_literal s"
| "printable (JStr s) \<longleftrightarrow> valid_utf8 s"
| "printable (JArr vs) \<longleftrightarrow> list_all printable vs"
| "printable (JObj kvs) \<longleftrightarrow> list_all (\<lambda>(k, v). valid_utf8 k \<and> printable v) kvs"
| "printable _ \<longleftrightarrow> True"

text \<open>A value \<^verbatim>\<open>Marshal\<close> can write, and what \<^verbatim>\<open>Unmarshal\<close> makes of it.\<close>

fun writable :: "json \<Rightarrow> bool" where
  "writable (JNum s) \<longleftrightarrow> num_literal s"
| "writable (JArr vs) \<longleftrightarrow> list_all writable vs"
| "writable (JObj kvs) \<longleftrightarrow> list_all (\<lambda>(k, v). writable v) kvs"
| "writable _ \<longleftrightarrow> True"

fun json_read :: "json \<Rightarrow> json" where
  "json_read (JStr s) = JStr (valid_text s)"
| "json_read (JArr vs) = JArr (map json_read vs)"
| "json_read (JObj kvs) = JObj (map (\<lambda>(k, v). (valid_text k, json_read v)) kvs)"
| "json_read v = v"

lemma printable_writable: "printable v \<Longrightarrow> writable v"
  by (induction v) (auto simp: list_all_iff)

lemma printable_read: "printable v \<Longrightarrow> json_read v = v"
  by (induction v) (auto simp: list_all_iff valid_text_id intro!: map_idI)

fun json_depth :: "json \<Rightarrow> nat" where
  "json_depth (JArr vs) = Suc (Max (insert 0 (set (map json_depth vs))))"
| "json_depth (JObj kvs) = Suc (Max (insert 0 (set (map (\<lambda>(k, v). json_depth v) kvs))))"
| "json_depth _ = 0"

definition value_stack :: "frame list \<Rightarrow> bool" where
  "value_stack st = (case st of FObj _ # _ \<Rightarrow> False | _ \<Rightarrow> True)"

definition terminator :: "char \<Rightarrow> bool" where
  "terminator t \<longleftrightarrow> t = CHR '','' \<or> t = CHR '']'' \<or> t = CHR ''}'' \<or> is_space t"

lemma close_string_value: "value_stack st \<Longrightarrow> close_string s st = close_value (JStr s) st"
  by (cases "(s, st)" rule: close_string.cases) (auto simp: value_stack_def)

lemma scan_after_close: "value_stack st \<Longrightarrow> scan_step (close_value v st) t = end_step (close_value v st) t"
  by (cases "(v, st)" rule: close_value.cases) (auto simp: value_stack_def)

lemma scan_num_run:
  "num_run n cs = Some n' \<Longrightarrow> foldl scan_step (st, InNumber n acc) cs = (st, InNumber n' (rev cs @ acc))"
  by (induction cs arbitrary: n acc) (auto split: sum.splits option.splits)

lemma num_final_end:
  assumes "num_final n" "terminator t"
  shows "num_step n t = Inl None"
proof -
  have "\<not> is_digit t" "t \<noteq> CHR ''.''" "t \<noteq> CHR ''e''" "t \<noteq> CHR ''E''"
    using assms(2) by (auto simp: terminator_def is_digit_def is_space_def)
  then show ?thesis using assms(1) by (auto simp: num_final_def)
qed

lemma digit_other:
  "is_digit c \<Longrightarrow> \<not> is_space c \<and> c \<noteq> CHR ''{'' \<and> c \<noteq> CHR ''['' \<and> c \<noteq> CHR ''-'' \<and> code c \<noteq> 34"
  by (auto simp: is_digit_def is_space_def)

lemma begin_value_num: "num_start c = Some n \<Longrightarrow> begin_value st c = (st, InNumber n [c])"
  using digit_other [of c]
  by (cases "c = CHR ''-''"; cases "c = CHR ''0''"; cases "is_digit c")
    (simp_all add: num_start_def begin_value_def is_space_def)

lemma scan_num:
  assumes "num_literal s" "terminator t"
  shows "foldl scan_step (st, BeginValue) (s @ [t]) = end_step (close_value (JNum s) st) t"
proof -
  obtain c cs n n' where s: "s = c # cs" "num_start c = Some n" "num_run n cs = Some n'" "num_final n'"
    using assms(1) by (auto simp: num_literal_def split: list.splits option.splits)
  then show ?thesis
    using num_final_end [OF s(4) assms(2)] by (simp add: begin_value_num scan_num_run)
qed

lemma scan_string_value:
  assumes "value_stack st"
  shows "foldl scan_step (st, BeginValue) (quote s) = close_value (JStr (valid_text s)) st"
proof -
  have "begin_value st (chr 34) = (st, InString [])"
    unfolding begin_value_def is_space_def code_eq_iff [of "chr 34"] by simp
  then show ?thesis
    using scan_quote [of st s] close_string_value [OF assms] by (simp add: quote_def)
qed

definition reads :: "json \<Rightarrow> frame list \<Rightarrow> bool" where
  "reads v st \<longleftrightarrow> (\<forall>t. terminator t \<longrightarrow>
     foldl scan_step (st, BeginValue) (json_print v @ [t]) = end_step (close_value (json_read v) st) t)"

lemma readsD:
  "reads v st \<Longrightarrow> terminator t \<Longrightarrow>
    scan_step (foldl scan_step (st, BeginValue) (json_print v)) t = end_step (close_value (json_read v) st) t"
  by (simp add: reads_def)

lemma readsI:
  "foldl scan_step (st, BeginValue) (json_print v) = close_value (json_read v) st \<Longrightarrow> value_stack st \<Longrightarrow> reads v st"
  by (simp add: reads_def scan_after_close)

lemma terminators [simp]: "terminator CHR '',''" "terminator CHR '']''" "terminator CHR ''}''" "is_space c \<Longrightarrow> terminator c"
  by (simp_all add: terminator_def)

lemma not_space [simp]: "\<not> is_space CHR '',''" "\<not> is_space CHR '']''" "\<not> is_space CHR ''}''" "\<not> is_space CHR '':''"
  by (simp_all add: is_space_def)

lemma scan_items:
  assumes "\<And>v acc. v \<in> set vs \<Longrightarrow> reads v (FArr acc # st)" "vs \<noteq> []"
  shows "foldl scan_step (FArr acc # st, BeginValue) (commas (map json_print vs) @ '']'') = close_value (JArr (rev acc @ map json_read vs)) st"
  using assms
proof (induction vs arbitrary: acc)
  case (Cons v vs)
  have r: "reads v (FArr acc # st)" using Cons.prems by simp
  show ?case
  proof (cases vs)
    case Nil
    then show ?thesis using readsD [OF r, of "CHR '']''"] by simp
  next
    case (Cons w ws)
    then have "foldl scan_step (FArr (json_read v # acc) # st, BeginValue) (commas (map json_print vs) @ '']'') =
        close_value (JArr (rev (json_read v # acc) @ map json_read vs)) st"
      using Cons.IH Cons.prems by simp
    then show ?thesis using Cons readsD [OF r, of "CHR '',''"] by simp
  qed
qed simp

lemma scan_member:
  assumes "reads v (FKey acc (valid_text k) # st)" "terminator t"
  shows "foldl scan_step (FObj acc # st, BeginString) (quote k @ CHR '':'' # json_print v @ [t]) =
    end_step (FObj ((valid_text k, json_read v) # acc) # st, EndValue) t"
proof -
  have "begin_string (FObj acc # st) (chr 34) BeginString = (FObj acc # st, InString [])"
    by (simp add: begin_string_def is_space_def)
  then have "foldl scan_step (FObj acc # st, BeginString) (quote k) = (FKey acc (valid_text k) # st, EndValue)"
    using scan_quote [of "FObj acc # st" k] by (simp add: quote_def)
  then show ?thesis using readsD [OF assms] by simp
qed

lemma scan_members:
  assumes "\<And>k v acc. (k, v) \<in> set kvs \<Longrightarrow> reads v (FKey acc (valid_text k) # st)" "kvs \<noteq> []"
  shows "foldl scan_step (FObj acc # st, BeginString)
      (commas (map (\<lambda>(k, v). quote k @ CHR '':'' # json_print v) kvs) @ ''}'') = close_value (JObj (rev acc @ map (\<lambda>(k, v). (valid_text k, json_read v)) kvs)) st"
  using assms
proof (induction kvs arbitrary: acc)
  case (Cons kv kvs)
  obtain k v where kv: "kv = (k, v)" by fastforce
  have "reads v (FKey acc (valid_text k) # st)"
    using Cons.prems(1) [of k v acc] kv by simp
  note m = scan_member [OF this]
  show ?case
  proof (cases kvs)
    case Nil
    then show ?thesis using m [of "CHR ''}''"] kv by simp
  next
    case (Cons w ws)
    then have "foldl scan_step (FObj ((valid_text k, json_read v) # acc) # st, BeginString)
        (commas (map (\<lambda>(k, v). quote k @ CHR '':'' # json_print v) kvs) @ ''}'') = 
          close_value (JObj (rev ((valid_text k, json_read v) # acc) @ map (\<lambda>(k, v). (valid_text k, json_read v)) kvs)) st"
      by (intro Cons.IH) (use Cons.prems(1) in auto)
    then show ?thesis using Cons m [of "CHR '',''"] kv by simp
  qed
qed simp

lemma json_print_head:
  assumes "writable v"
  shows "\<exists>c u. json_print v = c # u \<and> \<not> is_space c \<and> c \<noteq> CHR '']''"
proof (cases v)
  case (JNum s)
  then obtain c u where "s = c # u" "num_start c \<noteq> None"
    using assms by (auto simp: num_literal_def split: list.splits option.splits)
  then show ?thesis using JNum digit_other [of c]
    by (auto simp: num_start_def is_space_def is_digit_def split: if_splits)
next
  case (JStr s)
  then show ?thesis unfolding code_eq_iff [of _ "CHR '']''"] by (simp add: quote_def is_space_def)
qed (auto simp: is_space_def)

lemma scan_empty_array:
  "begin_value st CHR ''['' = push (FArr []) st BeginValueOrEmpty"
  "begin_value st CHR ''{'' = push (FObj []) st BeginStringOrEmpty"
  by (simp_all add: begin_value_def is_space_def)

lemma reads_array:
  assumes "list_all writable vs" "\<And>v acc. v \<in> set vs \<Longrightarrow> reads v (FArr acc # st)"
    and "length st < max_nesting"
  shows "foldl scan_step (st, BeginValue) (json_print (JArr vs)) = close_value (json_read (JArr vs)) st"
proof (cases vs)
  case Nil
  then show ?thesis using assms(3) by (simp add: scan_empty_array push_def)
next
  case (Cons w ws)
  obtain c u where cu: "json_print w = c # u" "\<not> is_space c" "c \<noteq> CHR '']''"
    using json_print_head [of w] assms(1) Cons by auto
  obtain u' where u': "commas (map json_print vs) @ '']'' = c # u'"
    using cu(1) Cons by (cases ws) auto
  have "foldl scan_step (st, BeginValue) (json_print (JArr vs)) =
      foldl scan_step (FArr [] # st, BeginValueOrEmpty) (commas (map json_print vs) @ '']'')"
    using assms(3) by (simp add: scan_empty_array push_def)
  also have "\<dots> = foldl scan_step (FArr [] # st, BeginValue) (commas (map json_print vs) @ '']'')"
    unfolding u' using cu(2,3) by simp
  also have "\<dots> = close_value (json_read (JArr vs)) st"
    using scan_items [of vs st "[]"] assms(2) Cons by simp
  finally show ?thesis .
qed

lemma reads_object:
  assumes "\<And>k v acc. (k, v) \<in> set kvs \<Longrightarrow> reads v (FKey acc (valid_text k) # st)"
    and "length st < max_nesting"
  shows "foldl scan_step (st, BeginValue) (json_print (JObj kvs)) = close_value (json_read (JObj kvs)) st"
proof (cases kvs)
  case Nil
  then show ?thesis using assms(2) by (simp add: scan_empty_array push_def)
next
  case (Cons w ws)
  obtain u' where u': "commas (map (\<lambda>(k, v). quote k @ CHR '':'' # json_print v) kvs) @ ''}'' = chr 34 # u'"
    using Cons by (cases ws; cases w) (auto simp: quote_def)
  have q: "chr 34 \<noteq> CHR ''}''" unfolding code_eq_iff by simp
  have "foldl scan_step (st, BeginValue) (json_print (JObj kvs)) =
      foldl scan_step (FObj [] # st, BeginStringOrEmpty) (commas (map (\<lambda>(k, v). quote k @ CHR '':'' # json_print v) kvs) @ ''}'')"
    using assms(2) by (simp add: scan_empty_array push_def)
  also have "\<dots> = foldl scan_step (FObj [] # st, BeginString) (commas (map (\<lambda>(k, v). quote k @ CHR '':'' # json_print v) kvs) @ ''}'')"
    unfolding u' using q by (simp add: begin_string_def is_space_def)
  also have "\<dots> = close_value (json_read (JObj kvs)) st"
    using scan_members [where acc = "[]" and kvs = kvs, OF assms(1)] Cons by simp
  finally show ?thesis .
qed

lemma reads_writable:
  "writable v \<Longrightarrow> value_stack st \<Longrightarrow> length st + json_depth v \<le> max_nesting \<Longrightarrow> reads v st"
proof (induction v arbitrary: st)
  case (JNum s)
  then show ?case using scan_num by (simp add: reads_def)
next
  case (JStr s)
  then show ?case by (intro readsI) (simp_all add: scan_string_value)
next
  case (JArr vs)
  have "reads v (FArr acc # st)" if "v \<in> set vs" for v acc
  proof (rule JArr.IH [OF that])
    have "json_depth v \<le> Max (insert 0 (set (map json_depth vs)))" using that by (intro Max_ge) auto
    then show "length (FArr acc # st) + json_depth v \<le> max_nesting" using JArr.prems by simp
  qed (use JArr.prems that in \<open>auto simp: value_stack_def list_all_iff\<close>)
  then show ?case using JArr.prems by (intro readsI [OF reads_array]) auto
next
  case (JObj kvs)
  have "reads v (FKey acc k # st)" if "(k', v) \<in> set kvs" for k k' v acc
  proof -
    have "json_depth v \<le> Max (insert 0 (set (map (\<lambda>(k, v). json_depth v) kvs)))"
      using that by (intro Max_ge) force+
    then have "length (FKey acc k # st) + json_depth v \<le> max_nesting" using JObj.prems by simp
    then show "reads v (FKey acc k # st)"
      using JObj.prems that by (intro JObj.IH [OF that]) (auto simp: value_stack_def list_all_iff)
  qed
  then show ?case using JObj.prems by (intro readsI [OF reads_object]) auto
qed (auto intro!: readsI simp: begin_value_def is_space_def is_digit_def)

text \<open>What \<^verbatim>\<open>Marshal\<close> writes, \<^verbatim>\<open>Unmarshal\<close> reads; \<^verbatim>\<open>Encode\<close> adds a line feed.\<close>

lemma json_parse_writable:
  assumes "writable v" "json_depth v \<le> max_nesting"
  shows "json_parse (json_print v) = Some (json_read v)"
    and "is_space c \<Longrightarrow> json_parse (json_print v @ [c]) = Some (json_read v)"
proof -
  have "reads v []" using assms by (intro reads_writable) (simp_all add: value_stack_def)
  note r = readsD [OF this terminators(4)]
  have sp: "is_space CHR '' ''" by (simp add: is_space_def)
  show "json_parse (json_print v) = Some (json_read v)"
    using r [OF sp] sp by (simp add: json_parse_def scan_result_def)
  show "json_parse (json_print v @ [c]) = Some (json_read v)" if "is_space c"
    using r [OF that] that sp by (simp add: json_parse_def scan_result_def)
qed

lemma json_parse_print:
  "printable v \<Longrightarrow> json_depth v \<le> max_nesting \<Longrightarrow> json_parse (json_print v) = Some v"
  by (simp add: json_parse_writable(1) printable_writable printable_read)

section \<open>The scanner bounds the nesting\<close>

lemma json_depth_le:
  "json_depth (JArr vs) \<le> Suc n \<longleftrightarrow> (\<forall>v \<in> set vs. json_depth v \<le> n)"
  "json_depth (JObj kvs) \<le> Suc n \<longleftrightarrow> (\<forall>(k, v) \<in> set kvs. json_depth v \<le> n)"
  by auto

fun frame_values :: "frame \<Rightarrow> json list" where
  "frame_values (FArr vs) = vs"
| "frame_values (FObj kvs) = map snd kvs"
| "frame_values (FKey kvs k) = map snd kvs"

text \<open>A value in the frame at height \<open>n\<close> has room for \<open>n\<close> levels around it.\<close>

fun nesting_ok :: "frame list \<Rightarrow> bool" where
  "nesting_ok [] \<longleftrightarrow> True"
| "nesting_ok (f # st) \<longleftrightarrow> Suc (length st) \<le> max_nesting \<and>
     (\<forall>v \<in> set (frame_values f). Suc (length st) + json_depth v \<le> max_nesting) \<and> nesting_ok st"

definition scanner_ok :: "scanner \<Rightarrow> bool" where
  "scanner_ok sc \<longleftrightarrow> nesting_ok (fst sc) \<and> (case snd sc of
     EndTop v \<Rightarrow> json_depth v \<le> max_nesting | InLiteral r v \<Rightarrow> json_depth v = 0 | _ \<Rightarrow> True)"

lemma close_value_ok:
  "nesting_ok st \<Longrightarrow> length st + json_depth v \<le> max_nesting \<Longrightarrow> scanner_ok (close_value v st)"
  by (cases "(v, st)" rule: close_value.cases) (auto simp: scanner_ok_def)

lemma nesting_room: "nesting_ok st \<Longrightarrow> length st \<le> max_nesting"
  by (cases st) auto

lemma close_frame_ok:
  assumes "nesting_ok (f # st)"
  shows "length st + json_depth (JArr (rev (frame_values f))) \<le> max_nesting"
    "map snd kvs = frame_values f \<Longrightarrow> length st + json_depth (JObj (rev kvs)) \<le> max_nesting"
proof -
  obtain n where n: "max_nesting - length st = Suc n" "max_nesting = Suc (length st + n)"
    using assms by (cases "max_nesting - length st") auto
  have v: "json_depth v \<le> n" if "v \<in> set (frame_values f)" for v using assms that n(2) by fastforce
  then have "json_depth (JArr (rev (frame_values f))) \<le> Suc n" by (subst json_depth_le) simp
  then show "length st + json_depth (JArr (rev (frame_values f))) \<le> max_nesting" using n(2) by linarith
  assume k: "map snd kvs = frame_values f"
  have "json_depth (JObj (rev kvs)) \<le> Suc n"
    using v unfolding k [symmetric] by (subst json_depth_le) force
  then show "length st + json_depth (JObj (rev kvs)) \<le> max_nesting" using n(2) by linarith
qed

lemma end_step_ok:
  assumes "scanner_ok (st, s)" "s = EndValue \<or> (\<exists>v. s = EndTop v)"
  shows "scanner_ok (end_step (st, s) c)"
proof (cases "s = EndValue \<and> \<not> is_space c \<and> st \<noteq> []")
  case False
  then show ?thesis using assms by (cases st) (auto simp: scanner_ok_def)
next
  case True
  then obtain f st' where st: "st = f # st'" by (cases st) auto
  have ok: "nesting_ok (f # st')" "nesting_ok st'" using assms(1) st by (simp_all add: scanner_ok_def)
  show ?thesis
  proof (cases f)
    case (FArr vs)
    have "scanner_ok (close_value (JArr (rev vs)) st')"
      using close_frame_ok(1) [OF ok(1)] ok(2) FArr by (intro close_value_ok) simp_all
    then show ?thesis using True st FArr ok by (simp add: scanner_ok_def)
  next
    case (FObj kvs)
    have "scanner_ok (close_value (JObj (rev kvs)) st')"
      using close_frame_ok(2) [OF ok(1), of kvs] ok(2) FObj by (intro close_value_ok) simp_all
    then show ?thesis using True st FObj ok by (simp add: scanner_ok_def)
  next
    case (FKey kvs k)
    then show ?thesis using True st ok by (simp add: scanner_ok_def)
  qed
qed

lemma push_ok: "nesting_ok st \<Longrightarrow> frame_values f = [] \<Longrightarrow> next \<in> {BeginStringOrEmpty, BeginValueOrEmpty} \<Longrightarrow> scanner_ok (push f st next)"
  by (auto simp: push_def scanner_ok_def)

lemma begin_value_ok: "nesting_ok st \<Longrightarrow> scanner_ok (begin_value st c)"
  by (simp add: begin_value_def push_ok) (simp add: scanner_ok_def)

lemma close_string_ok: "nesting_ok st \<Longrightarrow> scanner_ok (close_string s st)"
  using nesting_room [of st]
  by (cases "(s, st)" rule: close_string.cases) (auto simp: scanner_ok_def intro!: close_value_ok [unfolded scanner_ok_def])

lemma close_value_state:
  assumes "value_stack st"
  obtains st' s where "close_value v st = (st', s)" "s = EndValue \<or> (\<exists>v. s = EndTop v)"
  using assms by (cases "(v, st)" rule: close_value.cases) (auto simp: value_stack_def)

lemma end_close_ok:
  assumes "nesting_ok st"
  shows "scanner_ok (end_step (close_value (JNum s) st) c)"
proof (cases "value_stack st")
  case True
  have "scanner_ok (close_value (JNum s) st)" using assms nesting_room [OF assms] by (intro close_value_ok) simp_all
  then show ?thesis using close_value_state [OF True, of "JNum s"] end_step_ok by metis
next
  case False
  then obtain kvs st' where "st = FObj kvs # st'" by (auto simp: value_stack_def split: list.splits frame.splits)
  then show ?thesis using assms by (simp add: scanner_ok_def)
qed

lemma scan_step_ok: "scanner_ok sc \<Longrightarrow> scanner_ok (scan_step sc c)"
proof (cases "(sc, c)" rule: scan_step.cases)
  case (8 st n acc c')
  assume "scanner_ok sc"
  then have "nesting_ok st" using 8 by (simp add: scanner_ok_def)
  with end_close_ok [OF this] show ?thesis
    using 8 by (auto simp: scanner_ok_def split: sum.split option.split)
next
  case (9 st r v c')
  assume "scanner_ok sc"
  then have "nesting_ok st" "json_depth v = 0" using 9 by (simp_all add: scanner_ok_def)
  with close_value_ok [of st v] nesting_room [of st] show ?thesis
    using 9 by (auto simp: scanner_ok_def split: list.split)
qed (use end_step_ok begin_value_ok close_string_ok in \<open>auto simp: scanner_ok_def begin_string_def simp del: end_step.simps split: option.split\<close>)

lemma json_parse_depth:
  assumes "json_parse s = Some v"
  shows "json_depth v \<le> max_nesting"
proof -
  have "scanner_ok (foldl scan_step sc s)" if "scanner_ok sc" for sc
    using that by (induction s arbitrary: sc) (simp_all add: scan_step_ok)
  then have "scanner_ok (scan_step (foldl scan_step ([], BeginValue) s) CHR '' '')"
    by (intro scan_step_ok) (simp add: scanner_ok_def)
  then show ?thesis
    using assms by (auto simp: json_parse_def scan_result_def scanner_ok_def split: prod.splits scan_state.splits)
qed

section \<open>Printed Go values\<close>

lemma num_run_digits: "list_all is_digit ds \<Longrightarrow> num_run N1 ds = Some N1"
  by (induction ds) auto

lemma num_literal_digits:
  assumes "list_all is_digit ds" "ds \<noteq> []" "hd ds \<noteq> CHR ''0''"
  shows "num_literal ds" "num_literal (CHR ''-'' # ds)"
  using assms digit_other [of "hd ds"]
  by (cases ds; simp add: num_literal_def num_start_def num_run_digits num_final_def)+

lemma num_literal_decimal [simp]: "num_literal (decimal n)"
proof -
  have "decimal 0 = ''0''" by (subst decimal.simps) (simp add: digit_char_def code_eq_iff)
  then show ?thesis
    using decimal_nonneg [of n] decimal_nonneg [of "- n"] num_literal_digits decimal_neg [of n]
    by (cases "n < 0"; cases "n = 0") (auto simp: num_literal_def num_start_def num_final_def)
qed

lemma b64_char_ascii: "i < 64 \<Longrightarrow> code (b64_char i) < 128"
  by (auto simp: b64_char_def)

lemma b64_encode_ascii: "list_all (\<lambda>c. code c < 128) (b64_encode bs)"
  by (induction bs rule: b64_encode.induct) (simp_all add: b64_char_ascii b64_bounds)

lemma printable_values [simp]:
  "printable (json_uint64 w)" "printable (json_int i)" "printable (json_bytes b)"
  by (simp_all add: json_uint64_def json_int_def json_bytes_def valid_utf8_ascii b64_encode_ascii split: option.split)

lemma json_depth_values [simp]:
  "json_depth (json_uint64 w) = 0" "json_depth (json_int i) = 0" "json_depth (json_bytes b) = 0"
  by (simp_all add: json_uint64_def json_int_def json_bytes_def split: option.split)

lemma dec_values [simp]:
  "dec_uint64 old (json_uint64 w) = Some w" "dec_int old' (json_int i) = Some i"
  "dec_bytes old'' (json_bytes b) = Some b" "dec_string s (JStr t) = Some t"
  "dec_bool x (JBool y) = Some y"
  by (simp_all add: dec_uint64_def json_uint64_def dec_int_def json_int_def dec_bytes_def json_bytes_def
      dec_string_def dec_bool_def split: option.split)

lemma struct_field_Nil [simp]: "struct_field dec name zero [] = Some zero"
  by (simp add: struct_field_def)

lemma struct_field_Cons:
  "struct_field dec name zero ((k, v) # kvs) =
     (if fold_name k = fold_name name
      then (case dec zero v of None \<Rightarrow> None | Some x \<Rightarrow> struct_field dec name x kvs)
      else struct_field dec name zero kvs)"
proof -
  have "foldl (\<lambda>acc (k, v). if fold_name k = fold_name name
        then (case acc of None \<Rightarrow> None | Some old \<Rightarrow> dec old v) else acc) None kvs = None"
    by (induction kvs) auto
  then show ?thesis by (simp add: struct_field_def split: option.split)
qed

text \<open>Text without quotes, backslashes, control characters and HTML characters is written as it is.\<close>

definition plain :: "char \<Rightarrow> bool" where
  "plain c \<longleftrightarrow> 32 \<le> code c \<and> code c < 128 \<and> code c \<noteq> 34 \<and> code c \<noteq> 92 \<and> code c \<noteq> 60 \<and> code c \<noteq> 62 \<and> code c \<noteq> 38"

lemma quote_body_plain: "list_all plain s \<Longrightarrow> quote_body s = s"
proof (induction s)
  case (Cons c s)
  then have "quote_body (c # s) = quote_ascii c @ quote_body s"
    by (subst quote_body.simps) (simp add: plain_def)
  then show ?case using Cons by (simp add: quote_ascii_def plain_def)
qed (simp add: quote_body.simps)

lemma quote_plain: "list_all plain s \<Longrightarrow> quote s = CHR 0x22 # s @ [CHR 0x22]"
proof -
  have "chr 34 = CHR 0x22" unfolding code_eq_iff by simp
  then show "list_all plain s \<Longrightarrow> quote s = CHR 0x22 # s @ [CHR 0x22]"
    by (simp add: quote_def quote_body_plain)
qed

end
