(* ===== verification/ServeMux.thy ===== *)
theory ServeMux
  imports Codec
begin

text \<open>
  The part of \<^verbatim>\<open>net/http\<close> (Go 1.22) that both HTTP servers of the validator rely on: how a
  \<^verbatim>\<open>ServeMux\<close> finds the handler of a request from the path of its URL. A path that is not clean is
  answered with a redirect to the clean one, whatever handlers are registered.
\<close>

section \<open>Clean paths\<close>

fun path_segments :: "string \<Rightarrow> string list" where
  "path_segments [] = [[]]"
| "path_segments (c # s) = (if c = CHR ''/'' then [] # path_segments s
     else (case path_segments s of [] \<Rightarrow> [[c]] | x # xs \<Rightarrow> (c # x) # xs))"

text \<open>\<^verbatim>\<open>path.Clean\<close> of a rooted path: the names that are left, the last one first.\<close>

definition clean_step :: "string \<Rightarrow> string list \<Rightarrow> string list" where
  "clean_step seg stack = (if seg = [] \<or> seg = ''.'' then stack else if seg = ''..'' then tl stack else seg # stack)"

definition join_path :: "string list \<Rightarrow> string" where
  "join_path segs = (if segs = [] then ''/'' else concat (map (\<lambda>x. CHR ''/'' # x) segs))"

definition path_Clean :: "string \<Rightarrow> string" where
  "path_Clean p = join_path (rev (fold clean_step (path_segments p) []))"

definition cleanPath :: "string \<Rightarrow> string" where
  "cleanPath p = (if p = [] then ''/'' else
     (let p' = (if hd p = CHR ''/'' then p else CHR ''/'' # p); np = path_Clean p'
      in if last p' = CHR ''/'' \<and> np \<noteq> ''/'' then np @ ''/'' else np))"

section \<open>Finding the handler\<close>

text \<open>\<^verbatim>\<open>url.PathUnescape\<close>; a text that is not well formed is left as it is.\<close>

fun unescape :: "string \<Rightarrow> string option" where
  "unescape [] = Some []"
| "unescape (c # s) = (if c = CHR ''%'' then
     (case s of a # b # t \<Rightarrow> (case (hex_val a, hex_val b) of
          (Some x, Some y) \<Rightarrow> map_option (\<lambda>u. char_of (16 * x + y) # u) (unescape t) | _ \<Rightarrow> None)
      | _ \<Rightarrow> None)
     else map_option (\<lambda>u. c # u) (unescape s))"

definition pathUnescape :: "string \<Rightarrow> string" where
  "pathUnescape s = (case unescape s of None \<Rightarrow> s | Some t \<Rightarrow> t)"

text \<open>
  What is done with a request. \<^verbatim>\<open>OPTIONS *\<close> is answered by the server itself, \<open>Missing\<close> is the page
  of status 404.
\<close>

datatype 'h mux_result = OptionsStar | BadStar | Moved string | Missing | Handler 'h

text \<open>
  The handlers are those of the patterns \<^verbatim>\<open>/NAME\<close>, which match a path of that one name, and that
  of the pattern \<^verbatim>\<open>/\<close>, if there is one, which matches every other path. The path of a \<^verbatim>\<open>CONNECT\<close>
  request is not cleaned and may be empty.
\<close>

definition ServeMux :: "(string \<Rightarrow> 'h option) \<Rightarrow> 'h option \<Rightarrow> string \<Rightarrow> string \<Rightarrow> 'h mux_result" where
  "ServeMux names root' meth path =
     (if path = ''*'' then (if meth = ''OPTIONS'' then OptionsStar else BadStar)
      else if meth \<noteq> ''CONNECT'' \<and> cleanPath path \<noteq> path then Moved (cleanPath path)
      else
        (let rest = (case root' of Some h \<Rightarrow> if path = [] then Missing else Handler h | None \<Rightarrow> Missing)
         in case path_segments path of
              [x, seg] \<Rightarrow> (case names (pathUnescape seg) of Some h \<Rightarrow> Handler h | None \<Rightarrow> rest)
            | _ \<Rightarrow> rest))"

text \<open>The page of a redirect, of which only a \<^verbatim>\<open>GET\<close> request sees the body; \<open>loc\<close> is the escaped text of the new URL.\<close>

definition moved_page :: "string \<Rightarrow> string \<Rightarrow> string" where
  "moved_page loc meth = (if meth = ''GET'' then
     ''<a href='' @ [CHR 0x22] @ loc @ [CHR 0x22] @ ''>Moved Permanently</a>.'' @ [CHR 0x0A, CHR 0x0A] else [])"

definition missing_page :: string where
  "missing_page = ''404 page not found'' @ [CHR 0x0A]"

section \<open>A redirect is followed at most once\<close>

lemma path_segments_ne [simp]: "path_segments s \<noteq> []"
  by (cases s) (auto split: list.split)

lemma path_segments_append: "CHR ''/'' \<notin> set x \<Longrightarrow> path_segments (x @ CHR ''/'' # s) = x # path_segments s"
  by (induction x) auto

lemma path_segments_single: "CHR ''/'' \<notin> set x \<Longrightarrow> path_segments x = [x]"
  by (induction x) auto

lemma path_segments_no_slash: "x \<in> set (path_segments s) \<Longrightarrow> CHR ''/'' \<notin> set x"
  by (induction s arbitrary: x) (auto split: list.splits if_splits)

text \<open>Names a clean path can have.\<close>

definition plain_seg :: "string \<Rightarrow> bool" where
  "plain_seg x \<longleftrightarrow> x \<noteq> [] \<and> x \<noteq> ''.'' \<and> x \<noteq> ''..'' \<and> CHR ''/'' \<notin> set x"

lemma clean_stack: "list_all plain_seg st \<Longrightarrow> \<forall>x \<in> set xs. CHR ''/'' \<notin> set x \<Longrightarrow> list_all plain_seg (fold clean_step xs st)"
proof (induction xs arbitrary: st)
  case (Cons x xs)
  have "list_all plain_seg (clean_step x st)"
    using Cons.prems by (cases st) (auto simp: clean_step_def plain_seg_def [of x])
  then show ?case using Cons by simp
qed simp

lemma clean_plain: "list_all plain_seg xs \<Longrightarrow> fold clean_step xs st = rev xs @ st"
  by (induction xs arbitrary: st) (auto simp: clean_step_def plain_seg_def)

lemma segments_joined:
  "list_all plain_seg xs \<Longrightarrow> xs \<noteq> [] \<Longrightarrow> path_segments (concat (map (\<lambda>x. CHR ''/'' # x) xs) @ t) =
     [] # butlast xs @ path_segments (last xs @ t)" if "t = [] \<or> hd t = CHR ''/''"
proof (induction xs)
  case (Cons x xs)
  show ?case
  proof (cases xs)
    case (Cons y ys)
    then obtain u where u: "concat (map (\<lambda>x. CHR ''/'' # x) xs) @ t = CHR ''/'' # u" by simp
    have "path_segments (CHR ''/'' # x @ CHR ''/'' # u) = [] # x # path_segments u"
      using Cons.prems by (simp add: plain_seg_def path_segments_append)
    then show ?thesis using Cons.IH Cons.prems u \<open>xs = y # ys\<close> by auto
  qed simp
qed simp

lemma path_Clean_joined:
  assumes "list_all plain_seg xs" "t = [] \<or> t = ''/''"
  shows "path_Clean (concat (map (\<lambda>x. CHR ''/'' # x) xs) @ t) = join_path xs"
proof (cases "xs = []")
  case True
  then show ?thesis using assms(2) by (auto simp: path_Clean_def clean_step_def join_path_def)
next
  case False
  have l: "CHR ''/'' \<notin> set (last xs)" using assms(1) False by (simp add: list_all_iff plain_seg_def)
  have "path_segments (last xs @ t) = last xs # (if t = [] then [] else [[]])"
    using assms(2) path_segments_append [OF l, of "[]"] path_segments_single [OF l] by auto
  then have "path_segments (concat (map (\<lambda>x. CHR ''/'' # x) xs) @ t) = [] # xs @ (if t = [] then [] else [[]])"
    using segments_joined [of t xs] assms False by auto
  then show ?thesis using clean_plain [OF assms(1)] by (simp add: path_Clean_def clean_step_def)
qed

lemma clean_form:
  obtains xs t where "cleanPath p = (if xs = [] then ''/'' else concat (map (\<lambda>x. CHR ''/'' # x) xs) @ t)" "list_all plain_seg xs" "t = [] \<or> t = ''/''"
proof (cases "p = []")
  case True
  then show thesis using that [of "[]" "[]"] by (simp add: cleanPath_def)
next
  case False
  let ?p = "if hd p = CHR ''/'' then p else CHR ''/'' # p"
  let ?xs = "rev (fold clean_step (path_segments ?p) [])"
  have ok: "list_all plain_seg ?xs" using clean_stack [of "[]" "path_segments ?p"] path_segments_no_slash by fastforce
  have c: "path_Clean ?p = join_path ?xs" by (simp add: path_Clean_def)
  have "join_path ?xs = ''/'' \<longleftrightarrow> ?xs = []" using ok by (cases ?xs) (auto simp: join_path_def plain_seg_def)
  then show thesis
    using that [OF _ ok, of "if last ?p = CHR ''/'' then ''/'' else []"] False c by (auto simp: cleanPath_def Let_def join_path_def)
qed

lemma cleanPath_idem [simp]: "cleanPath (cleanPath p) = cleanPath p"
proof -
  obtain xs t where c: "cleanPath p = (if xs = [] then ''/'' else concat (map (\<lambda>x. CHR ''/'' # x) xs) @ t)"
    and xs: "list_all plain_seg xs" "t = [] \<or> t = ''/''" by (rule clean_form)
  show ?thesis
  proof (cases "xs = []")
    case True
    then show ?thesis using c by (simp add: cleanPath_def path_Clean_def clean_step_def join_path_def)
  next
    case False
    let ?q = "concat (map (\<lambda>x. CHR ''/'' # x) xs)"
    have q: "?q \<noteq> []" "hd (?q @ t) = CHR ''/''" using False by (cases xs; simp)+
    have l: "last (?q @ t) = CHR ''/'' \<longleftrightarrow> t = ''/''"
    proof -
      have "last xs \<noteq> []" "CHR ''/'' \<notin> set (last xs)" using xs(1) False by (simp_all add: list_all_iff plain_seg_def)
      moreover have "last ?q = last (last xs)" using False xs(1) by (induction xs) (auto simp: plain_seg_def)
      ultimately show ?thesis using xs(2) by (auto dest: last_in_set)
    qed
    have "join_path xs = ?q" "?q \<noteq> ''/''"
      using False xs(1) by (cases xs; auto simp: join_path_def plain_seg_def)+
    then show ?thesis
      using c False q l xs(2) path_Clean_joined [OF xs] by (auto simp: cleanPath_def Let_def)
  qed
qed

lemma cleanPath_star: "cleanPath p \<noteq> ''*''" "cleanPath p \<noteq> []"
proof -
  obtain xs t where "cleanPath p = (if xs = [] then ''/'' else concat (map (\<lambda>x. CHR ''/'' # x) xs) @ t)" by (rule clean_form)
  then show "cleanPath p \<noteq> ''*''" "cleanPath p \<noteq> []" by (cases xs; simp)+
qed

end
