(* ===== verification/Metrics.thy ===== *)
theory Metrics
  imports JsonPrint ServeMux
begin

text \<open>
  The metrics collector, \<^verbatim>\<open>internal/metrics/metrics.go\<close>: the atomic counters and gauges of
  \<^verbatim>\<open>Metrics\<close> as a record of words (an increment wraps), the Prometheus page and the health
  page as the bytes they write. Each page reads every counter once. The HTTP server itself
  is not modelled.
\<close>

section \<open>State\<close>

type_synonym int64 = "64 word"
type_synonym int32 = "32 word"

record Metrics =
  mt_AttestationsCreated :: uint64
  mt_AttestationsReceived :: uint64
  mt_AttestationsVerified :: uint64
  mt_AttestationsFailed :: uint64
  mt_BlocksFinalized :: uint64
  mt_SyncedBlock :: uint64
  mt_IsSynced :: int32
  mt_CurrentXP :: int64
  mt_SovereigntyScore :: int64
  mt_SovereigntyTier :: int32
  mt_PeerCount :: int32
  mt_StakedAmountWei :: int64
  mt_SlashesReceived :: uint64
  mt_SlashesReported :: uint64
  mt_RPCRequests :: uint64
  mt_BlocksVerified :: uint64
  mt_VerificationFailures :: uint64
  mt_CrossChainL2ToL1 :: uint64
  mt_CrossChainL1ToL2 :: uint64
  mt_GovernanceActiveProposals :: int32
  mt_GovernanceProposalsTotal :: uint64
  mt_GovernanceVotesCast :: uint64

definition NewMetrics :: Metrics where
  "NewMetrics = \<lparr>mt_AttestationsCreated = 0,
     mt_AttestationsReceived = 0,
     mt_AttestationsVerified = 0,
     mt_AttestationsFailed = 0,
     mt_BlocksFinalized = 0,
     mt_SyncedBlock = 0,
     mt_IsSynced = 0,
     mt_CurrentXP = 0,
     mt_SovereigntyScore = 0,
     mt_SovereigntyTier = 0,
     mt_PeerCount = 0,
     mt_StakedAmountWei = 0,
     mt_SlashesReceived = 0,
     mt_SlashesReported = 0,
     mt_RPCRequests = 0,
     mt_BlocksVerified = 0,
     mt_VerificationFailures = 0,
     mt_CrossChainL2ToL1 = 0,
     mt_CrossChainL1ToL2 = 0,
     mt_GovernanceActiveProposals = 0,
     mt_GovernanceProposalsTotal = 0,
     mt_GovernanceVotesCast = 0\<rparr>"

section \<open>The pages\<close>

definition newline :: char where
  "newline = CHR 0x0A"

definition help_line :: "string \<Rightarrow> string \<Rightarrow> string" where
  "help_line name help = ''# HELP '' @ name @ CHR '' '' # help @ [newline]"

definition type_line :: "string \<Rightarrow> string \<Rightarrow> string" where
  "type_line name kind = ''# TYPE '' @ name @ CHR '' '' # kind @ [newline]"

definition sample_line :: "string \<Rightarrow> int \<Rightarrow> string" where
  "sample_line name v = name @ CHR '' '' # decimal v @ [newline]"

definition metric :: "string \<Rightarrow> string \<Rightarrow> string \<Rightarrow> int \<Rightarrow> string" where
  "metric name help kind v = help_line name help @ type_line name kind @ sample_line name v @ [newline]"

definition handleMetrics :: "Metrics \<Rightarrow> string" where
  "handleMetrics m =
     metric ''inso_validator_attestations_created_total'' ''Attestations created by this validator'' ''counter'' (uint (mt_AttestationsCreated m)) @
     metric ''inso_validator_attestations_received_total'' ''Attestations received from peers'' ''counter'' (uint (mt_AttestationsReceived m)) @
     metric ''inso_validator_attestations_verified_total'' ''Valid attestations verified'' ''counter'' (uint (mt_AttestationsVerified m)) @
     metric ''inso_validator_attestations_failed_total'' ''Invalid attestations rejected'' ''counter'' (uint (mt_AttestationsFailed m)) @
     metric ''inso_validator_blocks_finalized_total'' ''Blocks reaching consensus finality'' ''counter'' (uint (mt_BlocksFinalized m)) @
     metric ''inso_validator_synced_block'' ''Latest synced block number'' ''gauge'' (uint (mt_SyncedBlock m)) @
     metric ''inso_validator_is_synced'' ''Whether the validator is fully synced (1=yes)'' ''gauge'' (sint (mt_IsSynced m)) @
     metric ''inso_validator_xp'' ''Current XP points'' ''gauge'' (sint (mt_CurrentXP m)) @
     metric ''inso_validator_sovereignty_score'' ''Sovereignty score (x10000 for precision)'' ''gauge'' (sint (mt_SovereigntyScore m)) @
     metric ''inso_validator_sovereignty_tier'' ''Sovereignty tier (0=None,1=Bronze,2=Silver,3=Gold,4=Platinum)'' ''gauge'' (sint (mt_SovereigntyTier m)) @
     metric ''inso_validator_peer_count'' ''Connected P2P peers'' ''gauge'' (sint (mt_PeerCount m)) @
     metric ''inso_validator_staked_eth'' ''Total staked in ETH'' ''gauge'' (sint (mt_StakedAmountWei m)) @
     metric ''inso_validator_slashes_received_total'' ''Slashes received'' ''counter'' (uint (mt_SlashesReceived m)) @
     metric ''inso_validator_slashes_reported_total'' ''Slashes reported against others'' ''counter'' (uint (mt_SlashesReported m)) @
     metric ''inso_validator_rpc_requests_total'' ''Total RPC requests'' ''counter'' (uint (mt_RPCRequests m)) @
     metric ''inso_validator_blocks_verified_total'' ''Blocks verified via ZK proof'' ''counter'' (uint (mt_BlocksVerified m)) @
     metric ''inso_validator_verification_failures_total'' ''Block verification failures'' ''counter'' (uint (mt_VerificationFailures m)) @
     help_line ''inso_crosschain_attestations_total'' ''Cross-chain attestation count'' @
     type_line ''inso_crosschain_attestations_total'' ''counter'' @
     sample_line (''inso_crosschain_attestations_total{direction='' @ [chr 34] @ ''l2_to_l1'' @ [chr 34] @ ''}'') (uint (mt_CrossChainL2ToL1 m)) @
     sample_line (''inso_crosschain_attestations_total{direction='' @ [chr 34] @ ''l1_to_l2'' @ [chr 34] @ ''}'') (uint (mt_CrossChainL1ToL2 m)) @
     [newline] @
     metric ''inso_governance_active_proposals'' ''Currently active governance proposals'' ''gauge'' (sint (mt_GovernanceActiveProposals m)) @
     metric ''inso_governance_proposals_total'' ''Total governance proposals created'' ''counter'' (uint (mt_GovernanceProposalsTotal m)) @
     metric ''inso_governance_votes_cast_total'' ''Total governance votes cast'' ''counter'' (uint (mt_GovernanceVotesCast m))"

definition show_bool :: "bool \<Rightarrow> string" where
  "show_bool b = (if b then ''true'' else ''false'')"

definition handleHealth :: "Metrics \<Rightarrow> go_time \<Rightarrow> string" where
  "handleHealth m now =
     CHR ''{'' # quote ''status'' @ CHR '':'' # quote ''ok'' @ CHR '','' # quote ''service'' @ CHR '':'' # quote ''inso-validator'' @
     CHR '','' # quote ''synced'' @ CHR '':'' # show_bool (mt_IsSynced m = 1) @
     CHR '','' # quote ''peers'' @ CHR '':'' # decimal (sint (mt_PeerCount m)) @
     CHR '','' # quote ''timestamp'' @ CHR '':'' # decimal (now div 1000000000) @ ''}''"

text \<open>
  The handlers registered by \<^verbatim>\<open>Serve\<close>: the status and the page. \<open>loc\<close> gives the escaped text of the URL
  a request is redirected to.
\<close>

datatype page = MetricsPage | HealthPage

definition Serve :: "Metrics \<Rightarrow> (string \<Rightarrow> string) \<Rightarrow> string \<Rightarrow> string \<Rightarrow> go_time \<Rightarrow> nat \<times> string" where
  "Serve m loc meth path now = (case ServeMux [''metrics'' \<mapsto> MetricsPage, ''health'' \<mapsto> HealthPage] None meth path of
     Handler MetricsPage \<Rightarrow> (200, handleMetrics m)
   | Handler HealthPage \<Rightarrow> (200, handleHealth m now)
   | Moved p \<Rightarrow> (301, moved_page (loc p) meth)
   | Missing \<Rightarrow> (404, missing_page)
   | OptionsStar \<Rightarrow> (200, [])
   | BadStar \<Rightarrow> (400, []))"

section \<open>Reading the pages back\<close>

text \<open>What a Prometheus scraper reads: the lines that are neither empty nor comments.\<close>

fun lines_of :: "string \<Rightarrow> string list" where
  "lines_of [] = []"
| "lines_of (c # s) = (if c = newline then [] # lines_of s
     else (case lines_of s of [] \<Rightarrow> [[c]] | l # ls \<Rightarrow> (c # l) # ls))"

definition int_value :: "string \<Rightarrow> int" where
  "int_value s = (if s \<noteq> [] \<and> hd s = CHR ''-'' then - digits_value (tl s) else digits_value s)"

definition sample_of :: "string \<Rightarrow> (string \<times> int) list" where
  "sample_of l = (if l = [] \<or> hd l = CHR ''#'' then []
     else [(rev (tl (dropWhile (\<lambda>c. c \<noteq> CHR '' '') (rev l))), int_value (rev (takeWhile (\<lambda>c. c \<noteq> CHR '' '') (rev l))))])"

definition samples :: "string \<Rightarrow> (string \<times> int) list" where
  "samples s = concat (map sample_of (lines_of s))"

lemma lines_of_line: "newline \<notin> set l \<Longrightarrow> lines_of (l @ newline # s) = l # lines_of s"
  by (induction l) auto

lemma decimal_chars:
  "list_all (\<lambda>c. is_digit c \<or> c = CHR ''-'') (decimal n)" "int_value (decimal n) = n"
proof -
  have p: "list_all (\<lambda>c. is_digit c \<or> c = CHR ''-'') (decimal n) \<and> int_value (decimal n) = n" if n: "0 \<le> n" for n
  proof -
    obtain c t where ct: "decimal n = c # t" using decimal_nonneg [OF n] by (cases "decimal n") auto
    then have "c \<noteq> CHR ''-''" using decimal_nonneg [OF n] by (auto simp: is_digit_def)
    then show ?thesis using decimal_nonneg [OF n] ct by (auto simp: int_value_def list_all_iff)
  qed
  have "list_all (\<lambda>c. is_digit c \<or> c = CHR ''-'') (decimal n) \<and> int_value (decimal n) = n"
  proof (cases "0 \<le> n")
    case False
    then show ?thesis using decimal_neg [of n] p [of "- n"] decimal_nonneg [of "- n"] by (simp add: int_value_def)
  qed (rule p)
  then show "list_all (\<lambda>c. is_digit c \<or> c = CHR ''-'') (decimal n)" "int_value (decimal n) = n" by simp_all
qed

lemma decimal_no_sep: "newline \<notin> set (decimal n)" "c \<in> set (decimal n) \<Longrightarrow> c \<noteq> CHR '' ''"
  using decimal_chars(1) [of n] by (auto simp: list_all_iff newline_def is_digit_def)

lemma sample_of_line:
  assumes "name \<noteq> []" "hd name \<noteq> CHR ''#''"
  shows "sample_of (name @ CHR '' '' # decimal v) = [(name, v)]"
proof -
  have "takeWhile (\<lambda>c. c \<noteq> CHR '' '') (rev (decimal v) @ CHR '' '' # rev name) = rev (decimal v)"
    "dropWhile (\<lambda>c. c \<noteq> CHR '' '') (rev (decimal v) @ CHR '' '' # rev name) = CHR '' '' # rev name"
    using decimal_no_sep(2) [of _ v] by (subst takeWhile_append2 dropWhile_append2; auto)+
  then show ?thesis using assms by (simp add: sample_of_def decimal_chars)
qed

lemma samples_sample:
  assumes "name \<noteq> []" "hd name \<noteq> CHR ''#''" "newline \<notin> set name"
  shows "samples (sample_line name v @ s) = (name, v) # samples s"
proof -
  have "newline \<notin> set (name @ CHR '' '' # decimal v)"
    using assms decimal_no_sep(1) [of v] by (auto simp: newline_def)
  from lines_of_line [OF this, of s] show ?thesis
    using sample_of_line [OF assms(1,2)] by (simp add: samples_def sample_line_def)
qed

lemma samples_comment:
  assumes "newline \<notin> set l"
  shows "samples (CHR ''#'' # l @ newline # s) = samples s"
  using assms lines_of_line [of "CHR ''#'' # l" s] by (simp add: samples_def sample_of_def newline_def)

lemma samples_help:
  assumes "newline \<notin> set name" "newline \<notin> set help"
  shows "samples (help_line name help @ s) = samples s" "samples (type_line name help @ s) = samples s"
  using assms samples_comment [of "'' HELP '' @ name @ CHR '' '' # help" s] samples_comment [of "'' TYPE '' @ name @ CHR '' '' # help" s]
  by (auto simp: help_line_def type_line_def newline_def)

lemma samples_blank: "samples (newline # s) = samples s"
  by (simp add: samples_def sample_of_def)

lemma samples_metric:
  assumes "name \<noteq> []" "hd name \<noteq> CHR ''#''" "newline \<notin> set name" "newline \<notin> set help" "newline \<notin> set kind"
  shows "samples (metric name help kind v @ s) = (name, v) # samples s"
  using assms by (simp add: metric_def samples_help samples_sample samples_blank)

lemma samples_end:
  assumes "name \<noteq> []" "hd name \<noteq> CHR ''#''" "newline \<notin> set name" "newline \<notin> set help" "newline \<notin> set kind"
  shows "samples (metric name help kind v) = [(name, v)]"
  using samples_metric [OF assms, of v "[]"] by (simp add: samples_def)

lemmas page_simps = samples_metric samples_help samples_sample samples_blank

section \<open>Properties\<close>

text \<open>
  C39: A scraper that reads the metrics page finds exactly one sample per counter and gauge,
  in order, under its name and label, with the value the counter holds (unsigned for
  counters, signed for gauges), whatever the values are. There are 22 of them; the README of the
  repository says 16.
\<close>

lemma handleMetrics_samples:
  "samples (handleMetrics m) =
  [(''inso_validator_attestations_created_total'', (uint (mt_AttestationsCreated m))),
   (''inso_validator_attestations_received_total'', (uint (mt_AttestationsReceived m))),
   (''inso_validator_attestations_verified_total'', (uint (mt_AttestationsVerified m))),
   (''inso_validator_attestations_failed_total'', (uint (mt_AttestationsFailed m))),
   (''inso_validator_blocks_finalized_total'', (uint (mt_BlocksFinalized m))),
   (''inso_validator_synced_block'', (uint (mt_SyncedBlock m))),
   (''inso_validator_is_synced'', (sint (mt_IsSynced m))),
   (''inso_validator_xp'', (sint (mt_CurrentXP m))),
   (''inso_validator_sovereignty_score'', (sint (mt_SovereigntyScore m))),
   (''inso_validator_sovereignty_tier'', (sint (mt_SovereigntyTier m))),
   (''inso_validator_peer_count'', (sint (mt_PeerCount m))),
   (''inso_validator_staked_eth'', (sint (mt_StakedAmountWei m))),
   (''inso_validator_slashes_received_total'', (uint (mt_SlashesReceived m))),
   (''inso_validator_slashes_reported_total'', (uint (mt_SlashesReported m))),
   (''inso_validator_rpc_requests_total'', (uint (mt_RPCRequests m))),
   (''inso_validator_blocks_verified_total'', (uint (mt_BlocksVerified m))),
   (''inso_validator_verification_failures_total'', (uint (mt_VerificationFailures m))),
   ((''inso_crosschain_attestations_total{direction='' @ [chr 34] @ ''l2_to_l1'' @ [chr 34] @ ''}''), (uint (mt_CrossChainL2ToL1 m))),
   ((''inso_crosschain_attestations_total{direction='' @ [chr 34] @ ''l1_to_l2'' @ [chr 34] @ ''}''), (uint (mt_CrossChainL1ToL2 m))),
   (''inso_governance_active_proposals'', (sint (mt_GovernanceActiveProposals m))),
   (''inso_governance_proposals_total'', (uint (mt_GovernanceProposalsTotal m))),
   (''inso_governance_votes_cast_total'', (uint (mt_GovernanceVotesCast m)))]"
proof -
  have q: "newline \<noteq> chr 34" unfolding newline_def code_eq_iff by simp
  show ?thesis
    unfolding handleMetrics_def using q by (simp add: page_simps samples_end [unfolded newline_def] newline_def samples_blank [unfolded newline_def])
qed

text \<open>
  The health page is valid JSON: any JSON reader gets the object with the fixed status
  and service, the synced flag (true exactly when the gauge is 1), the peer count and the
  time in whole seconds.
\<close>

lemma handleHealth_json:
  "json_parse (handleHealth m now) = Some (JObj [(''status'', JStr ''ok''), (''service'', JStr ''inso-validator''),
     (''synced'', JBool (mt_IsSynced m = 1)), (''peers'', JNum (decimal (sint (mt_PeerCount m)))),
     (''timestamp'', JNum (decimal (now div 1000000000)))])"
proof -
  let ?v = "JObj [(''status'', JStr ''ok''), (''service'', JStr ''inso-validator''),
     (''synced'', JBool (mt_IsSynced m = 1)), (''peers'', JNum (decimal (sint (mt_PeerCount m)))),
     (''timestamp'', JNum (decimal (now div 1000000000)))]"
  have "handleHealth m now = json_print ?v"
    by (simp add: handleHealth_def show_bool_def)
  moreover have "printable ?v" by (simp add: valid_utf8_ascii)
  moreover have "json_depth ?v \<le> max_nesting" by (simp add: max_nesting_def)
  ultimately show ?thesis using json_parse_print [of ?v] by (simp only:)
qed

end
