(* ===== verification/BigFloat.thy ===== *)
theory BigFloat
  imports Float64
begin

text \<open>
  The part of Go's \<^verbatim>\<open>math/big.Float\<close> the validator uses: a number with a precision of
  its own, set from an integer (at least 64 bits of precision) or from a float64 (53 bits),
  multiplied and divided with the larger precision of the two operands, rounding to
  nearest, ties to even. The exponent range of \<^verbatim>\<open>big.Float\<close> (32 bits) is not limited here:
  stakes are far from it. Operations on a NaN, or that would give one, panic.
\<close>

definition bf_unit :: "nat \<Rightarrow> int \<Rightarrow> int" where
  "bf_unit p e = e - int (p - 1)"

interpretation bf: grid "bf_unit p" for p
  by unfold_locales (auto simp: bf_unit_def)

datatype bigfloat = BF (bf_prec: nat) rat | BInf (bf_prec: nat) bool

definition bf_set_int :: "big_int \<Rightarrow> bigfloat" where
  "bf_set_int z = BF (max (nat (bitlen \<bar>z\<bar>)) 64) (of_int z)"

definition bf_set_float64 :: "float64 \<Rightarrow> go_panic + bigfloat" where
  "bf_set_float64 a = (case a of
     NaN \<Rightarrow> Inl ErrNaN
   | Fin x \<Rightarrow> Inr (BF 53 x)
   | PInf \<Rightarrow> Inr (BInf 53 True)
   | NInf \<Rightarrow> Inr (BInf 53 False))"

definition bf_round :: "nat \<Rightarrow> rat \<Rightarrow> rat" where
  "bf_round p x = round_grid (bf_unit p) x"

fun bf_mul :: "bigfloat \<Rightarrow> bigfloat \<Rightarrow> go_panic + bigfloat" where
  "bf_mul (BF p x) (BF q y) = Inr (BF (max p q) (bf_round (max p q) (x * y)))"
| "bf_mul (BF p x) (BInf q s) =
     (if x = 0 then Inl ErrNaN else Inr (BInf (max p q) ((0 < x) = s)))"
| "bf_mul (BInf p s) (BF q y) =
     (if y = 0 then Inl ErrNaN else Inr (BInf (max p q) ((0 < y) = s)))"
| "bf_mul (BInf p s) (BInf q t) = Inr (BInf (max p q) (s = t))"

fun bf_quo :: "bigfloat \<Rightarrow> bigfloat \<Rightarrow> go_panic + bigfloat" where
  "bf_quo (BF p x) (BF q y) =
     (if y = 0 then (if x = 0 then Inl ErrNaN else Inr (BInf (max p q) (0 < x)))
      else Inr (BF (max p q) (bf_round (max p q) (x / y))))"
| "bf_quo (BF p x) (BInf q s) = Inr (BF (max p q) 0)"
| "bf_quo (BInf p s) (BF q y) = Inr (BInf (max p q) ((0 \<le> y) = s))"
| "bf_quo (BInf p s) (BInf q t) = Inl ErrNaN"

text \<open>\<^verbatim>\<open>Float64()\<close>: the nearest float64.\<close>

fun bf_float64 :: "bigfloat \<Rightarrow> float64" where
  "bf_float64 (BF p x) = round64 x"
| "bf_float64 (BInf p s) = fsign_inf s"

text \<open>\<^verbatim>\<open>Int(nil)\<close>: truncation towards zero; the nil pointer for an infinity.\<close>

fun bf_int :: "bigfloat \<Rightarrow> big_int option" where
  "bf_int (BF p x) = Some (trunc x)"
| "bf_int (BInf p s) = None"

lemma trunc_nonneg: "0 \<le> x \<Longrightarrow> 0 \<le> trunc x"
  by (simp add: trunc_def)

lemma trunc_le_int: "0 \<le> x \<Longrightarrow> x \<le> of_int n \<Longrightarrow> trunc x \<le> n"
  by (simp add: trunc_def floor_le_iff)

lemma trunc_of_int [simp]: "trunc (of_int n) = n"
  by (simp add: trunc_def)

text \<open>
  An integer of at most \<open>p\<close> bits is a number of precision \<open>p\<close>; so rounding to \<open>p\<close> bits
  cannot cross it.
\<close>

lemma on_grid_int:
  assumes "nat (bitlen \<bar>n\<bar>) \<le> p" "0 < p"
  shows "on_grid (bf_unit p) (of_int n)"
proof (cases "n = 0")
  case False
  have pos: "0 < \<bar>n\<bar>" using False by simp
  let ?x = "of_int \<bar>n\<bar> :: rat"
  have "2 powi ilog2 ?x \<le> ?x" using ilog2_bounds(1) [of ?x] False by simp
  also have "?x < 2 powi bitlen \<bar>n\<bar>" by (rule bitlen_powi(2) [OF pos])
  finally have "ilog2 ?x < bitlen \<bar>n\<bar>" by (simp only: powi_less_iff)
  then have "ilog2 \<bar>of_int n :: rat\<bar> < int p" using assms(1) by simp
  then have "bf_unit p (ilog2 \<bar>of_int n :: rat\<bar>) \<le> 0"
    using assms(2) by (simp add: bf_unit_def)
  then show ?thesis by (intro on_gridI [where k = n and u = 0]) simp_all
qed (simp add: on_grid_def)

lemma bf_round_le_int:
  assumes "nat (bitlen \<bar>n\<bar>) \<le> p" "0 < p" "x \<le> of_int n"
  shows "bf_round p x \<le> of_int n"
  unfolding bf_round_def by (rule bf.round_le [OF assms(3) on_grid_int [OF assms(1,2)]])

lemma bf_round_ge_int:
  assumes "nat (bitlen \<bar>n\<bar>) \<le> p" "0 < p" "of_int n \<le> x"
  shows "of_int n \<le> bf_round p x"
  unfolding bf_round_def by (rule bf.round_ge [OF assms(3) on_grid_int [OF assms(1,2)]])

lemma bf_round_int: "nat (bitlen \<bar>n\<bar>) \<le> p \<Longrightarrow> 0 < p \<Longrightarrow> bf_round p (of_int n) = of_int n"
  using on_grid_int [of n p] by (simp add: bf_round_def on_grid_def)

lemma bf_round_nonneg: "0 \<le> x \<Longrightarrow> 0 \<le> bf_round p x"
  unfolding bf_round_def by (rule round_grid_nonneg)

lemma bf_round_zero [simp]: "bf_round p 0 = 0"
  by (simp add: bf_round_def)

lemma bf_round_error:
  assumes "0 < p"
  shows "\<bar>bf_round p x - x\<bar> \<le> \<bar>x\<bar> / 2 ^ p"
proof (cases "x = 0")
  case False
  have "\<bar>bf_round p x - x\<bar> \<le> 2 powi (bf_unit p (ilog2 \<bar>x\<bar>) - 1)"
    unfolding bf_round_def by (rule round_grid_error [OF False])
  also have "\<dots> = 2 powi ilog2 \<bar>x\<bar> / 2 ^ p"
    using assms by (simp add: bf_unit_def power_int_diff of_nat_diff)
  also have "\<dots> \<le> \<bar>x\<bar> / 2 ^ p"
    using ilog2_bounds(1) [of "\<bar>x\<bar>"] False by (intro divide_right_mono) auto
  finally show ?thesis .
qed simp

lemma trunc_error: "0 \<le> x \<Longrightarrow> x - 1 < of_int (trunc x) \<and> of_int (trunc x) \<le> x"
  by (simp add: trunc_def) linarith

end
