(* ===== verification/Staking.thy ===== *)
theory Staking
  imports BigFloat Codec
begin

text \<open>
  The staking manager, \<^verbatim>\<open>internal/staking/manager.go\<close>: stakes, delegations and slashing.
  The state of \<^verbatim>\<open>Manager\<close> is the record \<open>StakingManager\<close>; every method takes the lock for
  its whole body, so each is one step. \<^verbatim>\<open>time.Now()\<close> is an argument \<open>now\<close>. Amounts are
  unbounded integers (\<^verbatim>\<open>*big.Int\<close>); \<^verbatim>\<open>Register\<close> and \<^verbatim>\<open>Delegate\<close> copy the caller's amount,
  so no amount is shared. Log lines are not modelled, but the amounts in them are.
\<close>

section \<open>Data\<close>

record Stake =
  st_Validator :: address
  st_Amount :: big_int
  st_StakedAt :: go_time
  st_IsActive :: bool
  st_Rewards :: big_int
  st_SlashCount :: goint

record Delegation =
  dl_Delegator :: address
  dl_Validator :: address
  dl_Amount :: big_int
  dl_DelegatedAt :: go_time

record StakingManager =
  stakes :: "address \<rightharpoonup> Stake"
  delegations :: "address \<rightharpoonup> Delegation list"
  minStake :: big_int

datatype staking_error =
    BelowMinimum big_int big_int
  | AlreadyRegistered address
  | NotActive address
  | NotFound address

section \<open>Operations\<close>

definition NewStakingManager :: "uint64 \<Rightarrow> StakingManager" where
  "NewStakingManager minStakeINSO =
     \<lparr>stakes = Map.empty, delegations = Map.empty, minStake = uint minStakeINSO * 10 ^ 18\<rparr>"

definition RegisterStake ::
    "StakingManager \<Rightarrow> address \<Rightarrow> big_int \<Rightarrow> go_time \<Rightarrow> (staking_error, StakingManager) go_result" where
  "RegisterStake m validator amount now =
     (if amount < minStake m then Err (BelowMinimum amount (minStake m))
      else if stakes m validator \<noteq> None then Err (AlreadyRegistered validator)
      else Ok (m\<lparr>stakes := (stakes m)(validator \<mapsto>
        \<lparr>st_Validator = validator, st_Amount = amount, st_StakedAt = now, st_IsActive = True,
         st_Rewards = 0, st_SlashCount = 0\<rparr>)\<rparr>))"

definition delegations_of :: "StakingManager \<Rightarrow> address \<Rightarrow> Delegation list" where
  "delegations_of m v = (case delegations m v of None \<Rightarrow> [] | Some ds \<Rightarrow> ds)"

definition Delegate ::
    "StakingManager \<Rightarrow> address \<Rightarrow> address \<Rightarrow> big_int \<Rightarrow> go_time \<Rightarrow> (staking_error, StakingManager) go_result" where
  "Delegate m delegator validator amount now = (case stakes m validator of
     None \<Rightarrow> Err (NotActive validator)
   | Some stake \<Rightarrow>
       if \<not> st_IsActive stake then Err (NotActive validator)
       else Ok (m\<lparr>delegations := (delegations m)(validator \<mapsto> delegations_of m validator @
                   [\<lparr>dl_Delegator = delegator, dl_Validator = validator, dl_Amount = amount,
                     dl_DelegatedAt = now\<rparr>]),
                 stakes := (stakes m)(validator \<mapsto> stake\<lparr>st_Amount := st_Amount stake + amount\<rparr>)\<rparr>))"

text \<open>The amount \<^verbatim>\<open>Slash\<close> takes: a product of big floats, truncated.\<close>

definition slashInt :: "big_int \<Rightarrow> float64 \<Rightarrow> go_panic + big_int option" where
  "slashInt amount percentage = (case bf_set_float64 (fdiv percentage (Fin 100)) of
     Inl p \<Rightarrow> Inl p
   | Inr f \<Rightarrow> (case bf_mul (bf_set_int amount) f of Inl p \<Rightarrow> Inl p | Inr slashAmount \<Rightarrow> Inr (bf_int slashAmount)))"

definition Slash ::
    "StakingManager \<Rightarrow> address \<Rightarrow> float64 \<Rightarrow> string \<Rightarrow> (staking_error, StakingManager) go_result" where
  "Slash m validator percentage reason = (case stakes m validator of
     None \<Rightarrow> Err (NotFound validator)
   | Some stake \<Rightarrow> (case slashInt (st_Amount stake) percentage of
       Inl p \<Rightarrow> Panic p
     | Inr None \<Rightarrow> Panic NilPointer
     | Inr (Some k) \<Rightarrow>
         (let stake = stake\<lparr>st_Amount := st_Amount stake - k, st_SlashCount := st_SlashCount stake + 1\<rparr>;
              stake = (if st_Amount stake < minStake m then stake\<lparr>st_IsActive := False\<rparr> else stake)
          in Ok (m\<lparr>stakes := (stakes m)(validator \<mapsto> stake)\<rparr>))))"

definition GetStake :: "StakingManager \<Rightarrow> address \<Rightarrow> Stake option" where
  "GetStake m validator = stakes m validator"

definition TotalStaked :: "StakingManager \<Rightarrow> address list \<Rightarrow> big_int" where
  "TotalStaked m ks =
     fold (\<lambda>s total. if st_IsActive s then total + st_Amount s else total) (range_vals (stakes m) ks) 0"

definition ActiveValidators :: "StakingManager \<Rightarrow> address list \<Rightarrow> Stake list" where
  "ActiveValidators m ks =
     fold (\<lambda>s active. if st_IsActive s then active @ [s] else active) (range_vals (stakes m) ks) []"

section \<open>Amounts in log lines\<close>

text \<open>\<^verbatim>\<open>%.2f\<close> of a \<^verbatim>\<open>big.Float\<close>: the exact value rounded to two decimals, ties to even.\<close>

definition fixed2 :: "rat \<Rightarrow> string" where
  "fixed2 x = (let k = rne (100 * \<bar>x\<bar>) in
     (if x < 0 then [CHR ''-''] else []) @ decimal (k div 100) @ [CHR ''.'', digit_char (k div 10 mod 10), digit_char (k mod 10)])"

definition formatINSO :: "big_int \<Rightarrow> go_panic + string" where
  "formatINSO wei = (case bf_set_float64 (Fin (10 ^ 18)) of
     Inl p \<Rightarrow> Inl p
   | Inr unit \<Rightarrow> (case bf_quo (bf_set_int wei) unit of
       Inl p \<Rightarrow> Inl p
     | Inr (BF p x) \<Rightarrow> Inr (fixed2 x @ '' INSO'')
     | Inr (BInf p s) \<Rightarrow> Inr ((if s then ''+Inf'' else ''-Inf'') @ '' INSO'')))"

text \<open>A whole number of cents is printed exactly, although a hundredth is no binary fraction.\<close>

lemma formatINSO_cents:
  assumes "0 \<le> k" "k < 10 ^ 18"
  shows "formatINSO (k * 10 ^ 16) = Inr (decimal (k div 100) @ [CHR ''.'', digit_char (k div 10 mod 10), digit_char (k mod 10)] @ '' INSO'')"
proof -
  define p where "p = max (nat (bitlen \<bar>k * 10 ^ 16\<bar>)) 64"
  define x where "x = bf_round p (of_int k / 100)"
  have p: "64 \<le> p" by (simp add: p_def)
  have q: "of_int (k * 10 ^ 16) / 10 ^ 18 = (of_int k / 100 :: rat)" by simp
  have f: "formatINSO (k * 10 ^ 16) = Inr (fixed2 x @ '' INSO'')"
    unfolding formatINSO_def bf_set_float64_def bf_set_int_def p_def x_def using q by (simp add: max.assoc)
  have x0: "0 \<le> x" using assms(1) by (simp add: x_def bf_round_nonneg)
  have "\<bar>x - of_int k / 100\<bar> \<le> (of_int k / 100) / 2 ^ p"
    unfolding x_def using bf_round_error [of p "of_int k / 100"] p assms(1) by simp
  also have "\<dots> \<le> (of_int k / 100) / 2 ^ 64" using p assms(1) by (intro divide_left_mono power_increasing) auto
  also have "\<dots> < 1 / 200"
  proof -
    have "of_int k < (of_int (10 ^ 18) :: rat)" using assms(2) by (simp only: of_int_less_iff)
    then show ?thesis by simp
  qed
  finally have "\<bar>100 * x - of_int k\<bar> < 1 / 2" by (simp add: abs_if split: if_splits)
  then have "rne (100 * \<bar>x\<bar>) = k" using x0 by (intro rne_eqI) simp
  then show ?thesis using f x0 by (simp add: fixed2_def)
qed

section \<open>The manager as a state machine\<close>

datatype staking_op =
    OpRegister address big_int go_time
  | OpDelegate address address big_int go_time
  | OpSlash address float64 string

fun staking_call :: "StakingManager \<Rightarrow> staking_op \<Rightarrow> (staking_error, StakingManager) go_result" where
  "staking_call m (OpRegister v a now) = RegisterStake m v a now"
| "staking_call m (OpDelegate d v a now) = Delegate m d v a now"
| "staking_call m (OpSlash v p r) = Slash m v p r"

text \<open>An error or a panic leaves the manager as it was.\<close>

definition staking_step :: "StakingManager \<Rightarrow> staking_op \<Rightarrow> StakingManager" where
  "staking_step m x = (case staking_call m x of Ok m' \<Rightarrow> m' | _ \<Rightarrow> m)"

lemmas staking_defs = RegisterStake_def Delegate_def Slash_def Let_def staking_step_def

section \<open>Invariant\<close>

text \<open>
  Every stake is stored under its own address, an active stake is at least the minimum,
  and delegations are recorded under the registered validator they name.
\<close>

definition staking_inv :: "StakingManager \<Rightarrow> bool" where
  "staking_inv m \<longleftrightarrow>
     (\<forall>v s. stakes m v = Some s \<longrightarrow> st_Validator s = v \<and> (st_IsActive s \<longrightarrow> minStake m \<le> st_Amount s)) \<and>
     (\<forall>v ds. delegations m v = Some ds \<longrightarrow> stakes m v \<noteq> None \<and> (\<forall>d \<in> set ds. dl_Validator d = v))"

fun nonneg_delegation :: "staking_op \<Rightarrow> bool" where
  "nonneg_delegation (OpDelegate d v a now) = (0 \<le> a)"
| "nonneg_delegation _ = True"

lemma staking_inv_new [simp]: "staking_inv (NewStakingManager n)"
  by (simp add: staking_inv_def NewStakingManager_def)

lemma staking_inv_register [inv_intros]:
  "staking_inv m \<Longrightarrow> RegisterStake m v a now = Ok m' \<Longrightarrow> staking_inv m'"
  by (auto simp: staking_inv_def RegisterStake_def split: if_splits)

lemma staking_inv_delegate [inv_intros]:
  "staking_inv m \<Longrightarrow> 0 \<le> a \<Longrightarrow> Delegate m d v a now = Ok m' \<Longrightarrow> staking_inv m'"
  by (fastforce simp: staking_inv_def Delegate_def delegations_of_def
      split: option.splits if_splits)

lemma staking_inv_slash [inv_intros]:
  "staking_inv m \<Longrightarrow> Slash m v p r = Ok m' \<Longrightarrow> staking_inv m'"
  by (auto simp: staking_inv_def Slash_def Let_def split: option.splits sum.splits if_splits)

text \<open>
  What no operation undoes: the minimum is fixed, a registered validator stays
  registered, an inactive one stays inactive, and delegations are only appended.
\<close>

definition staking_le :: "StakingManager \<Rightarrow> StakingManager \<Rightarrow> bool" where
  "staking_le m m' \<longleftrightarrow> minStake m' = minStake m \<and>
     (\<forall>v s. stakes m v = Some s \<longrightarrow> (\<exists>s'. stakes m' v = Some s' \<and> (st_IsActive s' \<longrightarrow> st_IsActive s))) \<and>
     (\<forall>v. \<exists>ds. delegations_of m' v = delegations_of m v @ ds)"

lemma staking_le_refl: "staking_le m m"
  by (simp add: staking_le_def)

lemma staking_le_trans: "staking_le m m' \<Longrightarrow> staking_le m' m'' \<Longrightarrow> staking_le m m''"
  unfolding staking_le_def by (metis append_assoc)

lemma staking_le_step: "staking_le m (staking_step m x)"
  by (cases x) (auto simp: staking_le_def staking_defs delegations_of_def
      split: option.splits sum.splits if_splits)

interpretation staking: machine staking_step nonneg_delegation staking_inv staking_le
proof unfold_locales
  fix m x
  assume "staking_inv m" "nonneg_delegation x"
  then show "staking_inv (staking_step m x)"
    by (cases x) (auto simp: staking_step_def split: go_result.splits intro: inv_intros)
qed (auto intro: staking_le_refl staking_le_trans staking_le_step)

section \<open>Accounting\<close>

text \<open>
  What a validator's delegators have put in, and its own part: the amount of the stake
  less the delegations. Only slashing changes a validator's own part.
\<close>

definition delegated :: "StakingManager \<Rightarrow> address \<Rightarrow> big_int" where
  "delegated m v = (\<Sum>d\<leftarrow>delegations_of m v. dl_Amount d)"

definition own_kept :: "StakingManager \<Rightarrow> StakingManager \<Rightarrow> bool" where
  "own_kept m m' \<longleftrightarrow> (\<forall>v s. stakes m v = Some s \<longrightarrow>
     (\<exists>s'. stakes m' v = Some s' \<and> st_Amount s' - delegated m' v = st_Amount s - delegated m v))"

fun no_slash :: "staking_op \<Rightarrow> bool" where
  "no_slash (OpSlash v p r) = False"
| "no_slash _ = True"

lemma own_kept_step: "no_slash x \<Longrightarrow> own_kept m (staking_step m x)"
  by (cases x) (auto simp: own_kept_def staking_defs delegated_def delegations_of_def
      split: option.splits if_splits)

interpretation accounting: machine staking_step no_slash "\<lambda>_. True" own_kept
proof unfold_locales
  fix m m' m''
  assume "own_kept m m'" "own_kept m' m''"
  then show "own_kept m m''" unfolding own_kept_def by metis
qed (auto simp: own_kept_step, simp add: own_kept_def)

subsection \<open>Totals\<close>

lemma fold_total:
  "fold (\<lambda>s total. if st_IsActive s then total + st_Amount s else total) xs t =
   t + (\<Sum>s\<leftarrow>filter st_IsActive xs. st_Amount s)"
  by (induction xs arbitrary: t) auto

lemma fold_active:
  "fold (\<lambda>s active. if st_IsActive s then active @ [s] else active) xs as = as @ filter st_IsActive xs"
  by (induction xs arbitrary: as) auto

lemma TotalStaked_eq: "TotalStaked m ks = (\<Sum>s\<leftarrow>ActiveValidators m ks. st_Amount s)"
  by (simp add: TotalStaked_def ActiveValidators_def fold_total fold_active)

lemma ActiveValidators_eq: "ActiveValidators m ks = filter st_IsActive (range_vals (stakes m) ks)"
  by (simp add: ActiveValidators_def fold_active)

lemma ActiveValidators_perm:
  "range_order (stakes m) ks \<Longrightarrow> range_order (stakes m) ks' \<Longrightarrow>
   mset (ActiveValidators m ks) = mset (ActiveValidators m ks')"
  unfolding ActiveValidators_eq mset_filter by (metis mset_range_vals range_order_perm)

lemma sum_list_mset: "mset xs = mset ys \<Longrightarrow> (\<Sum>x\<leftarrow>xs. f x :: int) = (\<Sum>x\<leftarrow>ys. f x)"
  by (metis mset_map sum_mset_sum_list)

section \<open>How much a slash takes\<close>

lemma fdiv_percentage:
  assumes "between 0 100 p"
  obtains q x where "fdiv p (Fin 100) = Fin q" "p = Fin x" "0 \<le> q" "q \<le> 1" "is_f64 q"
    "0 \<le> x" "x \<le> 100" "round64 (x / 100) = Fin q"
proof -
  obtain x where x: "p = Fin x" "0 \<le> x" "x \<le> 100" using assms by (auto elim: betweenE)
  then have "between 0 1 (round64 (x / 100))" by (intro round64_between) auto
  then show ?thesis using x that by (auto elim!: betweenE)
qed

lemma slashInt_bounds:
  assumes "0 \<le> a" "between 0 100 p"
  obtains k where "slashInt a p = Inr (Some k)" "0 \<le> k" "k \<le> a"
proof -
  obtain q where q: "fdiv p (Fin 100) = Fin q" "0 \<le> q" "q \<le> 1"
    using assms(2) by (rule fdiv_percentage)
  let ?P = "max (max (nat (bitlen \<bar>a\<bar>)) 64) 53"
  let ?x = "bf_round ?P (of_int a * q)"
  have "of_int a * q \<le> of_int a" using assms(1) q by (simp add: mult_left_le)
  then have "?x \<le> of_int a" by (intro bf_round_le_int) auto
  moreover have "0 \<le> ?x" using assms(1) q by (intro bf_round_nonneg) simp
  moreover have "slashInt a p = Inr (Some (trunc ?x))"
    by (simp add: slashInt_def q bf_set_float64_def bf_set_int_def)
  ultimately show ?thesis using trunc_nonneg trunc_le_int by (intro that)
qed

lemma slashInt_all: "0 \<le> a \<Longrightarrow> slashInt a (Fin 100) = Inr (Some a)"
  by (simp add: slashInt_def round64_exact bf_set_float64_def bf_set_int_def bf_round_int)

lemma slashInt_none: "0 \<le> a \<Longrightarrow> slashInt a (Fin 0) = Inr (Some 0)"
  by (simp add: slashInt_def round64_exact bf_set_float64_def bf_set_int_def trunc_def)

text \<open>The slash is the stated percentage, up to one unit and a relative error of \<open>2 ^ -52\<close>.\<close>

lemma slashInt_error:
  assumes "0 \<le> a" "is_f64 x" "0 \<le> x" "x \<le> 100" "slashInt a (Fin x) = Inr (Some k)"
  shows "\<bar>of_int k - of_int a * (x / 100)\<bar> \<le> 1 + of_int a / (2 ^ 52 :: rat)"
proof -
  obtain q where q: "fdiv (Fin x) (Fin 100) = Fin q" "0 \<le> q" "q \<le> 1" "round64 (x / 100) = Fin q"
    using assms(2-4) fdiv_percentage [of "Fin x"] by auto
  let ?P = "max (max (nat (bitlen \<bar>a\<bar>)) 64) 53"
  let ?y = "of_int a * q" and ?A = "of_int a :: rat"
  let ?r = "bf_round ?P ?y"
  have k: "k = trunc ?r"
    using assms(5) by (simp add: slashInt_def q(1,4) bf_set_float64_def bf_set_int_def)
  have A: "0 \<le> ?A" using assms(1) by simp
  have y: "0 \<le> ?y" "?y \<le> ?A" using A q by (simp_all add: mult_left_le)
  have "?y - ?A * (x / 100) = ?A * (q - x / 100)" by (simp add: right_diff_distrib)
  then have "\<bar>?y - ?A * (x / 100)\<bar> = ?A * \<bar>q - x / 100\<bar>"
    using A by (simp only: abs_mult abs_of_nonneg)
  also have "\<dots> \<le> ?A * (1 / 2 ^ 53)"
    using A assms(3,4) q(4) by (intro mult_left_mono round64_error_unit) auto
  finally have e1: "\<bar>?y - ?A * (x / 100)\<bar> \<le> ?A / 2 ^ 53" by simp
  have "\<bar>?r - ?y\<bar> \<le> \<bar>?y\<bar> / 2 ^ ?P" by (rule bf_round_error) simp
  also have "\<dots> \<le> ?A / 2 ^ 53"
    using y by (intro frac_le power_increasing) auto
  finally have e2: "\<bar>?r - ?y\<bar> \<le> ?A / 2 ^ 53" .
  have "0 \<le> ?r" using y by (intro bf_round_nonneg)
  then have e3: "\<bar>of_int k - ?r\<bar> \<le> 1" using trunc_error [of ?r] by (simp add: k abs_le_iff)
  have "\<bar>of_int k - ?A * (x / 100)\<bar> \<le> \<bar>of_int k - ?r\<bar> + \<bar>?r - ?y\<bar> + \<bar>?y - ?A * (x / 100)\<bar>"
    by (rule abs_diff_chain)
  also have "\<dots> \<le> 1 + ?A / 2 ^ 53 + ?A / 2 ^ 53" by (intro add_mono e1 e2 e3)
  also have "\<dots> = 1 + ?A / 2 ^ 52" by simp
  finally show ?thesis .
qed

section \<open>Properties\<close>

text \<open>
  C7: a slash of between 0 and 100 percent never fails for a registered validator with a
  non-negative stake. It takes that percentage of the stake, up to one unit and a relative
  error of \<open>2 ^ -52\<close>, never leaves the stake negative or larger than before, counts the
  slash, deactivates the validator exactly when the rest is below the minimum, and touches
  nothing else.
\<close>

theorem Slash_percentage:
  assumes "stakes m v = Some s" "0 \<le> st_Amount s" "is_f64 x" "0 \<le> x" "x \<le> 100"
  shows "\<exists>m' s'. Slash m v (Fin x) r = Ok m' \<and> stakes m' = (stakes m)(v \<mapsto> s') \<and>
    delegations m' = delegations m \<and> minStake m' = minStake m \<and>
    0 \<le> st_Amount s' \<and> st_Amount s' \<le> st_Amount s \<and>
    \<bar>of_int (st_Amount s - st_Amount s') - of_int (st_Amount s) * (x / 100)\<bar>
       \<le> 1 + of_int (st_Amount s) / (2 ^ 52 :: rat) \<and>
    st_SlashCount s' = st_SlashCount s + 1 \<and>
    st_IsActive s' = (st_IsActive s \<and> minStake m \<le> st_Amount s')"
proof -
  obtain k where k: "slashInt (st_Amount s) (Fin x) = Inr (Some k)" "0 \<le> k" "k \<le> st_Amount s"
    using assms slashInt_bounds [of "st_Amount s" "Fin x"] by auto
  then show ?thesis
    using assms(1) slashInt_error [OF assms(2-5) k(1)]
    by (auto simp: Slash_def Let_def)
qed

definition example_staking :: StakingManager where
  "example_staking = (case RegisterStake (NewStakingManager 10) [1] (20 * 10 ^ 18) 0 of
     Ok m \<Rightarrow> m | _ \<Rightarrow> NewStakingManager 10)"

lemma example_staking_simps:
  "stakes example_staking = [[1] \<mapsto> \<lparr>st_Validator = [1], st_Amount = 20 * 10 ^ 18, st_StakedAt = 0,
     st_IsActive = True, st_Rewards = 0, st_SlashCount = 0\<rparr>]"
  "delegations example_staking = Map.empty" "minStake example_staking = 10 ^ 19"
  by (simp_all add: example_staking_def NewStakingManager_def RegisterStake_def)

theorem Slash_percentage_witness:
  "\<exists>m' s'. Slash example_staking [1] (Fin 60) [] = Ok m' \<and> stakes m' [1] = Some s' \<and>
     0 \<le> st_Amount s' \<and> st_Amount s' \<le> 20 * 10 ^ 18 \<and> st_IsActive s' = (10 ^ 19 \<le> st_Amount s')"
proof -
  have "is_f64 60" using is_f64_of_int [of 60] by simp
  from Slash_percentage [OF _ _ this, of example_staking "[1]" _ "[]"] show ?thesis
    by (fastforce simp: example_staking_simps simp del: of_int_diff)
qed

text \<open>
  C23: from a new manager, after any sequence of registrations, delegations of non-negative
  amounts and slashes of any percentage, every stake is stored under its own validator's
  address, every active validator has at least the minimum stake, and every delegation is
  recorded under a registered validator, the one it names. Deactivation is final and nothing is
  forgotten: whatever operations follow, a registered validator stays registered, an inactive one
  stays inactive, the minimum does not change and the delegations of a validator only grow at their end.
\<close>

theorem staking_run_invariant:
  assumes "list_all nonneg_delegation ops" "list_all nonneg_delegation ops'"
  shows "let m = run staking_step (NewStakingManager n) ops in staking_inv m \<and> staking_le m (run staking_step m ops')"
  using staking.run_inv [OF staking_inv_new assms(1)] staking.run_le [OF _ assms(2)] by (simp add: Let_def)

theorem staking_run_invariant_witness:
  "\<exists>m. m = run staking_step (NewStakingManager 10) [OpRegister [1] (10 ^ 19) 0, OpDelegate [2] [1] 5 1] \<and> staking_inv m \<and>
     staking_le m (run staking_step m [OpSlash [1] (Fin 60) [], OpDelegate [2] [1] 7 1])"
  using staking_run_invariant [of "[OpRegister [1] (10 ^ 19) 0, OpDelegate [2] [1] 5 1]" "[OpSlash [1] (Fin 60) [], OpDelegate [2] [1] 7 1]" 10]
  by (simp add: Let_def)

text \<open>
  C32: conservation: without slashing, whatever registrations and delegations (of any sign)
  are made, the amount of every stake less the delegations recorded for it never changes:
  each delegation adds exactly its amount to exactly one stake.
\<close>

theorem staking_conservation:
  assumes "list_all no_slash ops" "stakes m v = Some s"
  shows "\<exists>s'. stakes (run staking_step m ops) v = Some s' \<and>
    st_Amount s' - delegated (run staking_step m ops) v = st_Amount s - delegated m v"
  using accounting.run_le [where s = m and xs = ops] assms by (simp add: own_kept_def)

theorem staking_conservation_witness:
  "\<exists>s'. stakes (run staking_step example_staking [OpDelegate [2] [1] 7 1, OpDelegate [3] [1] 5 2]) [1] = Some s' \<and>
     st_Amount s' - delegated (run staking_step example_staking [OpDelegate [2] [1] 7 1, OpDelegate [3] [1] 5 2]) [1]
       = 20 * 10 ^ 18"
  using staking_conservation [of "[OpDelegate [2] [1] 7 1, OpDelegate [3] [1] 5 2]" example_staking "[1]"]
  by (simp add: example_staking_simps delegated_def [of example_staking] delegations_of_def [of example_staking])

text \<open>
  The total staked does not depend on the order in which the map of stakes is visited,
  and is the sum of the stakes of the active validators, each counted once; the list of
  active validators is the same up to order.
\<close>

lemma TotalStaked_order:
  assumes "range_order (stakes m) ks" "range_order (stakes m) ks'"
  shows "TotalStaked m ks = (\<Sum>v \<in> {v. \<exists>s. stakes m v = Some s \<and> st_IsActive s}. st_Amount (the (stakes m v))) \<and>
    TotalStaked m ks' = TotalStaked m ks \<and> mset (ActiveValidators m ks') = mset (ActiveValidators m ks)"
proof -
  let ?A = "\<lambda>v. \<exists>s. stakes m v = Some s \<and> st_IsActive s"
  let ?f = "\<lambda>v. st_Amount (the (stakes m v))"
  have d: "distinct ks" and dom: "set ks = dom (stakes m)"
    using assms by (auto simp: range_order_def)
  have "filter st_IsActive (range_vals (stakes m) xs) = map (the \<circ> stakes m) (filter ?A xs)" for xs
    by (induction xs) (auto split: option.splits)
  then have "TotalStaked m ks = sum_list (map ?f (filter ?A ks))"
    by (simp add: TotalStaked_eq ActiveValidators_eq comp_def)
  also have "\<dots> = sum ?f (set (filter ?A ks))"
    using d by (simp add: sum_list_distinct_conv_sum_set)
  also have "set (filter ?A ks) = {v. ?A v}" using dom by auto
  finally have 1: "TotalStaked m ks = sum ?f {v. ?A v}" .
  have 2: "mset (ActiveValidators m ks') = mset (ActiveValidators m ks)"
    by (rule ActiveValidators_perm [OF assms(2,1)])
  have "TotalStaked m ks' = TotalStaked m ks"
    unfolding TotalStaked_eq by (rule sum_list_mset [OF 2])
  with 1 2 show ?thesis by simp
qed

end
