(* ===== verification/Reputation.thy ===== *)
theory Reputation
  imports Float64
begin

text \<open>
  The reputation manager, \<^verbatim>\<open>internal/reputation/manager.go\<close>: XP, uptime and the
  sovereignty score of each validator. Every method holds the lock for its whole body and
  is one step; \<^verbatim>\<open>time.Now()\<close> is an argument. XP and the counters are \<^verbatim>\<open>uint64\<close> and wrap
  around; the score is computed in float64 (theory Float64).
\<close>

section \<open>Data\<close>

record XPConfig =
  MaxXP :: uint64
  BlockAttestationXP :: uint64
  UptimeBonusXP :: uint64
  SlashPenaltyXP :: uint64
  DecayRatePerDay :: float64

definition DefaultXPConfig :: XPConfig where
  "DefaultXPConfig = \<lparr>MaxXP = 100000, BlockAttestationXP = 10, UptimeBonusXP = 5,
     SlashPenaltyXP = 500, DecayRatePerDay = round64 (5 / 1000)\<rparr>"

record ValidatorReputation =
  vr_Address :: address
  vr_XP :: uint64
  vr_UptimeBps :: uint16
  vr_BlocksAttested :: uint64
  vr_BlocksMissed :: uint64
  vr_SlashCount :: uint64
  vr_SovereigntyScore :: float64
  vr_Tier :: uint8
  vr_LastActive :: go_time
  vr_JoinedAt :: go_time

record ReputationManager =
  rep_cfg :: XPConfig
  reps :: "address \<rightharpoonup> ValidatorReputation"

section \<open>Helpers\<close>

definition addXP :: "XPConfig \<Rightarrow> ValidatorReputation \<Rightarrow> uint64 \<Rightarrow> ValidatorReputation" where
  "addXP cfg rep amount =
     (let rep = rep\<lparr>vr_XP := vr_XP rep + amount\<rparr>
      in if MaxXP cfg < vr_XP rep then rep\<lparr>vr_XP := MaxXP cfg\<rparr> else rep)"

definition removeXP :: "ValidatorReputation \<Rightarrow> uint64 \<Rightarrow> ValidatorReputation" where
  "removeXP rep amount =
     (if vr_XP rep \<le> amount then rep\<lparr>vr_XP := 0\<rparr> else rep\<lparr>vr_XP := vr_XP rep - amount\<rparr>)"

definition updateUptime :: "ValidatorReputation \<Rightarrow> ValidatorReputation" where
  "updateUptime rep =
     (let total = vr_BlocksAttested rep + vr_BlocksMissed rep
      in if total = 0 then rep\<lparr>vr_UptimeBps := 10000\<rparr>
         else rep\<lparr>vr_UptimeBps := ucast ((vr_BlocksAttested rep * 10000) div total)\<rparr>)"

definition scoreTier :: "float64 \<Rightarrow> uint8" where
  "scoreTier score =
     (if fle (round64 (85 / 100)) score then 4
      else if fle (round64 (65 / 100)) score then 3
      else if fle (round64 (40 / 100)) score then 2
      else if fle (round64 (15 / 100)) score then 1
      else 0)"

definition tierName :: "uint8 \<Rightarrow> string" where
  "tierName tier =
     (if tier = 1 then ''Bronze'' else if tier = 2 then ''Silver'' else if tier = 3 then ''Gold''
      else if tier = 4 then ''Platinum'' else ''None'')"

section \<open>Operations\<close>

definition NewReputationManager :: "XPConfig option \<Rightarrow> ReputationManager" where
  "NewReputationManager cfg =
     \<lparr>rep_cfg = (case cfg of None \<Rightarrow> DefaultXPConfig | Some c \<Rightarrow> c), reps = Map.empty\<rparr>"

definition RegisterReputation ::
    "ReputationManager \<Rightarrow> address \<Rightarrow> go_time \<Rightarrow> go_time \<Rightarrow> ReputationManager" where
  "RegisterReputation m addr now now' =
     (if reps m addr \<noteq> None then m
      else m\<lparr>reps := (reps m)(addr \<mapsto>
        \<lparr>vr_Address = addr, vr_XP = 0, vr_UptimeBps = 10000, vr_BlocksAttested = 0,
         vr_BlocksMissed = 0, vr_SlashCount = 0, vr_SovereigntyScore = Fin 0, vr_Tier = 0,
         vr_LastActive = now', vr_JoinedAt = now\<rparr>)\<rparr>)"

definition update_rep ::
    "ReputationManager \<Rightarrow> address \<Rightarrow> (ValidatorReputation \<Rightarrow> ValidatorReputation) \<Rightarrow> ReputationManager" where
  "update_rep m addr f = (case reps m addr of
     None \<Rightarrow> m
   | Some rep \<Rightarrow> m\<lparr>reps := (reps m)(addr \<mapsto> f rep)\<rparr>)"

definition RecordAttestation :: "ReputationManager \<Rightarrow> address \<Rightarrow> go_time \<Rightarrow> ReputationManager" where
  "RecordAttestation m addr now = update_rep m addr (\<lambda>rep.
     addXP (rep_cfg m)
       (rep\<lparr>vr_BlocksAttested := vr_BlocksAttested rep + 1, vr_LastActive := now\<rparr>)
       (BlockAttestationXP (rep_cfg m)))"

definition RecordMissedBlock :: "ReputationManager \<Rightarrow> address \<Rightarrow> ReputationManager" where
  "RecordMissedBlock m addr = update_rep m addr (\<lambda>rep.
     updateUptime (rep\<lparr>vr_BlocksMissed := vr_BlocksMissed rep + 1\<rparr>))"

definition RecordSlash :: "ReputationManager \<Rightarrow> address \<Rightarrow> ReputationManager" where
  "RecordSlash m addr = update_rep m addr (\<lambda>rep.
     removeXP (rep\<lparr>vr_SlashCount := vr_SlashCount rep + 1\<rparr>) (SlashPenaltyXP (rep_cfg m)))"

definition RecordUptimeCheck :: "ReputationManager \<Rightarrow> address \<Rightarrow> go_time \<Rightarrow> ReputationManager" where
  "RecordUptimeCheck m addr now = update_rep m addr (\<lambda>rep.
     addXP (rep_cfg m) (rep\<lparr>vr_LastActive := now\<rparr>) (UptimeBonusXP (rep_cfg m)))"

text \<open>
  \<^verbatim>\<open>time.Since\<close> saturates at the range of a \<^verbatim>\<open>Duration\<close>, and \<^verbatim>\<open>Hours\<close> adds the whole hours to
  the fraction of an hour, each converted to float64 first.
\<close>

definition time_since :: "go_time \<Rightarrow> go_time \<Rightarrow> int" where
  "time_since now t = max (- (2 ^ 63)) (min (2 ^ 63 - 1) (now - t))"

definition duration_hours :: "int \<Rightarrow> float64" where
  "duration_hours d =
     fadd (f64_of_int (d sdiv 3600000000000)) (fdiv (f64_of_int (d smod 3600000000000)) (Fin 3600000000000))"

definition xp_norm :: "XPConfig \<Rightarrow> ValidatorReputation \<Rightarrow> float64" where
  "xp_norm cfg rep =
     (let xpNorm = fdiv (f64_of_uint64 (vr_XP rep)) (f64_of_uint64 (MaxXP cfg))
      in if flt (Fin 1) xpNorm then Fin 1 else xpNorm)"

definition uptime_norm :: "ValidatorReputation \<Rightarrow> float64" where
  "uptime_norm rep = fdiv (f64_of_int (uint (vr_UptimeBps rep))) (Fin 10000)"

definition longevity :: "ValidatorReputation \<Rightarrow> go_time \<Rightarrow> float64" where
  "longevity rep now =
     (let daysSinceJoin = fdiv (duration_hours (time_since now (vr_JoinedAt rep))) (Fin 24)
      in fmin (fdiv daysSinceJoin (Fin 365)) (Fin 1))"

definition ts_norm :: "float64 \<Rightarrow> float64" where
  "ts_norm tasteScore = (if flt (Fin 1) tasteScore then Fin 1 else tasteScore)"

definition weighted_score :: "float64 \<Rightarrow> float64 \<Rightarrow> float64 \<Rightarrow> float64 \<Rightarrow> float64" where
  "weighted_score xpNorm uptimeNorm longev tsNorm =
     fadd (fadd (fadd (fmul (round64 (4 / 10)) xpNorm) (fmul (round64 (3 / 10)) uptimeNorm))
       (fmul (round64 (2 / 10)) longev)) (fmul (round64 (1 / 10)) tsNorm)"

definition sovereignty_score :: "XPConfig \<Rightarrow> ValidatorReputation \<Rightarrow> float64 \<Rightarrow> go_time \<Rightarrow> float64" where
  "sovereignty_score cfg rep tasteScore now =
     weighted_score (xp_norm cfg rep) (uptime_norm rep) (longevity rep now) (ts_norm tasteScore)"

definition ComputeSovereignty ::
    "ReputationManager \<Rightarrow> address \<Rightarrow> float64 \<Rightarrow> float64 \<Rightarrow> go_time \<Rightarrow> float64 \<times> uint8 \<times> ReputationManager" where
  "ComputeSovereignty m addr stakeWei tasteScore now = (case reps m addr of
     None \<Rightarrow> (Fin 0, 0, m)
   | Some rep \<Rightarrow>
       let score = sovereignty_score (rep_cfg m) rep tasteScore now; tier = scoreTier score
       in (score, tier, m\<lparr>reps := (reps m)(addr \<mapsto> rep\<lparr>vr_SovereigntyScore := score, vr_Tier := tier\<rparr>)\<rparr>))"

definition GetReputation :: "ReputationManager \<Rightarrow> address \<Rightarrow> ValidatorReputation option" where
  "GetReputation m addr = reps m addr"

definition AllReputations :: "ReputationManager \<Rightarrow> address list \<Rightarrow> ValidatorReputation list" where
  "AllReputations m ks = range_vals (reps m) ks"

definition decay_rep :: "(float64 \<Rightarrow> uint64) \<Rightarrow> XPConfig \<Rightarrow> ValidatorReputation \<Rightarrow> ValidatorReputation" where
  "decay_rep impl cfg rep =
     (let decay = f64_to_uint64 impl (fmul (f64_of_uint64 (vr_XP rep)) (DecayRatePerDay cfg))
      in if vr_XP rep < decay then rep\<lparr>vr_XP := 0\<rparr> else rep\<lparr>vr_XP := vr_XP rep - decay\<rparr>)"

definition ApplyDecay :: "(float64 \<Rightarrow> uint64) \<Rightarrow> ReputationManager \<Rightarrow> address list \<Rightarrow> ReputationManager" where
  "ApplyDecay impl m ks = fold (\<lambda>k m. update_rep m k (decay_rep impl (rep_cfg m))) ks m"

section \<open>The sovereignty score\<close>

subsection \<open>The constants\<close>

lemma weight_consts:
  "round64 (4 / 10) = Fin (3602879701896397 / 9007199254740992)"
  "round64 (3 / 10) = Fin (5404319552844595 / 18014398509481984)"
  "round64 (2 / 10) = Fin (3602879701896397 / 18014398509481984)"
  "round64 (1 / 10) = Fin (3602879701896397 / 36028797018963968)"
  using round64_eval [of "-2" "4 / 10" 7205759403792794] round64_eval [of "-2" "3 / 10" 5404319552844595]
    round64_eval [of "-3" "2 / 10" 7205759403792794] round64_eval [of "-4" "1 / 10" 7205759403792794]
  by simp_all

lemma weight_sums:
  "round64 (12610078956637389 / 18014398509481984) = Fin (3152519739159347 / 4503599627370496)"
  "round64 (16212958658533785 / 18014398509481984) = Fin (2026619832316723 / 2251799813685248)"
  "round64 (36028797018963965 / 36028797018963968) = Fin (9007199254740991 / 9007199254740992)"
  using round64_eval [of "-1" "12610078956637389 / 18014398509481984" 6305039478318694]
    round64_eval [of "-1" "16212958658533785 / 18014398509481984" 8106479329266892]
    round64_eval [of "-1" "36028797018963965 / 36028797018963968" 9007199254740991]
  by simp_all

lemma tier_consts:
  "round64 (85 / 100) = Fin (7656119366529843 / 9007199254740992)"
  "round64 (65 / 100) = Fin (5854679515581645 / 9007199254740992)"
  "round64 (40 / 100) = Fin (3602879701896397 / 9007199254740992)"
  "round64 (15 / 100) = Fin (5404319552844595 / 36028797018963968)"
  using round64_eval [of "-1" "85 / 100" 7656119366529843] round64_eval [of "-1" "65 / 100" 5854679515581645]
    round64_eval [of "-2" "40 / 100" 7205759403792794] round64_eval [of "-3" "15 / 100" 5404319552844595]
  by simp_all

lemma between_fmul_const:
  assumes "round64 c = Fin w" "0 \<le> w" "between 0 1 v"
  shows "between 0 w (fmul (round64 c) v)"
proof -
  have "between w w (Fin w)"
    using round64_between_Fin [of c c c w w] assms(1) by simp
  then show ?thesis
    using assms by (intro fmul_between_nonneg [of w w _ 0 1]) auto
qed

lemma fadd_between_Fin:
  assumes "between 0 b u" "between 0 d v" "round64 (b + d) = Fin h"
  shows "between 0 h (fadd u v)"
  using assms round64_between_Fin [of 0 _ "b + d" 0 h]
  by (auto elim!: betweenE simp: round64_exact)

text \<open>The largest score is \<open>1 - 2 ^ -53\<close>: the rounded weights do not add up to 1.\<close>

lemma weighted_score_bounds:
  assumes "between 0 1 a" "between 0 1 b" "between 0 1 c" "between 0 1 d"
  shows "between 0 (9007199254740991 / 9007199254740992) (weighted_score a b c d)"
proof -
  note t = weight_consts(1) [THEN between_fmul_const, OF _ assms(1)]
    weight_consts(2) [THEN between_fmul_const, OF _ assms(2)]
    weight_consts(3) [THEN between_fmul_const, OF _ assms(3)]
    weight_consts(4) [THEN between_fmul_const, OF _ assms(4)]
  have 1: "between 0 (3152519739159347 / 4503599627370496)
    (fadd (fmul (round64 (4 / 10)) a) (fmul (round64 (3 / 10)) b))"
    by (rule fadd_between_Fin [OF t(1) t(2)]) (simp_all add: weight_sums)
  have 2: "between 0 (2026619832316723 / 2251799813685248)
    (fadd (fadd (fmul (round64 (4 / 10)) a) (fmul (round64 (3 / 10)) b)) (fmul (round64 (2 / 10)) c))"
    by (rule fadd_between_Fin [OF 1 t(3)]) (simp_all add: weight_sums)
  show ?thesis
    unfolding weighted_score_def
    by (rule fadd_between_Fin [OF 2 t(4)]) (simp_all add: weight_sums)
qed

subsection \<open>The four factors\<close>

lemma f64_powi: "-1074 \<le> u \<Longrightarrow> u \<le> 970 \<Longrightarrow> is_f64 (2 powi u)"
  by (rule is_f64I [where k = 1]) auto

lemma f64_of_int_range:
  assumes "l \<le> n" "n \<le> 2 ^ 64" "0 \<le> l" "l \<le> 1"
  shows "between (of_int l) (2 powi 64) (f64_of_int n)"
proof (rule f64_of_int_between)
  show "is_f64 (of_int l)" using assms(3,4) by (intro is_f64_of_int) simp
  show "of_int l \<le> (of_int n :: rat)" using assms(1) by simp
  have "(of_int n :: rat) \<le> of_int (2 ^ 64)" using assms(2) by (simp only: of_int_le_iff)
  then show "(of_int n :: rat) \<le> 2 powi 64" by simp
qed (simp add: f64_powi del: power_int_numeral)

lemma f64_of_uint64_between: "between 0 (2 powi 64) (f64_of_uint64 w)"
  using f64_of_int_range [of 0 "uint w"] uint_bounded [of w]
  by (simp add: f64_of_uint64_def del: power_int_numeral)

lemma f64_of_uint64_ge1: "w \<noteq> 0 \<Longrightarrow> between 1 (2 powi 64) (f64_of_uint64 w)"
proof -
  assume "w \<noteq> 0"
  then have "uint w \<noteq> 0" by (simp add: uint_0_iff)
  then have "1 \<le> uint w" using uint_ge_0 [of w] by linarith
  then show ?thesis
    using f64_of_int_range [of 1 "uint w"] uint_bounded [of w]
    by (simp add: f64_of_uint64_def del: power_int_numeral)
qed

lemma xp_quot_between:
  assumes "MaxXP cfg \<noteq> 0"
  shows "between 0 (2 powi 64) (fdiv (f64_of_uint64 (vr_XP rep)) (f64_of_uint64 (MaxXP cfg)))"
proof -
  obtain x y where v: "f64_of_uint64 (vr_XP rep) = Fin x" "f64_of_uint64 (MaxXP cfg) = Fin y"
    "0 \<le> x" "x \<le> 2 powi 64" "1 \<le> y"
    using f64_of_uint64_between [of "vr_XP rep"] f64_of_uint64_ge1 [OF assms] by (auto elim!: betweenE)
  have "x / y \<le> x / 1" using v by (intro divide_left_mono) auto
  then have "0 \<le> x / y" "x / y \<le> 2 powi 64" using v by (simp_all del: power_int_numeral)
  then show ?thesis
    using v by (auto simp: f64_powi simp del: power_int_numeral intro!: round64_between)
qed

lemma xp_norm_between: "MaxXP cfg \<noteq> 0 \<Longrightarrow> between 0 1 (xp_norm cfg rep)"
  using xp_quot_between [of cfg rep] by (auto simp: xp_norm_def Let_def elim!: betweenE)

lemma ratio_between:
  assumes "0 \<le> n" "n \<le> d" "0 < d" "d \<le> 2 ^ 53"
  shows "between 0 1 (fdiv (f64_of_int n) (Fin (of_int d)))"
proof -
  have "(0::rat) \<le> of_int n" "(of_int n :: rat) \<le> of_int d" using assms by simp_all
  then have "between 0 1 (round64 (of_int n / of_int d))"
    using assms(3) by (intro round64_between) (auto simp: divide_le_eq)
  moreover have "is_f64 (of_int n)" using assms by (intro is_f64_of_int) simp
  ultimately show ?thesis using assms(3) by (simp add: f64_of_int_def round64_exact)
qed

lemma uptime_norm_between:
  assumes "vr_UptimeBps rep \<le> 10000"
  shows "between 0 1 (uptime_norm rep)"
proof -
  have "uint (vr_UptimeBps rep) \<le> 10000" using assms by (simp add: word_le_def)
  then show ?thesis
    using ratio_between [of "uint (vr_UptimeBps rep)" 10000] by (simp add: uptime_norm_def)
qed

text \<open>The time a validator has been registered, from the day it joined on.\<close>

lemma duration_hours_between:
  assumes "0 \<le> d" "d < 2 ^ 63"
  shows "between 0 (2 powi 65) (duration_hours d)"
proof -
  let ?H = "3600000000000 :: int"
  have q: "d sdiv ?H = d div ?H" "d smod ?H = d mod ?H"
    using assms by (simp_all add: signed_divide_int_def signed_modulo_int_def sgn_if)
  have "d div ?H \<le> d div 1" using assms by (intro zdiv_mono2) auto
  then have "d div ?H \<le> 2 ^ 64" using assms by simp
  then have 1: "between 0 (2 powi 64) (f64_of_int (d sdiv ?H))"
    using assms f64_of_int_range [of 0 "d div ?H"] by (simp add: q pos_imp_zdiv_nonneg_iff del: power_int_numeral)
  have 2: "between 0 1 (fdiv (f64_of_int (d smod ?H)) (Fin 3600000000000))"
    using ratio_between [of "d mod ?H" ?H] by (simp add: q less_imp_le)
  show ?thesis
    unfolding duration_hours_def
    by (rule fadd_between [OF 1 2]) (auto intro!: is_f64I [where k = 1 and u = 65])
qed

lemma longevity_between:
  assumes "vr_JoinedAt rep \<le> now"
  shows "between 0 1 (longevity rep now)"
proof -
  let ?d = "time_since now (vr_JoinedAt rep)"
  have "0 \<le> ?d" "?d < 2 ^ 63" using assms by (simp_all add: time_since_def)
  then obtain h where h: "duration_hours ?d = Fin h" "0 \<le> h" "h \<le> 2 powi 65"
    using duration_hours_between by (blast elim: betweenE)
  have f: "is_f64 (2 powi 65)" by (rule f64_powi) auto
  have "between 0 (2 powi 65) (round64 (h / 24))"
    using h f by (intro round64_between) auto
  then obtain days where days: "round64 (h / 24) = Fin days" "0 \<le> days" "days \<le> 2 powi 65"
    by (auto elim: betweenE)
  have "between 0 (2 powi 65) (round64 (days / 365))"
    using days f by (intro round64_between) auto
  then show ?thesis
    using h(1) days(1) by (auto simp: longevity_def fmin_def elim!: betweenE)
qed

lemma ts_norm_between: "valid_f64 ts \<Longrightarrow> fle (Fin 0) ts \<Longrightarrow> between 0 1 (ts_norm ts)"
  by (cases ts) (auto simp: ts_norm_def fle_def feq_def)

lemma sovereignty_score_between:
  assumes "MaxXP cfg \<noteq> 0" "vr_UptimeBps rep \<le> 10000" "vr_JoinedAt rep \<le> now"
    "valid_f64 ts" "fle (Fin 0) ts"
  shows "between 0 (9007199254740991 / 9007199254740992) (sovereignty_score cfg rep ts now)"
  unfolding sovereignty_score_def
  by (intro weighted_score_bounds xp_norm_between uptime_norm_between longevity_between ts_norm_between assms)

subsection \<open>Monotonicity\<close>

lemma weight_mono:
  assumes "round64 k = Fin w" "0 \<le> w" "w \<le> 1" "between 0 1 v" "between 0 1 v'" "fle v v'"
  obtains x x' where "fmul (round64 k) v = Fin x" "fmul (round64 k) v' = Fin x'" "0 \<le> x" "x \<le> x'" "x' \<le> 1"
proof -
  obtain y y' where y: "v = Fin y" "v' = Fin y'" using assms(4,5) by (auto elim!: betweenE)
  have "fle (fmul (Fin w) v) (fmul (Fin w) v')"
    using assms(2,6) unfolding y by (auto intro!: fle_round64_mono mult_left_mono)
  then show ?thesis
    using between_fmul_const [OF assms(1,2,4)] between_fmul_const [OF assms(1,2,5)] assms(1,3) that
    by (auto elim!: betweenE)
qed

lemma sum_mono:
  assumes "0 \<le> x" "x \<le> x'" "x' \<le> n" "0 \<le> y" "y \<le> y'" "y' \<le> 1" "is_f64 (n + 1)"
  obtains z z' where "round64 (x + y) = Fin z" "round64 (x' + y') = Fin z'" "0 \<le> z" "z \<le> z'" "z' \<le> n + 1"
  using assms round64_between [of 0 "x + y" "n + 1"] round64_between [of 0 "x' + y'" "n + 1"]
    fle_round64_mono [of "x + y" "x' + y'"] by (fastforce elim!: betweenE)

lemma weighted_score_mono:
  assumes "between 0 1 a" "between 0 1 b" "between 0 1 c" "between 0 1 d"
    and "between 0 1 a'" "between 0 1 b'" "between 0 1 c'" "between 0 1 d'"
    and "fle a a'" "fle b b'" "fle c c'" "fle d d'"
  shows "fle (weighted_score a b c d) (weighted_score a' b' c' d')"
proof -
  let ?W = "\<lambda>k v. fmul (round64 k) v"
  obtain x1 y1 where 1: "?W (4/10) a = Fin x1" "?W (4/10) a' = Fin y1" "0 \<le> x1" "x1 \<le> y1" "y1 \<le> 1"
    by (rule weight_mono [OF weight_consts(1) _ _ assms(1,5,9)]) auto
  obtain x2 y2 where 2: "?W (3/10) b = Fin x2" "?W (3/10) b' = Fin y2" "0 \<le> x2" "x2 \<le> y2" "y2 \<le> 1"
    by (rule weight_mono [OF weight_consts(2) _ _ assms(2,6,10)]) auto
  obtain x3 y3 where 3: "?W (2/10) c = Fin x3" "?W (2/10) c' = Fin y3" "0 \<le> x3" "x3 \<le> y3" "y3 \<le> 1"
    by (rule weight_mono [OF weight_consts(3) _ _ assms(3,7,11)]) auto
  obtain x4 y4 where 4: "?W (1/10) d = Fin x4" "?W (1/10) d' = Fin y4" "0 \<le> x4" "x4 \<le> y4" "y4 \<le> 1"
    by (rule weight_mono [OF weight_consts(4) _ _ assms(4,8,12)]) auto
  have f: "is_f64 (1 + 1)" "is_f64 (1 + 1 + 1)"
    using is_f64_of_int [of 2] is_f64_of_int [of 3] by simp_all
  obtain s t where st: "round64 (x1 + x2) = Fin s" "round64 (y1 + y2) = Fin t" "0 \<le> s" "s \<le> t" "t \<le> 1 + 1"
    by (rule sum_mono [OF 1(3-5) 2(3-5) f(1)])
  obtain s' t' where st': "round64 (s + x3) = Fin s'" "round64 (t + y3) = Fin t'" "s' \<le> t'"
    by (rule sum_mono [OF st(3-5) 3(3-5) f(2)])
  have "fle (round64 (s' + x4)) (round64 (t' + y4))"
    using st'(3) 4(4) by (intro fle_round64_mono add_mono)
  then show ?thesis
    unfolding weighted_score_def 1 2 3 4 by (simp add: st st')
qed

lemma fdiv_mono_pos:
  assumes "x \<le> x'" "0 < y"
  shows "fle (fdiv (Fin x) (Fin y)) (fdiv (Fin x') (Fin y))"
  using assms by (auto intro!: fle_round64_mono divide_right_mono)

text \<open>The factors grow with XP, uptime, time since joining and taste score.\<close>

lemma f64_of_int_mono: "m \<le> n \<Longrightarrow> fle (f64_of_int m) (f64_of_int n)"
  by (simp add: f64_of_int_def fle_round64_mono)

lemma xp_norm_mono:
  assumes "MaxXP cfg \<noteq> 0" "vr_XP rep \<le> vr_XP rep'"
  shows "fle (xp_norm cfg rep) (xp_norm cfg rep')"
proof -
  obtain y where y: "f64_of_uint64 (MaxXP cfg) = Fin y" "1 \<le> y" "y \<le> 2 powi 64"
    using f64_of_uint64_ge1 [OF assms(1)] by (auto elim: betweenE)
  obtain x x' where x: "f64_of_uint64 (vr_XP rep) = Fin x" "f64_of_uint64 (vr_XP rep') = Fin x'"
    using f64_of_uint64_between by (meson betweenE)
  have "x \<le> x'"
    using f64_of_int_mono [of "uint (vr_XP rep)" "uint (vr_XP rep')"] x assms(2)
    by (simp add: f64_of_uint64_def word_le_def)
  then have "fle (round64 (x / y)) (round64 (x' / y))"
    using y by (intro fle_round64_mono divide_right_mono) auto
  moreover obtain z z' where "round64 (x / y) = Fin z" "round64 (x' / y) = Fin z'"
    using xp_quot_between [OF assms(1), of rep] xp_quot_between [OF assms(1), of rep'] x y
    by (auto elim!: betweenE)
  ultimately show ?thesis using x y by (auto simp: xp_norm_def)
qed

lemma uptime_norm_mono:
  "vr_UptimeBps rep \<le> vr_UptimeBps rep' \<Longrightarrow> fle (uptime_norm rep) (uptime_norm rep')"
proof -
  assume a: "vr_UptimeBps rep \<le> vr_UptimeBps rep'"
  have e: "f64_of_int (uint w) = Fin (of_int (uint w))" for w :: uint16
    using uint_bounded [of w] unfolding f64_of_int_def by (intro round64_exact is_f64_of_int) simp
  have "(of_int (uint (vr_UptimeBps rep)) :: rat) \<le> of_int (uint (vr_UptimeBps rep'))"
    using a by (simp only: of_int_le_iff word_le_def)
  then show ?thesis unfolding uptime_norm_def e by (rule fdiv_mono_pos) simp
qed

lemma ts_norm_mono: "fle (Fin 0) ts \<Longrightarrow> fle ts ts' \<Longrightarrow> fle (ts_norm ts) (ts_norm ts')"
  by (cases ts; cases ts') (auto simp: ts_norm_def fle_def feq_def)

text \<open>The nanoseconds of an hour.\<close>

abbreviation hour :: int where
  "hour \<equiv> 3600000000000"

abbreviation hour_fraction :: "int \<Rightarrow> float64" where
  "hour_fraction d \<equiv> round64 (of_int (d mod hour) / of_int hour)"

lemma duration_hours_form:
  assumes "0 \<le> d" "d < 2 ^ 63"
  shows "duration_hours d = fadd (Fin (of_int (d div hour))) (hour_fraction d)"
    and "between 0 1 (hour_fraction d)"
proof -
  have q: "d sdiv hour = d div hour" "d smod hour = d mod hour"
    using assms(1) by (simp_all add: signed_divide_int_def signed_modulo_int_def sgn_if)
  have ex: "f64_of_int n = Fin (of_int n)" if "0 \<le> n" "n \<le> 2 ^ 53" for n
    unfolding f64_of_int_def using that by (intro round64_exact is_f64_of_int) simp
  have "d div hour \<le> 2 ^ 63 div hour" using assms(2) by (intro zdiv_mono1) auto
  also have "\<dots> \<le> 2 ^ 53" by simp
  finally have 1: "f64_of_int (d div hour) = Fin (of_int (d div hour))"
    using assms(1) by (intro ex) (auto simp: pos_imp_zdiv_nonneg_iff)
  have m: "0 \<le> d mod hour" "d mod hour < hour" by simp_all
  have "d mod hour \<le> 2 ^ 53" by (rule order.trans [OF less_imp_le [OF m(2)]]) simp
  then have 2: "f64_of_int (d mod hour) = Fin (of_int (d mod hour))" by (rule ex [OF m(1)])
  show "between 0 1 (hour_fraction d)"
    using m by (intro round64_between) (auto simp: divide_le_eq of_int_le_numeral_iff)
  show "duration_hours d = fadd (Fin (of_int (d div hour))) (hour_fraction d)"
    using 1 2 by (simp add: duration_hours_def q)
qed

lemma duration_hours_mono:
  assumes "0 \<le> d" "d \<le> d'" "d' < 2 ^ 63"
  shows "fle (duration_hours d) (duration_hours d')"
proof -
  have "d < 2 ^ 63" "0 \<le> d'" using assms by simp_all
  note f = duration_hours_form [OF assms(1) \<open>d < 2 ^ 63\<close>] duration_hours_form [OF \<open>0 \<le> d'\<close> assms(3)]
  obtain r r' where r: "hour_fraction d = Fin r" "hour_fraction d' = Fin r'" "0 \<le> r" "r \<le> 1" "0 \<le> r'" "r' \<le> 1"
    using f(2,4) by (auto elim!: betweenE)
  have "of_int (d div hour) + r \<le> of_int (d' div hour) + r'"
  proof (cases "d div hour = d' div hour")
    case True
    have "d mod hour \<le> d' mod hour"
      using assms(2) True div_mult_mod_eq [of d hour] div_mult_mod_eq [of d' hour] by linarith
    then have "fle (hour_fraction d) (hour_fraction d')"
      by (intro fle_round64_mono divide_right_mono) simp_all
    then show ?thesis using True r by simp
  next
    case False
    then have "d div hour + 1 \<le> d' div hour" using zdiv_mono1 [OF assms(2), of hour] by simp
    then have "of_int (d div hour) + 1 \<le> (of_int (d' div hour) :: rat)" by (metis of_int_1 of_int_add of_int_le_iff)
    then show ?thesis using r by linarith
  qed
  then show ?thesis unfolding f r by (simp add: fle_round64_mono)
qed

lemma longevity_mono:
  assumes "vr_JoinedAt rep \<le> now" "vr_JoinedAt rep' \<le> vr_JoinedAt rep"
  shows "fle (longevity rep now) (longevity rep' now)"
proof -
  let ?d = "time_since now (vr_JoinedAt rep)" and ?d' = "time_since now (vr_JoinedAt rep')"
  have d: "0 \<le> ?d" "?d \<le> ?d'" "?d' < 2 ^ 63" using assms by (simp_all add: time_since_def)
  obtain h h' where h: "duration_hours ?d = Fin h" "duration_hours ?d' = Fin h'"
    "0 \<le> h" "h \<le> 2 powi 65" "0 \<le> h'" "h' \<le> 2 powi 65"
    using duration_hours_between [of ?d] duration_hours_between [of ?d'] d by (auto elim!: betweenE)
  have f: "is_f64 (2 powi 65)" by (rule f64_powi) auto
  have b: "between 0 (2 powi 65) (round64 (x / k))" if "0 \<le> x" "x \<le> 2 powi 65" "1 \<le> k" for x k :: rat
  proof (rule round64_between [OF _ _ _ f])
    have "x / k \<le> x / 1" using that by (intro divide_left_mono) auto
    then show "x / k \<le> 2 powi 65" using that by (simp del: power_int_numeral)
  qed (use that in auto)
  obtain y y' where y: "round64 (h / 24) = Fin y" "round64 (h' / 24) = Fin y'"
    "0 \<le> y" "y \<le> 2 powi 65" "0 \<le> y'" "y' \<le> 2 powi 65"
    using b [of h 24] b [of h' 24] h by (auto elim!: betweenE)
  obtain z z' where z: "round64 (y / 365) = Fin z" "round64 (y' / 365) = Fin z'"
    using b [of y 365] b [of y' 365] y by (auto elim!: betweenE)
  have "h \<le> h'" using duration_hours_mono [OF d] h by simp
  then have "y \<le> y'" using fle_round64_mono [of "h / 24" "h' / 24"] y by simp
  then have "z \<le> z'" using fle_round64_mono [of "y / 365" "y' / 365"] z by simp
  then show ?thesis using h y z by (simp add: longevity_def fmin_def)
qed

lemma scoreTier_le: "scoreTier v \<le> 4"
  by (simp add: scoreTier_def)

lemma scoreTier_mono: "fle (Fin x) (Fin y) \<Longrightarrow> scoreTier (Fin x) \<le> scoreTier (Fin y)"
  unfolding scoreTier_def tier_consts fle_Fin by auto

section \<open>XP and uptime\<close>

lemma addXP_le_max: "vr_XP (addXP cfg rep a) \<le> MaxXP cfg"
  by (auto simp: addXP_def Let_def)

lemma addXP_exact:
  "unat (vr_XP rep) + unat a < 2 ^ 64 \<Longrightarrow>
   unat (vr_XP (addXP cfg rep a)) = min (unat (MaxXP cfg)) (unat (vr_XP rep) + unat a)"
  using unat_add_no_wrap [of "vr_XP rep" a]
  by (auto simp: addXP_def Let_def word_less_nat_alt min_def)

lemma addXP_frame [simp]:
  "vr_Address (addXP cfg rep a) = vr_Address rep" "vr_UptimeBps (addXP cfg rep a) = vr_UptimeBps rep"
  "vr_BlocksAttested (addXP cfg rep a) = vr_BlocksAttested rep"
  "vr_BlocksMissed (addXP cfg rep a) = vr_BlocksMissed rep" "vr_Tier (addXP cfg rep a) = vr_Tier rep"
  by (simp_all add: addXP_def Let_def)

lemma removeXP_exact: "unat (vr_XP (removeXP rep a)) = unat (vr_XP rep) - unat a"
  by (auto simp: removeXP_def word_le_nat_alt unat_sub)

lemma removeXP_le: "vr_XP (removeXP rep a) \<le> vr_XP rep"
  by (simp add: word_le_nat_alt removeXP_exact)

lemma removeXP_frame [simp]:
  "vr_Address (removeXP rep a) = vr_Address rep" "vr_UptimeBps (removeXP rep a) = vr_UptimeBps rep"
  "vr_BlocksAttested (removeXP rep a) = vr_BlocksAttested rep"
  "vr_BlocksMissed (removeXP rep a) = vr_BlocksMissed rep" "vr_Tier (removeXP rep a) = vr_Tier rep"
  by (simp_all add: removeXP_def)

lemma updateUptime_frame [simp]:
  "vr_Address (updateUptime rep) = vr_Address rep" "vr_XP (updateUptime rep) = vr_XP rep"
  "vr_BlocksAttested (updateUptime rep) = vr_BlocksAttested rep"
  "vr_BlocksMissed (updateUptime rep) = vr_BlocksMissed rep" "vr_Tier (updateUptime rep) = vr_Tier rep"
  by (simp_all add: updateUptime_def Let_def)

lemma updateUptime_exact:
  assumes "10000 * (unat (vr_BlocksAttested rep) + unat (vr_BlocksMissed rep)) < 2 ^ 64"
    and "0 < unat (vr_BlocksAttested rep) + unat (vr_BlocksMissed rep)"
  shows "unat (vr_UptimeBps (updateUptime rep)) =
    10000 * unat (vr_BlocksAttested rep) div (unat (vr_BlocksAttested rep) + unat (vr_BlocksMissed rep))"
proof -
  let ?a = "vr_BlocksAttested rep" and ?m = "vr_BlocksMissed rep"
  have t: "unat (?a + ?m) = unat ?a + unat ?m" using assms(1) by (intro unat_add_no_wrap) simp
  have p: "unat (?a * 10000) = unat ?a * 10000"
    using assms(1) by (subst unat_mult_no_wrap) auto
  have le: "10000 * unat ?a div (unat ?a + unat ?m) \<le> 10000" using assms(2) by (intro ratio_le) auto
  have "?a + ?m \<noteq> 0" using t assms(2) by (metis unat_0 less_numeral_extra(3))
  moreover have "unat (?a * 10000 div (?a + ?m)) = 10000 * unat ?a div (unat ?a + unat ?m)"
    by (simp add: unat_div_distrib p t mult.commute)
  ultimately show ?thesis
    using le by (simp add: updateUptime_def Let_def unsigned_ucast_eq take_bit_eq_mod)
qed

lemma updateUptime_le:
  assumes "10000 * (unat (vr_BlocksAttested rep) + unat (vr_BlocksMissed rep)) < 2 ^ 64"
  shows "vr_UptimeBps (updateUptime rep) \<le> 10000"
proof (cases "unat (vr_BlocksAttested rep) + unat (vr_BlocksMissed rep) = 0")
  case True
  then show ?thesis by (simp add: updateUptime_def unat_eq_0)
next
  case False
  then show ?thesis
    using updateUptime_exact [OF assms] ratio_le [of "unat (vr_BlocksAttested rep) + unat (vr_BlocksMissed rep)"]
    by (simp add: word_le_nat_alt)
qed

lemma decay_rep_le: "vr_XP (decay_rep impl cfg rep) \<le> vr_XP rep"
  by (auto simp: decay_rep_def Let_def word_le_nat_alt unat_sub not_less)

lemma decay_rep_frame [simp]:
  "vr_Address (decay_rep impl cfg rep) = vr_Address rep" "vr_UptimeBps (decay_rep impl cfg rep) = vr_UptimeBps rep"
  "vr_BlocksAttested (decay_rep impl cfg rep) = vr_BlocksAttested rep"
  "vr_BlocksMissed (decay_rep impl cfg rep) = vr_BlocksMissed rep" "vr_Tier (decay_rep impl cfg rep) = vr_Tier rep"
  by (simp_all add: decay_rep_def Let_def)

section \<open>The manager as a state machine\<close>

datatype reputation_op =
    RepRegister address go_time go_time
  | RepAttestation address go_time
  | RepMissedBlock address
  | RepSlash address
  | RepUptimeCheck address go_time
  | RepSovereignty address float64 float64 go_time
  | RepDecay "float64 \<Rightarrow> uint64" "address list"

fun reputation_step :: "ReputationManager \<Rightarrow> reputation_op \<Rightarrow> ReputationManager" where
  "reputation_step m (RepRegister a now now') = RegisterReputation m a now now'"
| "reputation_step m (RepAttestation a now) = RecordAttestation m a now"
| "reputation_step m (RepMissedBlock a) = RecordMissedBlock m a"
| "reputation_step m (RepSlash a) = RecordSlash m a"
| "reputation_step m (RepUptimeCheck a now) = RecordUptimeCheck m a now"
| "reputation_step m (RepSovereignty a st ts now) = snd (snd (ComputeSovereignty m a st ts now))"
| "reputation_step m (RepDecay impl ks) = ApplyDecay impl m ks"

definition rep_ok :: "XPConfig \<Rightarrow> nat \<Rightarrow> address \<Rightarrow> ValidatorReputation \<Rightarrow> bool" where
  "rep_ok cfg n a rep \<longleftrightarrow> vr_Address rep = a \<and> vr_XP rep \<le> MaxXP cfg \<and> vr_UptimeBps rep \<le> 10000 \<and>
     vr_Tier rep \<le> 4 \<and> unat (vr_BlocksAttested rep) + unat (vr_BlocksMissed rep) \<le> n"

definition reputation_inv :: "nat \<Rightarrow> ReputationManager \<Rightarrow> bool" where
  "reputation_inv n m \<longleftrightarrow> (\<forall>a rep. reps m a = Some rep \<longrightarrow> rep_ok (rep_cfg m) n a rep)"

text \<open>Ten thousand times the number of operations fits in 64 bits.\<close>

definition op_budget :: nat where
  "op_budget = 1844674407370955"

lemma rep_ok_mono: "rep_ok cfg n a rep \<Longrightarrow> n \<le> n' \<Longrightarrow> rep_ok cfg n' a rep"
  by (auto simp: rep_ok_def)

lemma reputation_inv_mono: "reputation_inv n m \<Longrightarrow> n \<le> n' \<Longrightarrow> reputation_inv n' m"
  by (auto simp: reputation_inv_def intro: rep_ok_mono)

lemma rep_cfg_update_rep [simp]: "rep_cfg (update_rep m a f) = rep_cfg m"
  by (simp add: update_rep_def split: option.splits)

lemma reps_update_rep: "reps (update_rep m a f) = (reps m)(a := map_option f (reps m a))"
  by (auto simp: update_rep_def fun_eq_iff split: option.splits)

lemma reputation_inv_update:
  assumes "reputation_inv n m" "n \<le> n'"
    and "\<And>rep. reps m a = Some rep \<Longrightarrow> rep_ok (rep_cfg m) n a rep \<Longrightarrow> rep_ok (rep_cfg m) n' a (f rep)"
  shows "reputation_inv n' (update_rep m a f)"
  using assms by (auto simp: reputation_inv_def reps_update_rep intro: rep_ok_mono split: if_splits)

lemma reputation_inv_step:
  assumes "reputation_inv n m" "n < op_budget"
  shows "reputation_inv (Suc n) (reputation_step m x)"
proof (cases x)
  case (RepRegister a now now')
  then show ?thesis
    using reputation_inv_mono [OF assms(1)]
    by (auto simp: RegisterReputation_def reputation_inv_def rep_ok_def)
next
  case (RepAttestation a now)
  then show ?thesis
    by (auto simp: RecordAttestation_def rep_ok_def addXP_le_max
        intro!: reputation_inv_update [OF assms(1)] unat_inc_sum)
next
  case (RepMissedBlock a)
  have "10000 * Suc n < 2 ^ 64" using assms(2) by (simp add: op_budget_def)
  then have b: "10000 * (p + q) < 2 ^ 64" if "p + q \<le> Suc n" for p q using that by simp
  show ?thesis
    using RepMissedBlock
    by (auto simp: RecordMissedBlock_def rep_ok_def
        intro!: reputation_inv_update [OF assms(1)] unat_inc_sum updateUptime_le b)
next
  case (RepSlash a)
  then show ?thesis
    by (auto simp: RecordSlash_def rep_ok_def intro!: reputation_inv_update [OF assms(1)] order.trans [OF removeXP_le])
next
  case (RepUptimeCheck a now)
  then show ?thesis
    by (auto simp: RecordUptimeCheck_def rep_ok_def addXP_le_max intro!: reputation_inv_update [OF assms(1)])
next
  case (RepSovereignty a st ts now)
  then show ?thesis
    using scoreTier_le reputation_inv_mono [OF assms(1), of "Suc n"]
    by (auto simp: ComputeSovereignty_def Let_def reputation_inv_def rep_ok_def split: option.splits)
next
  case (RepDecay impl ks)
  have 1: "reputation_inv n (update_rep m' a (decay_rep impl (rep_cfg m')))" if "reputation_inv n m'" for m' a
    using that by (rule reputation_inv_update) (auto simp: rep_ok_def intro: order.trans [OF decay_rep_le])
  have "reputation_inv n (ApplyDecay impl m' ks)" if "reputation_inv n m'" for m'
    using that unfolding ApplyDecay_def by (induction ks arbitrary: m') (simp_all add: 1)
  then show ?thesis using RepDecay reputation_inv_mono [of n _ "Suc n"] assms(1) by simp
qed

interpretation reputation: budget_machine reputation_step reputation_inv op_budget
  by unfold_locales (rule reputation_inv_step)

lemma reputation_inv_new [simp]: "reputation_inv 0 (NewReputationManager cfg)"
  by (simp add: reputation_inv_def NewReputationManager_def)

text \<open>The decay of the whole map does not depend on the order of the visit.\<close>

lemma fold_update_rep:
  "distinct ks \<Longrightarrow>
   reps (fold (\<lambda>k m. update_rep m k (f (rep_cfg m))) ks m) =
     (\<lambda>a. if a \<in> set ks then map_option (f (rep_cfg m)) (reps m a) else reps m a) \<and>
   rep_cfg (fold (\<lambda>k m. update_rep m k (f (rep_cfg m))) ks m) = rep_cfg m"
proof (induction ks arbitrary: m)
  case (Cons k ks)
  then show ?case
    using Cons.IH [of "update_rep m k (f (rep_cfg m))"] by (auto simp: reps_update_rep fun_eq_iff)
qed auto

lemma ApplyDecay_reps:
  "range_order (reps m) ks \<Longrightarrow> reps (ApplyDecay impl m ks) = (\<lambda>a. map_option (decay_rep impl (rep_cfg m)) (reps m a))"
  unfolding ApplyDecay_def using fold_update_rep [of ks "decay_rep impl" m]
  by (auto simp: range_order_def fun_eq_iff domIff)

lemma ApplyDecay_cfg: "rep_cfg (ApplyDecay impl m ks) = rep_cfg m"
  unfolding ApplyDecay_def by (induction ks arbitrary: m) auto

section \<open>Properties\<close>

definition example_rep :: ValidatorReputation where
  "example_rep = \<lparr>vr_Address = [7], vr_XP = 40, vr_UptimeBps = 9000, vr_BlocksAttested = 9,
     vr_BlocksMissed = 1, vr_SlashCount = 0, vr_SovereigntyScore = Fin 0, vr_Tier = 0,
     vr_LastActive = 5, vr_JoinedAt = 3\<rparr>"

definition example_reps :: ReputationManager where
  "example_reps = \<lparr>rep_cfg = DefaultXPConfig, reps = [[7] \<mapsto> example_rep]\<rparr>"

text \<open>
  C9: the sovereignty score of a registered validator, as computed in float64, is a number
  between 0 and \<open>1 - 2 ^ -53\<close> (the rounded weights do not add up to 1, so 1 itself is never
  reached), for any XP, any uptime of at most 10000 basis points, any time of joining that
  is not in the future and any taste score that is not negative, infinite ones included. The
  score and its tier are returned and stored, and nothing else changes.
\<close>

theorem ComputeSovereignty_bounds:
  assumes "reps m addr = Some rep" "MaxXP (rep_cfg m) \<noteq> 0" "vr_UptimeBps rep \<le> 10000"
    "vr_JoinedAt rep \<le> now" "valid_f64 ts" "fle (Fin 0) ts"
  shows "\<exists>x. ComputeSovereignty m addr st ts now =
      (Fin x, scoreTier (Fin x), m\<lparr>reps := (reps m)(addr \<mapsto> rep\<lparr>vr_SovereigntyScore := Fin x, vr_Tier := scoreTier (Fin x)\<rparr>)\<rparr>) \<and>
    is_f64 x \<and> 0 \<le> x \<and> x \<le> 1 - 1 / 2 ^ 53 \<and> scoreTier (Fin x) \<le> 4"
  using sovereignty_score_between [OF assms(2-6)] assms(1)
  by (auto simp: ComputeSovereignty_def Let_def scoreTier_le elim!: betweenE)

theorem ComputeSovereignty_bounds_witness:
  "\<exists>x. fst (ComputeSovereignty example_reps [7] (Fin 1) (Fin (1 / 2)) 100) = Fin x \<and> 0 \<le> x \<and> x \<le> 1 - 1 / 2 ^ 53"
proof -
  have "is_f64 (1 / 2)" by (rule is_f64I [where k = 1 and u = "-1"]) (auto simp: power_int_minus)
  then show ?thesis
    using ComputeSovereignty_bounds [of example_reps "[7]" example_rep 100 "Fin (1 / 2)" "Fin 1"]
    by (auto simp: example_reps_def example_rep_def DefaultXPConfig_def)
qed

text \<open>
  C25: the score is fair: of two validators under the same configuration, the one with at
  least as much XP, uptime, time since joining and taste score has at least as large a
  score, and at least as high a tier. No rounding step of the float64 computation breaks this.
\<close>

theorem sovereignty_score_monotone:
  assumes "MaxXP cfg \<noteq> 0" "vr_UptimeBps rep \<le> vr_UptimeBps rep'" "vr_UptimeBps rep' \<le> 10000"
    "vr_XP rep \<le> vr_XP rep'" "vr_JoinedAt rep' \<le> vr_JoinedAt rep" "vr_JoinedAt rep \<le> now"
    "valid_f64 ts" "valid_f64 ts'" "fle (Fin 0) ts" "fle ts ts'"
  shows "fle (sovereignty_score cfg rep ts now) (sovereignty_score cfg rep' ts' now) \<and>
    scoreTier (sovereignty_score cfg rep ts now) \<le> scoreTier (sovereignty_score cfg rep' ts' now)"
proof -
  have a: "vr_UptimeBps rep \<le> 10000" "vr_JoinedAt rep' \<le> now"
    using assms by (auto intro: order.trans)
  have ts': "fle (Fin 0) ts'"
    using assms(9,10) by (cases ts; cases ts') (auto simp: fle_def feq_def)
  have le: "fle (sovereignty_score cfg rep ts now) (sovereignty_score cfg rep' ts' now)"
    unfolding sovereignty_score_def
    by (intro weighted_score_mono xp_norm_between uptime_norm_between longevity_between ts_norm_between
        xp_norm_mono uptime_norm_mono longevity_mono ts_norm_mono a ts' assms)
  moreover obtain x y where "sovereignty_score cfg rep ts now = Fin x" "sovereignty_score cfg rep' ts' now = Fin y"
    using sovereignty_score_between [OF assms(1) a(1) assms(6,7,9)]
      sovereignty_score_between [OF assms(1,3) a(2) assms(8) ts'] by (auto elim!: betweenE)
  ultimately show ?thesis by (simp add: scoreTier_mono)
qed

theorem sovereignty_score_monotone_witness:
  "fle (sovereignty_score DefaultXPConfig example_rep (Fin 0) 100)
       (sovereignty_score DefaultXPConfig (example_rep\<lparr>vr_XP := 4000\<rparr>) PInf 100)"
  by (rule sovereignty_score_monotone [THEN conjunct1]) (simp_all add: example_rep_def DefaultXPConfig_def)

text \<open>
  C24: from a new manager, after any sequence of fewer than \<open>1.8 * 10 ^ 15\<close> operations of any
  kind (the range in which the uptime product cannot wrap around), every record is stored
  under its own address, its XP is at most the configured maximum, its uptime at most 10000
  basis points, its tier at most 4, and its block counters do not exceed the number of operations.
\<close>

theorem reputation_run_invariant:
  assumes "length ops \<le> op_budget"
  shows "reputation_inv (length ops) (run reputation_step (NewReputationManager cfg) ops)"
  using reputation.run_budget [OF reputation_inv_new, of ops cfg] assms by simp

theorem reputation_run_invariant_witness:
  "reputation_inv 2 (run reputation_step (NewReputationManager None) [RepRegister [7] 0 0, RepMissedBlock [7]])"
  using reputation_run_invariant [of "[RepRegister [7] 0 0, RepMissedBlock [7]]" None]
  by (simp add: op_budget_def numeral_2_eq_2)

text \<open>
  The daily decay gives the same result in whatever order the map is visited: each
  record is decayed once, on its own, no XP grows (whatever the conversion of an
  out-of-range float gives), and nothing but XP changes.
\<close>

lemma ApplyDecay_each:
  assumes "range_order (reps m) ks"
  shows "reps (ApplyDecay impl m ks) a = map_option (decay_rep impl (rep_cfg m)) (reps m a) \<and>
    rep_cfg (ApplyDecay impl m ks) = rep_cfg m \<and>
    (\<forall>rep. vr_XP (decay_rep impl (rep_cfg m) rep) \<le> vr_XP rep \<and>
       (\<exists>x. decay_rep impl (rep_cfg m) rep = rep\<lparr>vr_XP := x\<rparr>))"
  using ApplyDecay_reps [OF assms] decay_rep_le
  by (auto simp: ApplyDecay_cfg decay_rep_def Let_def)

end
