(* ===== verification/Config.thy ===== *)
theory Config
  imports JsonPrint
begin

text \<open>
  The configuration, \<^verbatim>\<open>internal/config/config.go\<close>: one record per section, the defaults, and
  \<^verbatim>\<open>Load\<close>. The file system and the environment are arguments. \<^verbatim>\<open>os.ExpandEnv\<close> of the standard
  library is modelled; the YAML package is not part of the repository and is an argument: it
  takes the text and the configuration it overwrites, and fails with \<open>None\<close>.
\<close>

section \<open>Sections\<close>

record ValidatorConfig =
  DataDir :: string
  ListenAddr :: string
  P2PPort :: goint
  MinStake :: uint64
  KeyFile :: string
  Bootnodes :: "string list"

record SequencerConfig =
  seq_RPCURL :: string
  seq_WSURL :: string

record L1Config =
  l1_RPCURL :: string
  l1_ChainID :: uint64
  l1_StakingContract :: string

record TasteScoreConfig =
  ts_Enabled :: bool
  ts_APIURL :: string
  ts_APIKey :: string

record ConsensusConfig =
  BlockTimeout :: goint
  AttestationDelay :: goint
  SlashingEnabled :: bool
  MinValidators :: goint

record LoggingConfig =
  log_Level :: string
  log_Format :: string

record MetricsConfig =
  mc_Enabled :: bool
  mc_Addr :: string

record SovereigntyConfig =
  sov_Enabled :: bool
  sov_XPDecayRate :: float64
  sov_AttestationXP :: uint64
  sov_UptimeBonusXP :: uint64
  sov_SlashPenaltyXP :: uint64

record AdaptiveBlockConfig =
  ab_Enabled :: bool
  ab_MinGasLimit :: uint64
  ab_MaxGasLimit :: uint64
  ab_MinMaxTx :: goint
  ab_MaxMaxTx :: goint

record Config =
  cfg_Validator :: ValidatorConfig
  cfg_Sequencer :: SequencerConfig
  cfg_L1 :: L1Config
  cfg_TasteScore :: TasteScoreConfig
  cfg_Consensus :: ConsensusConfig
  cfg_Sovereignty :: SovereigntyConfig
  cfg_AdaptiveBlock :: AdaptiveBlockConfig
  cfg_Logging :: LoggingConfig
  cfg_Metrics :: MetricsConfig

definition DefaultConfig :: Config where
  "DefaultConfig = \<lparr>
     cfg_Validator = \<lparr>DataDir = ''/data'', ListenAddr = ''0.0.0.0:8547'', P2PPort = 30303,
       MinStake = 10000, KeyFile = [], Bootnodes = []\<rparr>,
     cfg_Sequencer = \<lparr>seq_RPCURL = ''http://localhost:8545'', seq_WSURL = ''ws://localhost:8546''\<rparr>,
     cfg_L1 = \<lparr>l1_RPCURL = ''http://localhost:8551'', l1_ChainID = 1, l1_StakingContract = []\<rparr>,
     cfg_TasteScore = \<lparr>ts_Enabled = True, ts_APIURL = ''https://api.insoblokai.io'', ts_APIKey = []\<rparr>,
     cfg_Consensus = \<lparr>BlockTimeout = 2000000000, AttestationDelay = 200000000, SlashingEnabled = True,
       MinValidators = 1\<rparr>,
     cfg_Sovereignty = \<lparr>sov_Enabled = True, sov_XPDecayRate = round64 (5 / 1000), sov_AttestationXP = 10,
       sov_UptimeBonusXP = 5, sov_SlashPenaltyXP = 500\<rparr>,
     cfg_AdaptiveBlock = \<lparr>ab_Enabled = True, ab_MinGasLimit = 15000000, ab_MaxGasLimit = 60000000,
       ab_MinMaxTx = 1000, ab_MaxMaxTx = 10000\<rparr>,
     cfg_Logging = \<lparr>log_Level = ''info'', log_Format = ''json''\<rparr>,
     cfg_Metrics = \<lparr>mc_Enabled = True, mc_Addr = ''0.0.0.0:6061''\<rparr>\<rparr>"

section \<open>Expansion of environment variables\<close>

definition isShellSpecialVar :: "char \<Rightarrow> bool" where
  "isShellSpecialVar c \<longleftrightarrow> c \<in> set ''*#$@!?-'' \<or> is_digit c"

definition isAlphaNum :: "char \<Rightarrow> bool" where
  "isAlphaNum c \<longleftrightarrow> c = CHR ''_'' \<or> is_digit c \<or> 97 \<le> code c \<and> code c \<le> 122 \<or> 65 \<le> code c \<and> code c \<le> 90"

text \<open>The name after a dollar sign and the number of bytes it takes.\<close>

definition getShellName :: "string \<Rightarrow> string \<times> nat" where
  "getShellName s = (case s of
     [] \<Rightarrow> ([], 0)
   | c # t \<Rightarrow>
       if c = CHR ''{'' then
         (if 2 < length s \<and> isShellSpecialVar (s ! 1) \<and> s ! 2 = CHR ''}'' then ([s ! 1], 3)
          else (let name = takeWhile (\<lambda>x. x \<noteq> CHR ''}'') t in
            if name = t then ([], 1) else if name = [] then ([], 2) else (name, length name + 2)))
       else if isShellSpecialVar c then ([c], 1)
       else (takeWhile isAlphaNum s, length (takeWhile isAlphaNum s)))"

function ExpandEnv :: "(string \<Rightarrow> string) \<Rightarrow> string \<Rightarrow> string" where
  "ExpandEnv env s = (case s of
     [] \<Rightarrow> []
   | c # t \<Rightarrow>
       if c = CHR ''$'' \<and> t \<noteq> [] then
         (let (name, w) = getShellName t in
            (if name = [] \<and> 0 < w then [] else if name = [] then [c] else env name) @ ExpandEnv env (drop w t))
       else c # ExpandEnv env t)"
  by pat_completeness auto
termination
  by (relation "measure (length \<circ> snd)") auto

declare ExpandEnv.simps [simp del]

section \<open>Loading\<close>

datatype config_error = ReadConfig string | ParseConfig

definition Load ::
    "(string \<Rightarrow> string option) \<Rightarrow> (string \<Rightarrow> string) \<Rightarrow> (string \<Rightarrow> Config \<Rightarrow> Config option) \<Rightarrow>
      string \<Rightarrow> (config_error, Config) go_result" where
  "Load fs env yaml path = (case fs path of
     None \<Rightarrow> Err (ReadConfig path)
   | Some data \<Rightarrow> (case yaml (ExpandEnv env data) DefaultConfig of
       None \<Rightarrow> Err ParseConfig
     | Some cfg \<Rightarrow> Ok cfg))"

section \<open>Lemmas\<close>

lemma ExpandEnv_Nil [simp]: "ExpandEnv env [] = []"
  by (simp add: ExpandEnv.simps)

lemma ExpandEnv_plain: "c \<noteq> CHR ''$'' \<Longrightarrow> ExpandEnv env (c # t) = c # ExpandEnv env t"
  by (subst ExpandEnv.simps) simp

lemma ExpandEnv_no_dollar: "CHR ''$'' \<notin> set p \<Longrightarrow> ExpandEnv env (p @ s) = p @ ExpandEnv env s"
  by (induction p) (auto simp: ExpandEnv_plain)

lemma ExpandEnv_braces:
  assumes "name \<noteq> []" "CHR ''}'' \<notin> set name"
  shows "ExpandEnv env (''${'' @ name @ ''}'' @ s) = env name @ ExpandEnv env s"
proof -
  have tw: "takeWhile (\<lambda>x. x \<noteq> CHR ''}'') (name @ CHR ''}'' # s) = name"
    using assms(2) by (induction name) auto
  have d: "drop (length name + 2) (CHR ''{'' # name @ CHR ''}'' # s) = s" by simp
  obtain a n where n: "name = a # n" using assms(1) by (cases name) auto
  have "getShellName (CHR ''{'' # name @ CHR ''}'' # s) = (name, length name + 2)"
  proof (cases n)
    case Nil
    then show ?thesis using tw n by (simp add: getShellName_def)
  next
    case (Cons b m)
    then show ?thesis using tw n assms(2) by (auto simp: getShellName_def)
  qed
  then show ?thesis
    using assms(1) d by (subst ExpandEnv.simps) simp
qed

section \<open>The pieces of a template\<close>

text \<open>
  A file as \<^verbatim>\<open>os.ExpandEnv\<close> reads it: text without a dollar sign, references \<^verbatim>\<open>$NAME\<close> (or \<^verbatim>\<open>$\<close> and one
  of the special characters) and \<^verbatim>\<open>${NAME}\<close>, a dollar sign that no name follows, an empty pair of
  braces and an opening brace that is never closed.
\<close>

datatype piece = Text string | Name string | Braces string | Dollar | EmptyBraces | OpenBrace

fun piece_text :: "piece \<Rightarrow> string" where
  "piece_text (Text s) = s"
| "piece_text (Name n) = CHR ''$'' # n"
| "piece_text (Braces n) = ''${'' @ n @ ''}''"
| "piece_text Dollar = ''$''"
| "piece_text EmptyBraces = ''${}''"
| "piece_text OpenBrace = ''${''"

text \<open>What becomes of a piece: broken references vanish, a single dollar sign stays.\<close>

fun piece_value :: "(string \<Rightarrow> string) \<Rightarrow> piece \<Rightarrow> string" where
  "piece_value env (Text s) = s"
| "piece_value env (Name n) = env n"
| "piece_value env (Braces n) = env n"
| "piece_value env Dollar = ''$''"
| "piece_value env EmptyBraces = []"
| "piece_value env OpenBrace = []"

definition starts :: "(char \<Rightarrow> bool) \<Rightarrow> string \<Rightarrow> bool" where
  "starts P s \<longleftrightarrow> s \<noteq> [] \<and> P (hd s)"

text \<open>Whether a piece can stand before the text \<open>t\<close>.\<close>

fun piece_ok :: "piece \<Rightarrow> string \<Rightarrow> bool" where
  "piece_ok (Text s) t \<longleftrightarrow> CHR ''$'' \<notin> set s"
| "piece_ok (Name n) t \<longleftrightarrow> n \<noteq> [] \<and> (if isShellSpecialVar (hd n) then length n = 1 else list_all isAlphaNum n \<and> \<not> starts isAlphaNum t)"
| "piece_ok (Braces n) t \<longleftrightarrow> n \<noteq> [] \<and> CHR ''}'' \<notin> set n"
| "piece_ok Dollar t \<longleftrightarrow> \<not> starts (\<lambda>c. c = CHR ''{'' \<or> isShellSpecialVar c \<or> isAlphaNum c) t"
| "piece_ok EmptyBraces t \<longleftrightarrow> True"
| "piece_ok OpenBrace t \<longleftrightarrow> CHR ''}'' \<notin> set t"

fun pieces_ok :: "piece list \<Rightarrow> bool" where
  "pieces_ok [] \<longleftrightarrow> True"
| "pieces_ok (p # ps) \<longleftrightarrow> piece_ok p (concat (map piece_text ps)) \<and> pieces_ok ps"

lemma name_chars: "isShellSpecialVar c \<Longrightarrow> c \<noteq> CHR ''{''" "isAlphaNum c \<Longrightarrow> c \<noteq> CHR ''{''"
  by (auto simp: isShellSpecialVar_def isAlphaNum_def is_digit_def)

lemma takeWhile_end: "list_all P xs \<Longrightarrow> \<not> starts P t \<Longrightarrow> takeWhile P (xs @ t) = xs"
  by (induction xs) (cases t; auto simp: starts_def)+

lemma takeWhile_brace: "CHR ''}'' \<notin> set n \<Longrightarrow> takeWhile (\<lambda>x. x \<noteq> CHR ''}'') (n @ t) = n @ takeWhile (\<lambda>x. x \<noteq> CHR ''}'') t"
  by (induction n) auto

lemma ExpandEnv_dollar:
  "t \<noteq> [] \<Longrightarrow> ExpandEnv env (CHR ''$'' # t) = (case getShellName t of (name, w) \<Rightarrow>
     (if name = [] \<and> 0 < w then [] else if name = [] then ''$'' else env name) @ ExpandEnv env (drop w t))"
  by (subst ExpandEnv.simps) (simp split: prod.split)

lemma shell_name:
  assumes "piece_ok (Name n) t"
  shows "getShellName (n @ t) = (n, length n)"
proof -
  obtain c m where n: "n = c # m" using assms by (cases n) auto
  show ?thesis
  proof (cases "isShellSpecialVar c")
    case True
    then show ?thesis using assms name_chars(1) [of c] by (auto simp: n getShellName_def)
  next
    case False
    then have "takeWhile isAlphaNum (n @ t) = n" using assms takeWhile_end [of isAlphaNum n t] by (simp add: n)
    then show ?thesis using False assms name_chars(2) [of c] by (auto simp: n getShellName_def)
  qed
qed

lemma shell_dollar: "piece_ok Dollar t \<Longrightarrow> t \<noteq> [] \<Longrightarrow> getShellName t = ([], 0)"
  by (cases t) (simp_all add: getShellName_def starts_def)

lemma shell_open: "CHR ''}'' \<notin> set t \<Longrightarrow> getShellName (CHR ''{'' # t) = ([], 1)"
  using takeWhile_brace [of t "[]"] by (auto simp: getShellName_def nth_Cons' split: if_splits)

lemma ExpandEnv_piece: "piece_ok p t \<Longrightarrow> ExpandEnv env (piece_text p @ t) = piece_value env p @ ExpandEnv env t"
proof (induction p)
  case (Name n)
  then show ?case using shell_name [OF Name] by (simp add: ExpandEnv_dollar)
next
  case Dollar
  then show ?case using shell_dollar [OF Dollar] by (cases "t = []") (simp_all add: ExpandEnv_dollar ExpandEnv.simps [of env "''$''"])
next
  case EmptyBraces
  then show ?case by (simp add: ExpandEnv_dollar getShellName_def isShellSpecialVar_def is_digit_def)
next
  case OpenBrace
  then show ?case using shell_open [of t] by (simp add: ExpandEnv_dollar)
qed (use ExpandEnv_no_dollar ExpandEnv_braces in simp_all)

lemma ExpandEnv_pieces: "pieces_ok ps \<Longrightarrow> ExpandEnv env (concat (map piece_text ps)) = concat (map (piece_value env) ps)"
  by (induction ps) (simp_all add: ExpandEnv_piece)

text \<open>Every file is made of pieces.\<close>

lemma first_piece:
  assumes "s \<noteq> []"
  obtains p t where "s = piece_text p @ t" "piece_ok p t" "length t < length s"
proof -
  obtain c u where s: "s = c # u" using assms by (cases s) auto
  show thesis
  proof (cases "c = CHR ''$''")
    case False
    then show ?thesis using that [of "Text [c]" u] s by simp
  next
    case d: True
    show ?thesis
    proof (cases "starts (\<lambda>c. c = CHR ''{'' \<or> isShellSpecialVar c \<or> isAlphaNum c) u")
      case False
      then show ?thesis using that [of Dollar u] s d by simp
    next
      case True
      then obtain a v where u: "u = a # v" and a: "a = CHR ''{'' \<or> isShellSpecialVar a \<or> isAlphaNum a"
        by (cases u) (auto simp: starts_def)
      consider (brace) "a = CHR ''{''" | (special) "isShellSpecialVar a" | (name) "\<not> isShellSpecialVar a" "isAlphaNum a"
        using a by blast
      then show ?thesis
      proof cases
        case brace
        show ?thesis
        proof (cases "CHR ''}'' \<in> set v")
          case False
          then show ?thesis using that [of OpenBrace v] s d u brace by simp
        next
          case True
          then obtain n t where v: "v = n @ CHR ''}'' # t" "CHR ''}'' \<notin> set n" by (meson split_list_first)
          then show ?thesis using that [of "if n = [] then EmptyBraces else Braces n" t] s d u brace by simp
        qed
      next
        case special
        then show ?thesis using that [of "Name [a]" v] s d u by simp
      next
        case name
        let ?n = "takeWhile isAlphaNum u" and ?t = "dropWhile isAlphaNum u"
        have "\<not> starts isAlphaNum ?t" using hd_dropWhile [of isAlphaNum u] by (auto simp: starts_def)
        moreover have "list_all isAlphaNum ?n" by (auto simp: list_all_iff dest: set_takeWhileD)
        moreover have "?n \<noteq> []" "hd ?n = a" using name u by simp_all
        moreover have "length ?t < length s" using length_dropWhile_le [of isAlphaNum u] s by simp
        ultimately show ?thesis using that [of "Name ?n" ?t] name s d by simp
      qed
    qed
  qed
qed

lemma pieces_complete: "\<exists>ps. pieces_ok ps \<and> concat (map piece_text ps) = s"
proof (induction "length s" arbitrary: s rule: less_induct)
  case less
  show ?case
  proof (cases "s = []")
    case False
    then obtain p t where p: "s = piece_text p @ t" "piece_ok p t" "length t < length s" by (rule first_piece)
    then obtain ps where "pieces_ok ps" "concat (map piece_text ps) = t" using less [of t] by blast
    then show ?thesis using p by (intro exI [of _ "p # ps"]) simp
  qed (auto intro: exI [of _ "[]"])
qed

section \<open>Property\<close>

text \<open>
  C40: \<^verbatim>\<open>Load\<close> hands the YAML decoder the defaults and the text of the file with every reference
  replaced by the value of its variable and all other text unchanged, for any number of references
  in either form (broken references vanish, a single dollar sign stays); every file is made of
  such pieces. A missing file and a text the decoder rejects are errors.
\<close>

theorem Load_expands:
  assumes "fs path = Some (concat (map piece_text ps))" "pieces_ok ps"
  shows "Load fs env yaml path = (case yaml (concat (map (piece_value env) ps)) DefaultConfig of None \<Rightarrow> Err ParseConfig | Some cfg \<Rightarrow> Ok cfg) \<and>
    (fs other = None \<longrightarrow> Load fs env yaml other = Err (ReadConfig other)) \<and>
    (\<exists>qs. pieces_ok qs \<and> concat (map piece_text qs) = s)"
  using assms ExpandEnv_pieces [OF assms(2), of env] pieces_complete [of s] by (simp add: Load_def)

text \<open>A file with both forms of references and a price.\<close>

definition example_pieces :: "piece list" where
  "example_pieces = [Text ''datadir: '', Braces ''HOME'', Text ''/'', Name ''USER'', Text '' 5'', Dollar]"

definition example_file :: "string \<Rightarrow> string option" where
  "example_file f = (if f = ''v.yaml'' then Some ''datadir: ${HOME}/$USER 5$'' else None)"

definition example_vars :: "string \<Rightarrow> string" where
  "example_vars n = (if n = ''HOME'' then ''/root'' else if n = ''USER'' then ''val'' else [])"

definition example_yaml :: "string \<Rightarrow> Config \<Rightarrow> Config option" where
  "example_yaml t c = Some (c\<lparr>cfg_Validator := (cfg_Validator c)\<lparr>DataDir := drop 9 t\<rparr>\<rparr>)"

theorem Load_expands_witness:
  "Load example_file example_vars example_yaml ''v.yaml'' =
     Ok (DefaultConfig\<lparr>cfg_Validator := (cfg_Validator DefaultConfig)\<lparr>DataDir := ''/root/val 5$''\<rparr>\<rparr>) \<and>
   Load example_file example_vars example_yaml ''x.yaml'' = Err (ReadConfig ''x.yaml'')"
proof -
  have f: "example_file ''v.yaml'' = Some (concat (map piece_text example_pieces))" by (simp add: example_file_def example_pieces_def)
  have ok: "pieces_ok example_pieces"
    by (simp add: example_pieces_def starts_def) (simp add: isShellSpecialVar_def isAlphaNum_def is_digit_def)
  have "concat (map (piece_value example_vars) example_pieces) = ''datadir: /root/val 5$''"
    by (simp add: example_pieces_def example_vars_def)
  then show ?thesis
    using Load_expands [where fs = example_file and path = "''v.yaml''" and other = "''x.yaml''" and yaml = example_yaml and env = example_vars, OF f ok]
    by (simp add: example_yaml_def) (simp add: example_file_def)
qed

end
