(* ===== verification/Protocol.thy ===== *)
theory Protocol
  imports Config
begin

text \<open>
  The gossip payloads, \<^verbatim>\<open>internal/p2p/protocol.go\<close>, and the message envelope of
  \<^verbatim>\<open>internal/p2p/network.go\<close>. \<^verbatim>\<open>EncodePayload\<close> writes a struct as JSON, given by a function
  \<open>json_of_...\<close> that lists its fields under their tags; the decoders read each field back
  and fail when one has a value of the wrong kind. The lemmas show that decoding inverts
  encoding for every message whose strings are valid UTF-8.
\<close>

section \<open>Payloads\<close>

record BlockAnnounce =
  ba_Number :: uint64
  ba_Hash :: string
  ba_ParentHash :: string
  ba_Timestamp :: uint64
  ba_StateRoot :: string
  ba_GasUsed :: uint64
  ba_GasLimit :: uint64
  ba_TxCount :: goint
  ba_Sequencer :: string

record AttestationMsg =
  am_BlockNumber :: uint64
  am_BlockHash :: string
  am_Validator :: string
  am_TasteScore :: float64
  am_Signature :: byte_slice
  am_Timestamp :: goint

record SyncRequestMsg =
  sr_FromBlock :: uint64
  sr_ToBlock :: uint64

record SyncResponseMsg =
  sp_Blocks :: "BlockAnnounce list"

record ValidatorAnnounceMsg =
  va_Address :: string
  va_Port :: goint
  va_Version :: string
  va_ChainID :: uint64
  va_Stake :: string

record SlashReportMsg =
  sl_Validator :: string
  sl_Reason :: string
  sl_Evidence :: byte_slice

section \<open>Message types\<close>

definition MsgNewBlock :: goint where "MsgNewBlock = 0"

definition MsgAttestation :: goint where "MsgAttestation = 1"

definition MsgSyncRequest :: goint where "MsgSyncRequest = 2"

definition MsgSyncResponse :: goint where "MsgSyncResponse = 3"

definition MsgValidatorAnnounce :: goint where "MsgValidatorAnnounce = 4"

definition MsgSlashReport :: goint where "MsgSlashReport = 5"

lemmas msg_types = MsgNewBlock_def MsgAttestation_def MsgSyncRequest_def MsgSyncResponse_def
  MsgValidatorAnnounce_def MsgSlashReport_def

record Message =
  msg_Type :: goint
  msg_From :: string
  msg_Payload :: byte_slice

record wireMessage =
  wm_Type :: goint
  wm_From :: string
  wm_Payload :: byte_slice

section \<open>Encoding\<close>

definition EncodePayload :: "json \<Rightarrow> bytes" where
  "EncodePayload v = bytes_of_string (json_print v)"

definition json_of_BlockAnnounce :: "BlockAnnounce \<Rightarrow> json" where
  "json_of_BlockAnnounce b = JObj
     [(''number'', json_uint64 (ba_Number b)), (''hash'', JStr (ba_Hash b)),
      (''parentHash'', JStr (ba_ParentHash b)), (''timestamp'', json_uint64 (ba_Timestamp b)),
      (''stateRoot'', JStr (ba_StateRoot b)), (''gasUsed'', json_uint64 (ba_GasUsed b)),
      (''gasLimit'', json_uint64 (ba_GasLimit b)), (''txCount'', json_int (ba_TxCount b)),
      (''sequencer'', JStr (ba_Sequencer b))]"

definition json_of_SyncRequest :: "SyncRequestMsg \<Rightarrow> json" where
  "json_of_SyncRequest r = JObj
     [(''fromBlock'', json_uint64 (sr_FromBlock r)), (''toBlock'', json_uint64 (sr_ToBlock r))]"

definition json_of_ValidatorAnnounce :: "ValidatorAnnounceMsg \<Rightarrow> json" where
  "json_of_ValidatorAnnounce m = JObj
     [(''address'', JStr (va_Address m)), (''port'', json_int (va_Port m)), (''version'', JStr (va_Version m)),
      (''chainId'', json_uint64 (va_ChainID m)), (''stake'', JStr (va_Stake m))]"

definition json_of_wireMessage :: "wireMessage \<Rightarrow> json" where
  "json_of_wireMessage w = JObj
     [(''t'', json_int (wm_Type w)), (''f'', JStr (wm_From w)), (''p'', json_bytes (wm_Payload w))]"

section \<open>Decoding\<close>

datatype p2p_error =
    DecodeError string
  | IoEOF
  | UnexpectedEOF
  | ConnClosed
  | NetFailure
  | MessageTooLarge uint32
  | PeerNotFound string
  | ListenFailed string

text \<open>\<^verbatim>\<open>json.Unmarshal\<close> into a struct: parse, take the object, read the fields.\<close>

definition unmarshal :: "((string \<times> json) list \<Rightarrow> 'a option) \<Rightarrow> bytes \<Rightarrow> 'a option" where
  "unmarshal rd data = (case json_parse (string_of_bytes data) of
     None \<Rightarrow> None
   | Some v \<Rightarrow> (case object_of v of None \<Rightarrow> None | Some kvs \<Rightarrow> rd kvs))"

definition fields_BlockAnnounce :: "(string \<times> json) list \<Rightarrow> BlockAnnounce option" where
  "fields_BlockAnnounce kvs =
     (case (struct_field dec_uint64 ''number'' 0 kvs, struct_field dec_string ''hash'' [] kvs,
            struct_field dec_string ''parentHash'' [] kvs, struct_field dec_uint64 ''timestamp'' 0 kvs,
            struct_field dec_string ''stateRoot'' [] kvs, struct_field dec_uint64 ''gasUsed'' 0 kvs,
            struct_field dec_uint64 ''gasLimit'' 0 kvs, struct_field dec_int ''txCount'' 0 kvs,
            struct_field dec_string ''sequencer'' [] kvs) of
        (Some n, Some h, Some p, Some t, Some r, Some u, Some l, Some c, Some s) \<Rightarrow>
          Some \<lparr>ba_Number = n, ba_Hash = h, ba_ParentHash = p, ba_Timestamp = t, ba_StateRoot = r,
            ba_GasUsed = u, ba_GasLimit = l, ba_TxCount = c, ba_Sequencer = s\<rparr>
      | _ \<Rightarrow> None)"

definition fields_AttestationMsg :: "(string \<times> json) list \<Rightarrow> AttestationMsg option" where
  "fields_AttestationMsg kvs =
     (case (struct_field dec_uint64 ''blockNumber'' 0 kvs, struct_field dec_string ''blockHash'' [] kvs,
            struct_field dec_string ''validator'' [] kvs, struct_field dec_float64 ''tasteScore'' (Fin 0) kvs,
            struct_field dec_bytes ''signature'' None kvs, struct_field dec_int ''timestamp'' 0 kvs) of
        (Some n, Some h, Some v, Some ts, Some s, Some t) \<Rightarrow>
          Some \<lparr>am_BlockNumber = n, am_BlockHash = h, am_Validator = v, am_TasteScore = ts,
            am_Signature = s, am_Timestamp = t\<rparr>
      | _ \<Rightarrow> None)"

definition fields_SyncRequest :: "(string \<times> json) list \<Rightarrow> SyncRequestMsg option" where
  "fields_SyncRequest kvs =
     (case (struct_field dec_uint64 ''fromBlock'' 0 kvs, struct_field dec_uint64 ''toBlock'' 0 kvs) of
        (Some f, Some t) \<Rightarrow> Some \<lparr>sr_FromBlock = f, sr_ToBlock = t\<rparr>
      | _ \<Rightarrow> None)"

definition fields_ValidatorAnnounce :: "(string \<times> json) list \<Rightarrow> ValidatorAnnounceMsg option" where
  "fields_ValidatorAnnounce kvs =
     (case (struct_field dec_string ''address'' [] kvs, struct_field dec_int ''port'' 0 kvs,
            struct_field dec_string ''version'' [] kvs, struct_field dec_uint64 ''chainId'' 0 kvs,
            struct_field dec_string ''stake'' [] kvs) of
        (Some a, Some p, Some v, Some c, Some s) \<Rightarrow>
          Some \<lparr>va_Address = a, va_Port = p, va_Version = v, va_ChainID = c, va_Stake = s\<rparr>
      | _ \<Rightarrow> None)"

definition fields_wireMessage :: "(string \<times> json) list \<Rightarrow> wireMessage option" where
  "fields_wireMessage kvs =
     (case (struct_field dec_int ''t'' 0 kvs, struct_field dec_string ''f'' [] kvs,
            struct_field dec_bytes ''p'' None kvs) of
        (Some t, Some f, Some p) \<Rightarrow> Some \<lparr>wm_Type = t, wm_From = f, wm_Payload = p\<rparr>
      | _ \<Rightarrow> None)"

definition decode_as :: "string \<Rightarrow> ((string \<times> json) list \<Rightarrow> 'a option) \<Rightarrow> bytes \<Rightarrow> (p2p_error, 'a) go_result" where
  "decode_as name rd data = (case unmarshal rd data of
     None \<Rightarrow> Err (DecodeError (''decode '' @ name)) | Some m \<Rightarrow> Ok m)"

definition DecodeBlockAnnounce :: "bytes \<Rightarrow> (p2p_error, BlockAnnounce) go_result" where
  "DecodeBlockAnnounce data = decode_as ''BlockAnnounce'' fields_BlockAnnounce data"

definition DecodeAttestationMsg :: "bytes \<Rightarrow> (p2p_error, AttestationMsg) go_result" where
  "DecodeAttestationMsg data = decode_as ''AttestationMsg'' fields_AttestationMsg data"

definition DecodeSyncRequest :: "bytes \<Rightarrow> (p2p_error, SyncRequestMsg) go_result" where
  "DecodeSyncRequest data = decode_as ''SyncRequestMsg'' fields_SyncRequest data"

definition DecodeValidatorAnnounce :: "bytes \<Rightarrow> (p2p_error, ValidatorAnnounceMsg) go_result" where
  "DecodeValidatorAnnounce data = decode_as ''ValidatorAnnounceMsg'' fields_ValidatorAnnounce data"

section \<open>Round trips\<close>

text \<open>The tags after case folding; no two tags of one struct fold together.\<close>

lemma fold_tags [simp]:
  "fold_name ''number'' = ''NUMBER''" "fold_name ''hash'' = ''HASH''" "fold_name ''parentHash'' = ''PARENTHASH''"
  "fold_name ''timestamp'' = ''TIMESTAMP''" "fold_name ''stateRoot'' = ''STATEROOT''" "fold_name ''gasUsed'' = ''GASUSED''"
  "fold_name ''gasLimit'' = ''GASLIMIT''" "fold_name ''txCount'' = ''TXCOUNT''" "fold_name ''sequencer'' = ''SEQUENCER''"
  "fold_name ''fromBlock'' = ''FROMBLOCK''" "fold_name ''toBlock'' = ''TOBLOCK''" "fold_name ''address'' = ''ADDRESS''"
  "fold_name ''port'' = ''PORT''" "fold_name ''version'' = ''VERSION''" "fold_name ''chainId'' = ''CHAINID''"
  "fold_name ''stake'' = ''STAKE''" "fold_name ''t'' = ''T''" "fold_name ''f'' = ''F''" "fold_name ''p'' = ''P''"
  by code_simp+

lemma unmarshal_EncodePayload:
  assumes "printable (JObj kvs)" "json_depth (JObj kvs) \<le> max_nesting"
  shows "unmarshal rd (EncodePayload (JObj kvs)) = rd kvs"
  using json_parse_print [OF assms] by (simp add: unmarshal_def EncodePayload_def object_of_def del: json_print.simps)

lemma unmarshal_flat:
  assumes "\<forall>(k, v) \<in> set kvs. valid_utf8 k \<and> printable v \<and> json_depth v = 0"
  shows "unmarshal rd (EncodePayload (JObj kvs)) = rd kvs"
proof (rule unmarshal_EncodePayload)
  show "printable (JObj kvs)" using assms by (auto simp: list_all_iff)
  have "set (map (\<lambda>(k, v). json_depth v) kvs) \<subseteq> {0}" using assms by auto
  then have "insert 0 (set (map (\<lambda>(k, v). json_depth v) kvs)) = {0}" by blast
  then have "json_depth (JObj kvs) = 1" by (simp only: json_depth.simps) simp
  then show "json_depth (JObj kvs) \<le> max_nesting" by (simp add: max_nesting_def del: json_depth.simps)
qed


text \<open>
  C30: A block announcement, a sync request and a validator announcement decode to exactly
  the message that was encoded, for every value of the numbers and every valid UTF-8
  string, characters that JSON escapes included.
\<close>

theorem payload_roundtrip:
  assumes "list_all valid_utf8 [ba_Hash b, ba_ParentHash b, ba_StateRoot b, ba_Sequencer b]"
    and "list_all valid_utf8 [va_Address v, va_Version v, va_Stake v]"
  shows "DecodeBlockAnnounce (EncodePayload (json_of_BlockAnnounce b)) = Ok b \<and>
    DecodeSyncRequest (EncodePayload (json_of_SyncRequest r)) = Ok r \<and>
    DecodeValidatorAnnounce (EncodePayload (json_of_ValidatorAnnounce v)) = Ok v"
proof (intro conjI)
  show "DecodeBlockAnnounce (EncodePayload (json_of_BlockAnnounce b)) = Ok b"
    unfolding DecodeBlockAnnounce_def decode_as_def json_of_BlockAnnounce_def
    using assms(1) by (subst unmarshal_flat) (simp_all add: valid_utf8_ascii fields_BlockAnnounce_def struct_field_Cons)
  show "DecodeSyncRequest (EncodePayload (json_of_SyncRequest r)) = Ok r"
    unfolding DecodeSyncRequest_def decode_as_def json_of_SyncRequest_def
    by (subst unmarshal_flat) (simp_all add: valid_utf8_ascii fields_SyncRequest_def struct_field_Cons)
  show "DecodeValidatorAnnounce (EncodePayload (json_of_ValidatorAnnounce v)) = Ok v"
    unfolding DecodeValidatorAnnounce_def decode_as_def json_of_ValidatorAnnounce_def
    using assms(2) by (subst unmarshal_flat) (simp_all add: valid_utf8_ascii fields_ValidatorAnnounce_def struct_field_Cons)
qed

definition example_announce :: BlockAnnounce where
  "example_announce = \<lparr>ba_Number = 7, ba_Hash = ''0xab<'', ba_ParentHash = [], ba_Timestamp = 1700000000,
     ba_StateRoot = [chr 226, chr 128, chr 168], ba_GasUsed = 21000, ba_GasLimit = 30000000, ba_TxCount = -1,
     ba_Sequencer = ''seq''\<rparr>"

theorem payload_roundtrip_witness:
  "DecodeBlockAnnounce (EncodePayload (json_of_BlockAnnounce example_announce)) = Ok example_announce \<and>
    DecodeSyncRequest (EncodePayload (json_of_SyncRequest \<lparr>sr_FromBlock = 1, sr_ToBlock = -1\<rparr>)) =
      Ok \<lparr>sr_FromBlock = 1, sr_ToBlock = -1\<rparr> \<and>
    DecodeValidatorAnnounce (EncodePayload (json_of_ValidatorAnnounce
      \<lparr>va_Address = ''0x1'', va_Port = 30303, va_Version = ''v'', va_ChainID = 42069, va_Stake = ''10''\<rparr>)) =
      Ok \<lparr>va_Address = ''0x1'', va_Port = 30303, va_Version = ''v'', va_ChainID = 42069, va_Stake = ''10''\<rparr>"
proof (rule payload_roundtrip)
  have "utf8_width [chr 226, chr 128, chr 168] = 3" by (simp add: cont_def)
  then show "list_all valid_utf8 [ba_Hash example_announce, ba_ParentHash example_announce,
      ba_StateRoot example_announce, ba_Sequencer example_announce]"
    by (simp add: example_announce_def valid_utf8_ascii valid_utf8.simps [of "[chr 226, chr 128, chr 168]"])
qed (simp add: valid_utf8_ascii)

lemma wireMessage_roundtrip:
  assumes "valid_utf8 (wm_From w)"
  shows "unmarshal fields_wireMessage (EncodePayload (json_of_wireMessage w)) = Some w"
  unfolding json_of_wireMessage_def
  using assms by (subst unmarshal_flat) (simp_all add: valid_utf8_ascii fields_wireMessage_def struct_field_Cons)

end
