(* ===== verification/P2P.thy ===== *)
theory P2P
  imports Protocol Bytes
begin

text \<open>
  The gossip network, \<^verbatim>\<open>internal/p2p/network.go\<close>. A TCP connection is a cell of the store
  \<open>net_conns\<close>: the bytes still to arrive and the error that follows them, the bytes sent,
  and how many more bytes it will take before a write fails (no limit: \<open>None\<close>). Writing a
  frame is two writes, reading one is two \<^verbatim>\<open>io.ReadFull\<close>. The message channel is a list of at
  most 4096 messages. \<^verbatim>\<open>Broadcast\<close> and the other loops over the peer map take the order of
  the keys. \<open>net_greeting\<close> holds the new connections whose goroutine has not yet sent the
  announcement, with whether its length has been written. Each goroutine loop is given by its iteration (\<open>readLoop_step\<close>, \<open>dial_loop\<close>), and
  \<open>net_step\<close> interleaves the iterations of all goroutines. Deadlines appear only as the
  errors they cause; log lines are not modelled.
\<close>

section \<open>Connections\<close>

record Conn =
  cn_in :: bytes
  cn_end :: p2p_error
  cn_out :: bytes
  cn_room :: "nat option"
  cn_closed :: bool

definition conn_write :: "Conn \<Rightarrow> bytes \<Rightarrow> p2p_error option \<times> Conn" where
  "conn_write c bs =
     (if cn_closed c then (Some ConnClosed, c)
      else (case cn_room c of
          None \<Rightarrow> (None, c\<lparr>cn_out := cn_out c @ bs\<rparr>)
        | Some k \<Rightarrow>
            if length bs \<le> k then (None, c\<lparr>cn_out := cn_out c @ bs, cn_room := Some (k - length bs)\<rparr>)
            else (Some NetFailure, c\<lparr>cn_out := cn_out c @ take k bs, cn_room := Some 0\<rparr>)))"

text \<open>\<^verbatim>\<open>io.ReadFull\<close>: an end of file inside the buffer is an unexpected one.\<close>

definition read_full :: "Conn \<Rightarrow> nat \<Rightarrow> (p2p_error, bytes) go_result \<times> Conn" where
  "read_full c k =
     (if k = 0 then (Ok [], c)
      else if cn_closed c then (Err ConnClosed, c)
      else if k \<le> length (cn_in c) then (Ok (take k (cn_in c)), c\<lparr>cn_in := drop k (cn_in c)\<rparr>)
      else (Err (if cn_end c = IoEOF \<and> cn_in c \<noteq> [] then UnexpectedEOF else cn_end c), c\<lparr>cn_in := []\<rparr>))"

section \<open>Frames\<close>

definition max_frame :: uint32 where
  "max_frame = 10 * 1024 * 1024"

definition writeFrame :: "Conn \<Rightarrow> bytes \<Rightarrow> p2p_error option \<times> Conn" where
  "writeFrame c data = (case conn_write c (be_bytes32 (word_of_nat (length data))) of
     (Some e, c') \<Rightarrow> (Some e, c')
   | (None, c') \<Rightarrow> conn_write c' data)"

definition readFrame :: "Conn \<Rightarrow> (p2p_error, bytes) go_result \<times> Conn" where
  "readFrame c = (case read_full c 4 of
     (Ok lenBuf, c') \<Rightarrow>
       (let length = be_word32 lenBuf in
        if max_frame < length then (Err (MessageTooLarge length), c') else read_full c' (unat length))
   | (Err e, c') \<Rightarrow> (Err e, c')
   | (Panic p, c') \<Rightarrow> (Panic p, c'))"

section \<open>The network\<close>

record Peer =
  peer_ID :: string
  peer_Address :: string
  peer_Version :: string
  peer_IsActive :: bool
  peer_Latency :: goint
  peer_conn :: "nat option"

record Network =
  net_cfg :: ValidatorConfig
  net_peers :: "string \<rightharpoonup> Peer"
  net_msgCh :: "Message list"
  net_localID :: string
  net_bootnodes :: "string list"
  net_cancelled :: bool
  net_listening :: bool
  net_conns :: "nat \<Rightarrow> Conn"
  net_greeting :: "(nat \<times> bool) list"

definition channel_capacity :: nat where
  "channel_capacity = 4096"

definition NewNetwork :: "ValidatorConfig \<Rightarrow> (nat \<Rightarrow> Conn) \<Rightarrow> Network" where
  "NewNetwork cfg conns = \<lparr>net_cfg = cfg, net_peers = Map.empty, net_msgCh = [],
     net_localID = ''validator-'' @ decimal (sint (P2PPort cfg)), net_bootnodes = Bootnodes cfg,
     net_cancelled = False, net_listening = False, net_conns = conns, net_greeting = []\<rparr>"

text \<open>\<^verbatim>\<open>Start\<close> fails when the address cannot be bound; the goroutines it starts are below.\<close>

definition StartNetwork :: "Network \<Rightarrow> bool \<Rightarrow> (p2p_error, Network) go_result" where
  "StartNetwork n bound =
     (if bound then Ok (n\<lparr>net_listening := True\<rparr>)
      else Err (ListenFailed (''0.0.0.0:'' @ decimal (sint (P2PPort (net_cfg n))))))"

definition set_conn :: "Network \<Rightarrow> nat \<Rightarrow> Conn \<Rightarrow> Network" where
  "set_conn n c cn = n\<lparr>net_conns := (net_conns n)(c := cn)\<rparr>"

definition close_conn :: "Network \<Rightarrow> nat \<Rightarrow> Network" where
  "close_conn n c = set_conn n c ((net_conns n c)\<lparr>cn_closed := True\<rparr>)"

definition close_peer :: "Network \<Rightarrow> Peer \<Rightarrow> Network" where
  "close_peer n p = (case peer_conn p of None \<Rightarrow> n | Some c \<Rightarrow> close_conn n c)"

definition StopNetwork :: "Network \<Rightarrow> string list \<Rightarrow> Network" where
  "StopNetwork n ks = foldl close_peer (n\<lparr>net_cancelled := True, net_listening := False\<rparr>) (range_vals (net_peers n) ks)"

definition wire_data :: "Network \<Rightarrow> goint \<Rightarrow> byte_slice \<Rightarrow> bytes" where
  "wire_data n msgType payload =
     EncodePayload (json_of_wireMessage \<lparr>wm_Type = msgType, wm_From = net_localID n, wm_Payload = payload\<rparr>)"

definition sendable :: "Peer \<Rightarrow> nat option" where
  "sendable p = (if peer_IsActive p then peer_conn p else None)"

text \<open>The loop of \<^verbatim>\<open>Broadcast\<close>: the network, the last error, the number of peers reached.\<close>

definition broadcast_step ::
    "bytes \<Rightarrow> Network \<times> p2p_error option \<times> nat \<Rightarrow> Peer \<Rightarrow> Network \<times> p2p_error option \<times> nat" where
  "broadcast_step data acc p = (case acc of (n, lastErr, sent) \<Rightarrow> (case sendable p of
     None \<Rightarrow> acc
   | Some c \<Rightarrow> (case writeFrame (net_conns n c) data of
       (Some e, cn) \<Rightarrow> (set_conn n c cn, Some e, sent)
     | (None, cn) \<Rightarrow> (set_conn n c cn, lastErr, sent + 1))))"

definition Broadcast :: "Network \<Rightarrow> string list \<Rightarrow> goint \<Rightarrow> byte_slice \<Rightarrow> Network \<times> p2p_error option \<times> nat" where
  "Broadcast n ks msgType payload =
     foldl (broadcast_step (wire_data n msgType payload)) (n, None, 0) (range_vals (net_peers n) ks)"

definition SendTo :: "Network \<Rightarrow> string \<Rightarrow> goint \<Rightarrow> byte_slice \<Rightarrow> p2p_error option \<times> Network" where
  "SendTo n peerID msgType payload = (case net_peers n peerID of
     None \<Rightarrow> (Some (PeerNotFound peerID), n)
   | Some p \<Rightarrow> (case sendable p of
       None \<Rightarrow> (Some (PeerNotFound peerID), n)
     | Some c \<Rightarrow> (case writeFrame (net_conns n c) (wire_data n msgType payload) of (e, cn) \<Rightarrow> (e, set_conn n c cn))))"

definition PeerCount :: "Network \<Rightarrow> string list \<Rightarrow> nat" where
  "PeerCount n ks = foldl (\<lambda>count p. if peer_IsActive p then count + 1 else count) 0 (range_vals (net_peers n) ks)"

definition Peers :: "Network \<Rightarrow> string list \<Rightarrow> Peer list" where
  "Peers n ks = map (\<lambda>p. p\<lparr>peer_conn := None\<rparr>) (range_vals (net_peers n) ks)"

section \<open>Goroutines\<close>

definition announce_payload :: "Network \<Rightarrow> byte_slice" where
  "announce_payload n = Some (bytes_of_string
     (CHR ''{'' # CHR 0x22 # ''port'' @ CHR 0x22 # CHR '':'' # decimal (sint (P2PPort (net_cfg n))) @ ''}''))"

text \<open>A new connection becomes a peer, under the lock.\<close>

definition file_peer :: "Network \<Rightarrow> string \<Rightarrow> string \<Rightarrow> nat \<Rightarrow> Network" where
  "file_peer n peerID addr c = n\<lparr>net_peers := (net_peers n)(peerID \<mapsto>
       \<lparr>peer_ID = peerID, peer_Address = addr, peer_Version = ''inso/1.0'', peer_IsActive = True,
        peer_Latency = 0, peer_conn = Some c\<rparr>),
     net_greeting := (c, False) # net_greeting n\<rparr>"

text \<open>
  Then it gets the announcement, without a lock: the two writes of \<^verbatim>\<open>writeFrame\<close> are two steps, between
  which others can write to the connection. A write error is ignored.
\<close>

definition announce_data :: "Network \<Rightarrow> bytes" where
  "announce_data n = wire_data n MsgValidatorAnnounce (announce_payload n)"

definition announce_length :: "Network \<Rightarrow> nat \<Rightarrow> Network" where
  "announce_length n c = (case conn_write (net_conns n c) (be_bytes32 (word_of_nat (length (announce_data n)))) of
     (e, cn) \<Rightarrow> (set_conn n c cn)\<lparr>net_greeting := (if e = None then [(c, True)] else []) @ remove1 (c, False) (net_greeting n)\<rparr>)"

definition announce_body :: "Network \<Rightarrow> nat \<Rightarrow> Network" where
  "announce_body n c = (set_conn n c (snd (conn_write (net_conns n c) (announce_data n))))
     \<lparr>net_greeting := remove1 (c, True) (net_greeting n)\<rparr>"

text \<open>All of it, when nothing else runs.\<close>

definition add_peer :: "Network \<Rightarrow> string \<Rightarrow> string \<Rightarrow> nat \<Rightarrow> Network" where
  "add_peer n peerID addr c =
     (let n1 = file_peer n peerID addr c
      in (set_conn n1 c (snd (writeFrame (net_conns n1 c) (announce_data n1))))\<lparr>net_greeting := net_greeting n\<rparr>)"

definition deliver :: "Network \<Rightarrow> Message \<Rightarrow> Network" where
  "deliver n msg =
     (if length (net_msgCh n) < channel_capacity then n\<lparr>net_msgCh := net_msgCh n @ [msg]\<rparr> else n)"

definition receive :: "Network \<Rightarrow> (Message \<times> Network) option" where
  "receive n = (case net_msgCh n of [] \<Rightarrow> None | m # ms \<Rightarrow> Some (m, n\<lparr>net_msgCh := ms\<rparr>))"

definition handle_frame :: "Network \<Rightarrow> bytes \<Rightarrow> Network" where
  "handle_frame n data = (case unmarshal fields_wireMessage data of
     None \<Rightarrow> n
   | Some wm \<Rightarrow> deliver n \<lparr>msg_Type = wm_Type wm, msg_From = wm_From wm, msg_Payload = wm_Payload wm\<rparr>)"

definition deactivate :: "Network \<Rightarrow> string \<Rightarrow> Network" where
  "deactivate n peerID = (case net_peers n peerID of
     None \<Rightarrow> n
   | Some p \<Rightarrow> n\<lparr>net_peers := (net_peers n)(peerID \<mapsto> p\<lparr>peer_IsActive := False\<rparr>)\<rparr>)"

definition readLoop_exit :: "Network \<Rightarrow> string \<Rightarrow> nat \<Rightarrow> Network" where
  "readLoop_exit n peerID c = deactivate (close_conn n c) peerID"

text \<open>One iteration of \<^verbatim>\<open>readLoop\<close>, and whether the loop goes on.\<close>

definition readLoop_step :: "Network \<Rightarrow> string \<Rightarrow> nat \<Rightarrow> Network \<times> bool" where
  "readLoop_step n peerID c =
     (if net_cancelled n then (readLoop_exit n peerID c, False)
      else (case readFrame (net_conns n c) of
          (Ok data, cn) \<Rightarrow> (handle_frame (set_conn n c cn) data, True)
        | (_, cn) \<Rightarrow> (readLoop_exit (set_conn n c cn) peerID c, False)))"

definition pending :: "Network \<Rightarrow> nat \<Rightarrow> nat" where
  "pending n c = length (cn_in (net_conns n c))"

lemma read_full_in: "length (cn_in (snd (read_full c k))) \<le> length (cn_in c)"
  by (simp add: read_full_def)

lemma readFrame_in:
  assumes "readFrame c = (Ok data, c')"
  shows "length (cn_in c') < length (cn_in c)"
proof -
  obtain lb c1 where r: "read_full c 4 = (Ok lb, c1)" "(Ok data, c') = read_full c1 (unat (be_word32 lb))"
    using assms by (auto simp: readFrame_def Let_def split: go_result.splits prod.splits if_splits)
  then have "length (cn_in c1) + 4 \<le> length (cn_in c)"
    by (auto simp: read_full_def split: if_splits)
  moreover have "length (cn_in c') \<le> length (cn_in c1)"
    using read_full_in [of c1] r(2) by (metis snd_conv)
  ultimately show ?thesis by linarith
qed

lemma conns_simps [simp]:
  "net_conns (set_conn n c cn) = (net_conns n)(c := cn)"
  "net_conns (deliver n m) = net_conns n"
  "net_conns (handle_frame n data) = net_conns n"
  "net_conns (deactivate n k) = net_conns n"
  by (simp_all add: set_conn_def deliver_def handle_frame_def deactivate_def split: option.split)

lemma readLoop_step_pending:
  "readLoop_step n peerID c = (n', True) \<Longrightarrow> pending n' c < pending n c"
  by (auto simp: readLoop_step_def pending_def dest!: readFrame_in split: if_splits go_result.splits prod.splits)

text \<open>The whole loop when nothing else runs: it ends, since every frame takes four bytes.\<close>

function readLoop :: "Network \<Rightarrow> string \<Rightarrow> nat \<Rightarrow> Network" where
  "readLoop n peerID c = (case readLoop_step n peerID c of
     (n', True) \<Rightarrow> readLoop n' peerID c
   | (n', False) \<Rightarrow> n')"
  by pat_completeness auto
termination
  by (relation "measure (\<lambda>(n, peerID, c). pending n c)") (auto dest: readLoop_step_pending [OF sym])

declare readLoop.simps [simp del]

definition handleInbound :: "Network \<Rightarrow> nat \<Rightarrow> string \<Rightarrow> Network" where
  "handleInbound n c remoteAddr =
     readLoop (add_peer n (''inbound-'' @ remoteAddr) remoteAddr c) (''inbound-'' @ remoteAddr) c"

text \<open>
  The attempts of \<^verbatim>\<open>dialPeer\<close>: \<open>ctxDone i\<close> and \<open>dial i\<close> are what the context and the \<open>i\<close>-th dial
  report; the result is the delays slept, in seconds, and the connection, if any.
\<close>

function dial_loop :: "(nat \<Rightarrow> bool) \<Rightarrow> (nat \<Rightarrow> nat option) \<Rightarrow> nat \<Rightarrow> nat list \<times> nat option" where
  "dial_loop ctxDone dial attempt =
     (if 5 \<le> attempt \<or> ctxDone attempt then ([], None)
      else (case dial attempt of
          None \<Rightarrow> (let (ds, r) = dial_loop ctxDone dial (Suc attempt) in (2 ^ attempt # ds, r))
        | Some c \<Rightarrow> ([], Some c)))"
  by pat_completeness auto
termination
  by (relation "measure (\<lambda>(ctxDone, dial, attempt). 5 - attempt)") auto

declare dial_loop.simps [simp del]

definition dialPeer :: "Network \<Rightarrow> string \<Rightarrow> (nat \<Rightarrow> bool) \<Rightarrow> (nat \<Rightarrow> nat option) \<Rightarrow> Network" where
  "dialPeer n addr ctxDone dial = (case dial_loop ctxDone dial 0 of
     (ds, None) \<Rightarrow> n
   | (ds, Some c) \<Rightarrow> readLoop (add_peer n (''outbound-'' @ addr) addr c) (''outbound-'' @ addr) c)"

text \<open>The addresses dialled before the context is done; \<open>ctxDone i\<close> is what it reports before the \<open>i\<close>-th.\<close>

definition connectToBootnodes :: "(nat \<Rightarrow> bool) \<Rightarrow> string list \<Rightarrow> string list" where
  "connectToBootnodes ctxDone bootnodes = map snd (takeWhile (\<lambda>(i, addr). \<not> ctxDone i) (enumerate 0 bootnodes))"

text \<open>\<open>alive c\<close>: the empty write on an open connection succeeds.\<close>

definition probe_peer :: "(nat \<Rightarrow> bool) \<Rightarrow> Network \<Rightarrow> string \<Rightarrow> Network" where
  "probe_peer alive n k = (case net_peers n k of
     None \<Rightarrow> n
   | Some p \<Rightarrow> (case sendable p of
       None \<Rightarrow> n
     | Some c \<Rightarrow>
         if cn_closed (net_conns n c) \<or> \<not> alive c then close_conn (deactivate n k) c else n))"

definition checkPeerLiveness :: "Network \<Rightarrow> string list \<Rightarrow> (nat \<Rightarrow> bool) \<Rightarrow> Network" where
  "checkPeerLiveness n ks alive = foldl (probe_peer alive) n ks"

text \<open>\<^verbatim>\<open>livenessLoop\<close>: one check for each tick before the context is done.\<close>

definition livenessLoop :: "Network \<Rightarrow> (string list \<times> (nat \<Rightarrow> bool)) list \<Rightarrow> Network" where
  "livenessLoop n ticks = foldl (\<lambda>n (ks, alive). checkPeerLiveness n ks alive) n ticks"

section \<open>The channel\<close>

text \<open>
  The interface the consumers of a bounded channel rely on: a send on a full channel is
  dropped, a receive takes the oldest message.
\<close>

fun drain :: "('q \<Rightarrow> ('m \<times> 'q) option) \<Rightarrow> nat \<Rightarrow> 'q \<Rightarrow> 'm list \<times> 'q" where
  "drain recv 0 q = ([], q)"
| "drain recv (Suc k) q = (case recv q of
     None \<Rightarrow> ([], q)
   | Some (m, q') \<Rightarrow> (let (ms, q'') = drain recv k q' in (m # ms, q'')))"

locale bounded_channel =
  fixes send :: "'q \<Rightarrow> 'm \<Rightarrow> 'q"
    and recv :: "'q \<Rightarrow> ('m \<times> 'q) option"
    and contents :: "'q \<Rightarrow> 'm list"
    and cap :: nat
  assumes contents_send: "length (contents q) \<le> cap \<Longrightarrow> contents (send q m) = take cap (contents q @ [m])"
    and recv_None: "recv q = None \<longleftrightarrow> contents q = []"
    and recv_Some: "recv q = Some (m, q') \<Longrightarrow> contents q = m # contents q'"
begin

lemma contents_le: "length (contents q) \<le> cap \<Longrightarrow> length (contents (send q m)) \<le> cap"
  by (simp add: contents_send)

lemma contents_send_all:
  "length (contents q) \<le> cap \<Longrightarrow> contents (foldl send q ms) = take cap (contents q @ ms)"
proof (induction ms arbitrary: q)
  case (Cons m ms)
  have "contents (foldl send (send q m) ms) = take cap (contents (send q m) @ ms)"
    using Cons contents_le by blast
  also have "\<dots> = take cap (contents q @ m # ms)"
    using Cons.prems by (cases "length (contents q) = cap") (simp_all add: contents_send take_Cons' take_append)
  finally show ?case by simp
qed simp

lemma drain_contents:
  "k \<le> length (contents q) \<Longrightarrow> fst (drain recv k q) = take k (contents q) \<and> contents (snd (drain recv k q)) = drop k (contents q)"
proof (induction k arbitrary: q)
  case (Suc k)
  then obtain m q' where r: "recv q = Some (m, q')" by (metis recv_None Zero_not_Suc le_zero_eq list.size(3) not_Some_eq surj_pair)
  then have c: "contents q = m # contents q'" by (rule recv_Some)
  with Suc have "fst (drain recv k q') = take k (contents q') \<and> contents (snd (drain recv k q')) = drop k (contents q')"
    by simp
  then show ?case using r c by (simp add: case_prod_unfold Let_def)
qed simp

end

interpretation net_channel: bounded_channel deliver receive net_msgCh channel_capacity
  by unfold_locales (auto simp: deliver_def receive_def split: list.splits)

section \<open>Frames\<close>

definition frame :: "bytes \<Rightarrow> bytes" where
  "frame data = be_bytes32 (word_of_nat (length data)) @ data"

definition usable :: "Conn \<Rightarrow> bool" where
  "usable c \<longleftrightarrow> \<not> cn_closed c \<and> cn_room c = None"

lemma writeFrame_usable:
  "usable c \<Longrightarrow> writeFrame c data = (None, c\<lparr>cn_out := cn_out c @ frame data\<rparr>)"
  by (simp add: writeFrame_def conn_write_def usable_def frame_def)

lemma max_frame_unat: "unat max_frame = 10485760"
  by (simp add: max_frame_def)

lemma length_word32: "length data < 2 ^ 32 \<Longrightarrow> unat (word_of_nat (length data) :: uint32) = length data"
  by (simp add: unat_of_nat)

lemma read_full_prefix:
  assumes "\<not> cn_closed c" "cn_in c = a @ b"
  shows "read_full c (length a) = (Ok a, c\<lparr>cn_in := b\<rparr>)"
  using assms by (cases "a = []") (simp_all add: read_full_def)

lemma readFrame_frame:
  assumes "\<not> cn_closed c" "cn_in c = frame data @ rest" "length data < 2 ^ 32"
  shows "readFrame c = (if length data \<le> 10485760 then (Ok data, c\<lparr>cn_in := rest\<rparr>)
    else (Err (MessageTooLarge (word_of_nat (length data))), c\<lparr>cn_in := data @ rest\<rparr>))"
proof -
  have h: "read_full c 4 = (Ok (be_bytes32 (word_of_nat (length data))), c\<lparr>cn_in := data @ rest\<rparr>)"
    using read_full_prefix [OF assms(1), of "be_bytes32 (word_of_nat (length data))" "data @ rest"] assms(2)
    by (simp add: frame_def)
  have l: "max_frame < word_of_nat (length data) \<longleftrightarrow> 10485760 < length data"
    using length_word32 [OF assms(3)] max_frame_unat by (simp add: word_less_nat_alt)
  show ?thesis
    using read_full_prefix [of "c\<lparr>cn_in := data @ rest\<rparr>" data rest] assms(1) length_word32 [OF assms(3)]
    by (simp add: readFrame_def h l)
qed

section \<open>Broadcast\<close>

definition targets :: "Peer list \<Rightarrow> nat list" where
  "targets ps = List.map_filter sendable ps"

lemma targets_simps [simp]:
  "targets [] = []"
  "targets (p # ps) = (case sendable p of None \<Rightarrow> targets ps | Some c \<Rightarrow> c # targets ps)"
  by (simp_all add: targets_def map_filter_simps split: option.split)

lemma net_frames [simp]:
  "net_peers (set_conn n c cn) = net_peers n" "net_localID (set_conn n c cn) = net_localID n"
  "net_msgCh (set_conn n c cn) = net_msgCh n" "net_cancelled (set_conn n c cn) = net_cancelled n"
  by (simp_all add: set_conn_def)

lemma broadcast_loop:
  fixes data :: bytes and n :: Network and e :: "p2p_error option" and k :: nat and ps :: "Peer list"
  assumes "distinct (targets ps)"
  defines "r \<equiv> foldl (broadcast_step data) (n, e, k) ps"
  shows "net_conns (fst r) c = (if c \<in> set (targets ps) then snd (writeFrame (net_conns n c) data) else net_conns n c)"
    and "net_peers (fst r) = net_peers n" "net_localID (fst r) = net_localID n" "net_msgCh (fst r) = net_msgCh n"
    and "snd (snd r) = k + length (filter (\<lambda>c. fst (writeFrame (net_conns n c) data) = None) (targets ps))"
    and "fst (snd r) = None \<longleftrightarrow> e = None \<and> (\<forall>c\<in>set (targets ps). fst (writeFrame (net_conns n c) data) = None)"
proof -
  have "net_conns (fst r) c = (if c \<in> set (targets ps) then snd (writeFrame (net_conns n c) data) else net_conns n c) \<and>
    net_peers (fst r) = net_peers n \<and> net_localID (fst r) = net_localID n \<and> net_msgCh (fst r) = net_msgCh n \<and>
    snd (snd r) = k + length (filter (\<lambda>c. fst (writeFrame (net_conns n c) data) = None) (targets ps)) \<and>
    (fst (snd r) = None \<longleftrightarrow> e = None \<and> (\<forall>c\<in>set (targets ps). fst (writeFrame (net_conns n c) data) = None))"
    using assms(1) unfolding r_def
  proof (induction ps arbitrary: n e k)
    case (Cons p ps)
    show ?case
    proof (cases "sendable p")
      case None
      then show ?thesis using Cons by (simp add: broadcast_step_def)
    next
      case (Some d)
      obtain w cn where w: "writeFrame (net_conns n d) data = (w, cn)" by fastforce
      let ?n = "set_conn n d cn"
      have d: "d \<notin> set (targets ps)" "distinct (targets ps)" using Cons.prems Some by simp_all
      then have same: "net_conns ?n x = net_conns n x" if "x \<in> set (targets ps)" for x using that by auto
      have f: "filter (\<lambda>c. fst (writeFrame (net_conns ?n c) data) = None) (targets ps) =
          filter (\<lambda>c. fst (writeFrame (net_conns n c) data) = None) (targets ps)"
        using same by (intro filter_cong) simp_all
      show ?thesis
        using Cons.IH [OF d(2), of ?n] d same f w Some
        by (cases w) (auto simp: broadcast_step_def simp del: conns_simps(1), auto)
    qed
  qed simp
  then show "net_conns (fst r) c = (if c \<in> set (targets ps) then snd (writeFrame (net_conns n c) data) else net_conns n c)"
    and "net_peers (fst r) = net_peers n" "net_localID (fst r) = net_localID n" "net_msgCh (fst r) = net_msgCh n"
    and "snd (snd r) = k + length (filter (\<lambda>c. fst (writeFrame (net_conns n c) data) = None) (targets ps))"
    and "fst (snd r) = None \<longleftrightarrow> e = None \<and> (\<forall>c\<in>set (targets ps). fst (writeFrame (net_conns n c) data) = None)"
    by simp_all
qed

definition conns_distinct :: "Network \<Rightarrow> bool" where
  "conns_distinct n \<longleftrightarrow> (\<forall>k k' p p' c. net_peers n k = Some p \<longrightarrow> net_peers n k' = Some p' \<longrightarrow>
     peer_conn p = Some c \<longrightarrow> peer_conn p' = Some c \<longrightarrow> k = k')"

lemma sendable_conn: "sendable p = Some c \<Longrightarrow> peer_conn p = Some c"
  by (simp add: sendable_def split: if_splits)

lemma set_targets:
  "set (targets (range_vals m ks)) = {c. \<exists>k p. k \<in> set ks \<and> m k = Some p \<and> sendable p = Some c}"
  by (induction ks) (auto split: option.splits)

lemma distinct_targets:
  assumes "conns_distinct n" "distinct ks"
  shows "distinct (targets (range_vals (net_peers n) ks))"
  using assms(2)
proof (induction ks)
  case (Cons k ks)
  have "c \<notin> set (targets (range_vals (net_peers n) ks))" if "net_peers n k = Some p" "sendable p = Some c" for p c
    using that Cons.prems assms(1) sendable_conn unfolding set_targets conns_distinct_def by fastforce
  then show ?case using Cons by (auto split: option.splits)
qed simp

lemma Broadcast_effect:
  assumes "conns_distinct n" "range_order (net_peers n) ks"
  defines "active \<equiv> {c. \<exists>k p. net_peers n k = Some p \<and> sendable p = Some c}"
  shows "net_conns (fst (Broadcast n ks t q)) c =
      (if c \<in> active then snd (writeFrame (net_conns n c) (wire_data n t q)) else net_conns n c)"
    and "net_peers (fst (Broadcast n ks t q)) = net_peers n" "net_localID (fst (Broadcast n ks t q)) = net_localID n"
    and "net_msgCh (fst (Broadcast n ks t q)) = net_msgCh n"
    and "snd (snd (Broadcast n ks t q)) = card {c \<in> active. fst (writeFrame (net_conns n c) (wire_data n t q)) = None}"
    and "fst (snd (Broadcast n ks t q)) = None \<longleftrightarrow> (\<forall>c\<in>active. fst (writeFrame (net_conns n c) (wire_data n t q)) = None)"
proof -
  let ?ps = "range_vals (net_peers n) ks"
  have a: "set (targets ?ps) = active"
    using assms(2) unfolding set_targets active_def range_order_def by blast
  have d: "distinct (targets ?ps)"
    using distinct_targets [OF assms(1)] assms(2) by (simp add: range_order_def)
  note l = broadcast_loop [OF d, where n = n and e = None and k = 0 and data = "wire_data n t q", folded Broadcast_def, unfolded a]
  show "net_conns (fst (Broadcast n ks t q)) c =
      (if c \<in> active then snd (writeFrame (net_conns n c) (wire_data n t q)) else net_conns n c)"
    and "net_peers (fst (Broadcast n ks t q)) = net_peers n" "net_localID (fst (Broadcast n ks t q)) = net_localID n"
    and "net_msgCh (fst (Broadcast n ks t q)) = net_msgCh n"
    and "fst (snd (Broadcast n ks t q)) = None \<longleftrightarrow> (\<forall>c\<in>active. fst (writeFrame (net_conns n c) (wire_data n t q)) = None)"
    using l by simp_all
  have "length (filter (\<lambda>c. fst (writeFrame (net_conns n c) (wire_data n t q)) = None) (targets ?ps)) =
      card {c \<in> set (targets ?ps). fst (writeFrame (net_conns n c) (wire_data n t q)) = None}"
    unfolding distinct_length_filter [OF d] by (rule arg_cong [where f = card]) blast
  then show "snd (snd (Broadcast n ks t q)) = card {c \<in> active. fst (writeFrame (net_conns n c) (wire_data n t q)) = None}"
    using l(5) a by simp
qed

section \<open>Delivery\<close>

definition message_of :: "Network \<Rightarrow> goint \<times> byte_slice \<Rightarrow> Message" where
  "message_of n m = \<lparr>msg_Type = fst m, msg_From = net_localID n, msg_Payload = snd m\<rparr>"

fun broadcast_all :: "Network \<Rightarrow> string list \<Rightarrow> (goint \<times> byte_slice) list \<Rightarrow> Network" where
  "broadcast_all n ks [] = n"
| "broadcast_all n ks ((t, q) # ms) = broadcast_all (fst (Broadcast n ks t q)) ks ms"

lemma broadcast_all_out:
  assumes "conns_distinct n" "range_order (net_peers n) ks" "net_peers n k = Some p" "sendable p = Some c"
    and "usable (net_conns n c)"
  shows "cn_out (net_conns (broadcast_all n ks ms) c) =
    cn_out (net_conns n c) @ concat (map (\<lambda>(t, q). frame (wire_data n t q)) ms)"
  using assms
proof (induction ms arbitrary: n)
  case (Cons m ms)
  obtain t q where m: "m = (t, q)" by fastforce
  let ?n = "fst (Broadcast n ks t q)"
  note e = Broadcast_effect [OF Cons.prems(1,2), of t q]
  have c: "net_conns ?n c = (net_conns n c)\<lparr>cn_out := cn_out (net_conns n c) @ frame (wire_data n t q)\<rparr>"
    using e(1) [of c] Cons.prems(3-5) by (auto simp: writeFrame_usable)
  have w: "wire_data ?n = wire_data n" using e(3) by (simp add: wire_data_def fun_eq_iff)
  have "cn_out (net_conns (broadcast_all ?n ks ms) c) =
      cn_out (net_conns ?n c) @ concat (map (\<lambda>(t, q). frame (wire_data ?n t q)) ms)"
    using Cons.prems e(2) c by (intro Cons.IH) (simp_all add: conns_distinct_def usable_def)
  then show ?case by (simp add: m c w)
qed simp

lemma handle_frame_wire:
  assumes "valid_utf8 (net_localID s)"
  shows "handle_frame n (wire_data s t q) = deliver n (message_of s (t, q))"
  using wireMessage_roundtrip [of "\<lparr>wm_Type = t, wm_From = net_localID s, wm_Payload = q\<rparr>"] assms
  by (simp add: handle_frame_def wire_data_def message_of_def)

lemma deliver_frames [simp]:
  "net_peers (deliver n m) = net_peers n" "net_cancelled (deliver n m) = net_cancelled n"
  by (simp_all add: deliver_def)

lemma deliver_set_conn: "deliver (set_conn n c cn) m = set_conn (deliver n m) c cn"
  by (simp add: deliver_def set_conn_def)

lemma set_conn_twice: "set_conn (set_conn n c a) c b = set_conn n c b"
  by (simp add: set_conn_def)

lemma exit_frames [simp]:
  "net_msgCh (readLoop_exit n k c) = net_msgCh n"
  "cn_closed (net_conns (readLoop_exit n k c) c)"
  "net_peers (readLoop_exit n k c) k = map_option (\<lambda>p. p\<lparr>peer_IsActive := False\<rparr>) (net_peers n k)"
  by (simp_all add: readLoop_exit_def deactivate_def close_conn_def split: option.split)

lemma readLoop_frames:
  assumes "\<not> net_cancelled n" "\<not> cn_closed (net_conns n c)" "valid_utf8 (net_localID s)"
    and "list_all (\<lambda>(t, q). length (wire_data s t q) \<le> 10485760) ms"
    and "cn_in (net_conns n c) = concat (map (\<lambda>(t, q). frame (wire_data s t q)) ms)"
  shows "\<exists>cn. readLoop n k c = readLoop_exit (set_conn (foldl deliver n (map (message_of s) ms)) c cn) k c"
  using assms
proof (induction ms arbitrary: n)
  case Nil
  obtain e cn where "readFrame (net_conns n c) = (Err e, cn)"
    using Nil by (auto simp: readFrame_def read_full_def)
  then show ?case using Nil(1) by (auto simp: readLoop.simps [of n] readLoop_step_def)
next
  case (Cons m ms)
  obtain t q where m: "m = (t, q)" by fastforce
  let ?cn = "(net_conns n c)\<lparr>cn_in := concat (map (\<lambda>(t, q). frame (wire_data s t q)) ms)\<rparr>"
  let ?n = "deliver (set_conn n c ?cn) (message_of s m)"
  have "readFrame (net_conns n c) = (Ok (wire_data s t q), ?cn)"
    using Cons.prems m readFrame_frame [of "net_conns n c" "wire_data s t q" "concat (map (\<lambda>(t, q). frame (wire_data s t q)) ms)"]
    by simp
  then have "readLoop_step n k c = (?n, True)"
    using Cons.prems(1) by (simp add: readLoop_step_def handle_frame_wire [OF Cons.prems(3)] m)
  then have "readLoop n k c = readLoop ?n k c" by (simp add: readLoop.simps [of n])
  moreover have "\<exists>cn. readLoop ?n k c = readLoop_exit (set_conn (foldl deliver ?n (map (message_of s) ms)) c cn) k c"
    using Cons.prems by (intro Cons.IH) simp_all
  moreover have "set_conn (foldl deliver ?n ms') c cn = set_conn (foldl deliver (deliver n (message_of s m)) ms') c cn" for ms' cn
  proof -
    have "foldl deliver (set_conn x c cn') ms' = set_conn (foldl deliver x ms') c cn'" for x cn'
      by (induction ms' arbitrary: x) (simp_all add: deliver_set_conn)
    then show ?thesis by (simp add: deliver_set_conn set_conn_twice)
  qed
  ultimately show ?case by (simp add: m)
qed

section \<open>Interleaving\<close>

text \<open>
  The goroutines of the network: an iteration of the accept loop or a finished dial, the two
  writes of an announcement, an iteration of a read loop, the liveness check, and what the outside world does to the
  connections. A connection a listener or a dial returns is a new one.
\<close>

definition fresh :: "Network \<Rightarrow> nat \<Rightarrow> bool" where
  "fresh n c \<longleftrightarrow> (\<forall>k p. net_peers n k = Some p \<longrightarrow> peer_conn p \<noteq> Some c)"

inductive net_run :: "Network \<Rightarrow> Network \<Rightarrow> bool" where
  accept: "net_listening n \<Longrightarrow> fresh n c \<Longrightarrow> net_run n (file_peer n (''inbound-'' @ addr) addr c)"
| dial: "addr \<in> set (connectToBootnodes before (net_bootnodes n)) \<Longrightarrow> dial_loop ctxDone dial 0 = (ds, Some c) \<Longrightarrow> fresh n c \<Longrightarrow>
    net_run n (file_peer n (''outbound-'' @ addr) addr c)"
| announce_length: "(c, False) \<in> set (net_greeting n) \<Longrightarrow> net_run n (announce_length n c)"
| announce_body: "(c, True) \<in> set (net_greeting n) \<Longrightarrow> net_run n (announce_body n c)"
| read: "net_run n (fst (readLoop_step n k c))"
| liveness: "range_order (net_peers n) ks \<Longrightarrow> net_run n (checkPeerLiveness n ks alive)"
| world: "net_run n (n\<lparr>net_conns := conns\<rparr>)"

text \<open>The network as the other components use it: they call it, start it, stop it and take its messages.\<close>

inductive net_step :: "Network \<Rightarrow> Network \<Rightarrow> bool" where
  run: "net_run n n' \<Longrightarrow> net_step n n'"
| broadcast: "range_order (net_peers n) ks \<Longrightarrow> net_step n (fst (Broadcast n ks t q))"
| send: "net_step n (snd (SendTo n k t q))"
| take: "receive n = Some (m, n') \<Longrightarrow> net_step n n'"
| start: "StartNetwork n b = Ok n' \<Longrightarrow> net_step n n'"
| stop: "range_order (net_peers n) ks \<Longrightarrow> net_step n (StopNetwork n ks)"

inductive_cases net_runE: "net_run n n'"
inductive_cases net_stepE: "net_step n n'"

definition net_inv :: "Network \<Rightarrow> bool" where
  "net_inv n \<longleftrightarrow> length (net_msgCh n) \<le> channel_capacity \<and>
     (\<forall>k p. net_peers n k = Some p \<longrightarrow> peer_ID p = k) \<and> conns_distinct n"

text \<open>Two networks that differ at most in connections, activity flags and the listener.\<close>

definition same_shape :: "Network \<Rightarrow> Network \<Rightarrow> bool" where
  "same_shape n n' \<longleftrightarrow> net_localID n' = net_localID n \<and> net_cfg n' = net_cfg n \<and>
     (\<forall>k. map_option (\<lambda>p. p\<lparr>peer_IsActive := False\<rparr>) (net_peers n' k) =
          map_option (\<lambda>p. p\<lparr>peer_IsActive := False\<rparr>) (net_peers n k))"

definition net_le :: "Network \<Rightarrow> Network \<Rightarrow> bool" where
  "net_le n n' \<longleftrightarrow> net_localID n' = net_localID n \<and> net_cfg n' = net_cfg n \<and> dom (net_peers n) \<subseteq> dom (net_peers n')"

lemma same_shape_refl [simp]: "same_shape n n"
  by (simp add: same_shape_def)

lemma same_shape_trans: "same_shape n m \<Longrightarrow> same_shape m l \<Longrightarrow> same_shape n l"
  by (simp add: same_shape_def)

lemma same_shape_dom:
  assumes "same_shape n n'"
  shows "dom (net_peers n') = dom (net_peers n)"
proof -
  have "net_peers n' k = None \<longleftrightarrow> net_peers n k = None" for k
    using assms unfolding same_shape_def by (metis map_option_is_None)
  then show ?thesis by (simp add: set_eq_iff domIff)
qed

lemma same_shape_le:
  assumes "same_shape n n'"
  shows "net_le n n'"
  using assms same_shape_dom [OF assms] by (simp add: net_le_def same_shape_def)

lemma same_shape_peers:
  assumes "same_shape n n'" "net_peers n' k = Some p'"
  shows "\<exists>p. net_peers n k = Some p \<and> peer_ID p' = peer_ID p \<and> peer_conn p' = peer_conn p"
proof -
  have "map_option (\<lambda>p. p\<lparr>peer_IsActive := False\<rparr>) (net_peers n k) = Some (p'\<lparr>peer_IsActive := False\<rparr>)"
    using assms unfolding same_shape_def by (metis option.simps(9))
  then obtain p where "net_peers n k = Some p" "p\<lparr>peer_IsActive := False\<rparr> = p'\<lparr>peer_IsActive := False\<rparr>" by auto
  then show ?thesis by (metis Peer.select_convs(1,6) Peer.surjective Peer.update_convs(4))
qed

lemma same_shape_inv:
  assumes "same_shape n n'" "net_inv n" "length (net_msgCh n') \<le> channel_capacity"
  shows "net_inv n'"
  unfolding net_inv_def conns_distinct_def
proof (intro conjI allI impI)
  show "peer_ID p = k" if "net_peers n' k = Some p" for k p
    using same_shape_peers [OF assms(1) that] assms(2) by (auto simp: net_inv_def)
  fix k k' p p' c
  assume h: "net_peers n' k = Some p" "net_peers n' k' = Some p'" "peer_conn p = Some c" "peer_conn p' = Some c"
  obtain q q' where "net_peers n k = Some q" "net_peers n k' = Some q'" "peer_conn q = Some c" "peer_conn q' = Some c"
    using same_shape_peers [OF assms(1) h(1)] same_shape_peers [OF assms(1) h(2)] h(3,4) by auto
  then show "k = k'" using assms(2) unfolding net_inv_def conns_distinct_def by blast
qed (rule assms(3))

lemma shape_basic:
  "same_shape n (set_conn n c cn)" "same_shape n (close_conn n c)" "same_shape n (deliver n m)"
  "same_shape n (handle_frame n d)" "same_shape n (deactivate n k)" "same_shape n (close_peer n p)"
  by (auto simp: same_shape_def set_conn_def close_conn_def deliver_def handle_frame_def deactivate_def close_peer_def
      split: option.split)

lemma chan_basic [simp]:
  "net_msgCh (close_conn n c) = net_msgCh n" "net_msgCh (deactivate n k) = net_msgCh n"
  "net_msgCh (close_peer n p) = net_msgCh n"
  by (simp_all add: close_conn_def deactivate_def close_peer_def split: option.split)

lemma shape_foldl:
  assumes "\<And>n x. same_shape n (f n x) \<and> net_msgCh (f n x) = net_msgCh n"
  shows "same_shape n (foldl f n xs) \<and> net_msgCh (foldl f n xs) = net_msgCh n"
proof (induction xs arbitrary: n)
  case (Cons x xs)
  then show ?case using assms [of n x] same_shape_trans by fastforce
qed simp

lemma shape_exit: "same_shape n (readLoop_exit n k c)"
  unfolding readLoop_exit_def using shape_basic(2,5) same_shape_trans by blast

lemma shape_read:
  "same_shape n (fst (readLoop_step n k c))"
  "length (net_msgCh n) \<le> channel_capacity \<Longrightarrow> length (net_msgCh (fst (readLoop_step n k c))) \<le> channel_capacity"
proof -
  obtain r cn where r: "readFrame (net_conns n c) = (r, cn)" by fastforce
  have f: "same_shape n (handle_frame (set_conn n c cn) d)" "same_shape n (readLoop_exit (set_conn n c cn) k c)" for d
    using shape_basic(1,4) shape_exit same_shape_trans by blast+
  show "same_shape n (fst (readLoop_step n k c))"
    using f r by (auto simp: readLoop_step_def shape_exit split: go_result.split)
  show "length (net_msgCh n) \<le> channel_capacity \<Longrightarrow> length (net_msgCh (fst (readLoop_step n k c))) \<le> channel_capacity"
    using r by (auto simp: readLoop_step_def handle_frame_def deliver_def split: go_result.split option.split)
qed

lemma shape_liveness: "same_shape n (checkPeerLiveness n ks alive) \<and> net_msgCh (checkPeerLiveness n ks alive) = net_msgCh n"
  unfolding checkPeerLiveness_def
proof (rule shape_foldl)
  fix n k
  have "same_shape n (close_conn (deactivate n k) c)" for c
    using shape_basic(2,5) same_shape_trans by blast
  then show "same_shape n (probe_peer alive n k) \<and> net_msgCh (probe_peer alive n k) = net_msgCh n"
    by (auto simp: probe_peer_def split: option.split)
qed

lemma shape_stop: "same_shape n (StopNetwork n ks) \<and> net_msgCh (StopNetwork n ks) = net_msgCh n"
proof -
  let ?n = "n\<lparr>net_cancelled := True, net_listening := False\<rparr>"
  have "same_shape ?n (StopNetwork n ks) \<and> net_msgCh (StopNetwork n ks) = net_msgCh ?n"
    unfolding StopNetwork_def by (rule shape_foldl) (simp add: shape_basic)
  then show ?thesis by (simp add: same_shape_def)
qed

lemma broadcast_step_shape:
  "same_shape (fst acc) (fst (broadcast_step d acc p)) \<and> net_msgCh (fst (broadcast_step d acc p)) = net_msgCh (fst acc)"
  by (auto simp: broadcast_step_def shape_basic split: option.split prod.split)

lemma shape_broadcast: "same_shape n (fst (Broadcast n ks t q)) \<and> net_msgCh (fst (Broadcast n ks t q)) = net_msgCh n"
proof -
  have "same_shape (fst acc) (fst (foldl (broadcast_step d) acc ps)) \<and>
      net_msgCh (fst (foldl (broadcast_step d) acc ps)) = net_msgCh (fst acc)" for acc d ps
  proof (induction ps arbitrary: acc)
    case (Cons p ps)
    then show ?case using broadcast_step_shape [of acc d p] same_shape_trans by fastforce
  qed simp
  then show ?thesis unfolding Broadcast_def by fastforce
qed

lemma net_inv_file_peer:
  assumes "net_inv n" "fresh n c"
  shows "net_inv (file_peer n k a c) \<and> net_le n (file_peer n k a c)"
  using assms by (auto simp: net_inv_def file_peer_def conns_distinct_def fresh_def net_le_def)

lemma shape_announce:
  "same_shape n (announce_length n c) \<and> net_msgCh (announce_length n c) = net_msgCh n"
  "same_shape n (announce_body n c) \<and> net_msgCh (announce_body n c) = net_msgCh n"
  by (simp_all add: announce_length_def announce_body_def same_shape_def set_conn_def split: prod.split)

lemma net_inv_shape:
  assumes "net_inv n" "same_shape n m" "length (net_msgCh m) \<le> channel_capacity \<or> net_msgCh m = net_msgCh n"
  shows "net_inv m \<and> net_le n m"
  using same_shape_inv [OF assms(2,1)] same_shape_le [OF assms(2)] assms(1,3) by (auto simp: net_inv_def)

lemma net_run_inv:
  assumes "net_run n n'" "net_inv n"
  shows "net_inv n' \<and> net_le n n'"
  using assms(1)
proof cases
  case (read k c)
  then show ?thesis using net_inv_shape [OF assms(2)] shape_read [of n k c] assms(2) by (simp add: net_inv_def)
next
  case (liveness ks alive)
  then show ?thesis using net_inv_shape [OF assms(2), of n'] shape_liveness [of n ks alive] by simp
next
  case (world conns)
  then show ?thesis using net_inv_shape [OF assms(2), of n'] by (simp add: same_shape_def)
next
  case (announce_length c)
  then show ?thesis using net_inv_shape [OF assms(2), of n'] shape_announce(1) [of n c] by simp
next
  case (announce_body c)
  then show ?thesis using net_inv_shape [OF assms(2), of n'] shape_announce(2) [of n c] by simp
qed (use net_inv_file_peer [OF assms(2)] in simp_all)

lemma net_step_inv:
  assumes "net_step n n'" "net_inv n"
  shows "net_inv n' \<and> net_le n n'"
  using assms(1)
proof cases
  case run
  then show ?thesis using net_run_inv assms(2) by blast
next
  case (broadcast ks t q)
  then show ?thesis using net_inv_shape [OF assms(2), of n'] shape_broadcast [of n ks t q] by simp
next
  case (send k t q)
  then have "same_shape n n' \<and> net_msgCh n' = net_msgCh n"
    by (auto simp: SendTo_def shape_basic split: option.split prod.split)
  then show ?thesis using net_inv_shape [OF assms(2), of n'] by simp
next
  case (take m)
  then show ?thesis using net_inv_shape [OF assms(2), of n'] assms(2) by (auto simp: receive_def same_shape_def net_inv_def split: list.splits)
next
  case (start b)
  then show ?thesis using net_inv_shape [OF assms(2), of n'] by (auto simp: StartNetwork_def same_shape_def split: if_splits)
next
  case (stop ks)
  then show ?thesis using net_inv_shape [OF assms(2), of n'] shape_stop [of n ks] by simp
qed

text \<open>The liveness loop is a run of the network.\<close>

lemma livenessLoop_runs:
  assumes "\<And>ks alive. (ks, alive) \<in> set ticks \<Longrightarrow> range_order (net_peers n) ks"
  shows "net_run\<^sup>*\<^sup>* n (livenessLoop n ticks)"
  using assms
proof (induction ticks arbitrary: n)
  case (Cons t ticks)
  obtain ks alive where t: "t = (ks, alive)" by (cases t)
  let ?m = "checkPeerLiveness n ks alive"
  have d: "dom (net_peers ?m) = dom (net_peers n)"
    using shape_liveness [of n ks alive] by (intro same_shape_dom) simp
  then have "net_run\<^sup>*\<^sup>* ?m (livenessLoop ?m ticks)" 
    using Cons.prems by (intro Cons.IH) (metis d range_order_def list.set_intros(2))
  moreover have "net_run n ?m" using Cons.prems [of ks alive] t by (intro liveness) simp
  ultimately show ?case by (simp add: livenessLoop_def t converse_rtranclp_into_rtranclp)
qed (simp add: livenessLoop_def)

lemma net_steps_inv:
  assumes "net_step\<^sup>*\<^sup>* n n'" "net_inv n"
  shows "net_inv n' \<and> net_le n n'"
  using assms
proof (induction rule: rtranclp_induct)
  case (step m m')
  then have "net_inv m' \<and> net_le m m'" "net_le n m" using net_step_inv by blast+
  then show ?case by (auto simp: net_le_def)
qed (simp add: net_le_def)

lemma net_inv_new [simp]: "net_inv (NewNetwork cfg conns)"
  by (simp add: net_inv_def NewNetwork_def conns_distinct_def)

definition local_id :: "ValidatorConfig \<Rightarrow> string" where
  "local_id cfg = ''validator-'' @ decimal (sint (P2PPort cfg))"

lemma decimal_ascii: "list_all (\<lambda>c. code c < 128) (decimal n)"
proof -
  have d: "list_all is_digit s \<Longrightarrow> list_all (\<lambda>c. code c < 128) s" for s
    by (auto simp: list_all_iff is_digit_def)
  show ?thesis
    using d decimal_nonneg [of n] decimal_nonneg [of "- n"] decimal_neg [of n] by (cases "n < 0") simp_all
qed

lemma local_id_utf8: "valid_utf8 (local_id cfg)"
  by (intro valid_utf8_ascii) (simp add: local_id_def decimal_ascii)

lemma reachable_net:
  assumes "net_step\<^sup>*\<^sup>* (NewNetwork cfg conns) n"
  shows "net_inv n" "net_localID n = local_id cfg"
proof -
  have r: "net_inv n \<and> net_le (NewNetwork cfg conns) n" by (rule net_steps_inv [OF assms net_inv_new])
  then show "net_inv n" ..
  have "net_localID (NewNetwork cfg conns) = local_id cfg" by (simp add: local_id_def NewNetwork_def)
  then show "net_localID n = local_id cfg" using r by (simp add: net_le_def)
qed

lemma dial_loop_success:
  assumes "a \<le> i" "i < 5" "\<And>j. a \<le> j \<Longrightarrow> j < i \<Longrightarrow> dial j = None \<and> \<not> ctxDone j" "\<not> ctxDone i" "dial i = Some c"
  shows "dial_loop ctxDone dial a = (map (\<lambda>j. 2 ^ j) [a..<i], Some c)"
  using assms
proof (induction "i - a" arbitrary: a)
  case 0
  then show ?case by (subst dial_loop.simps) simp
next
  case (Suc m)
  then have "dial a = None" "\<not> ctxDone a" "a < i" by auto
  moreover have "dial_loop ctxDone dial (Suc a) = (map (\<lambda>j. 2 ^ j) [Suc a..<i], Some c)"
    using Suc by (intro Suc.hyps) auto
  ultimately show ?case using Suc.prems(2) by (subst dial_loop.simps) (simp add: upt_conv_Cons)
qed

lemma dial_loop_failure:
  assumes "a \<le> 5" "\<And>j. a \<le> j \<Longrightarrow> j < 5 \<Longrightarrow> dial j = None \<and> \<not> ctxDone j"
  shows "dial_loop ctxDone dial a = (map (\<lambda>j. 2 ^ j) [a..<5], None)"
  using assms
proof (induction "5 - a" arbitrary: a)
  case 0
  then show ?case by (subst dial_loop.simps) simp
next
  case (Suc m)
  then have "dial a = None" "\<not> ctxDone a" "a < 5" by auto
  moreover have "dial_loop ctxDone dial (Suc a) = (map (\<lambda>j. 2 ^ j) [Suc a..<5], None)"
    using Suc by (intro Suc.hyps) auto
  ultimately show ?case by (subst dial_loop.simps) (simp add: upt_conv_Cons)
qed

text \<open>The steps of a new connection, when nothing else runs.\<close>

lemma add_peer_run: "net_run\<^sup>*\<^sup>* (file_peer n k a c) (add_peer n k a c)"
proof -
  let ?n = "file_peer n k a c"
  obtain e cn where w: "conn_write (net_conns ?n c) (be_bytes32 (word_of_nat (length (announce_data ?n)))) = (e, cn)" by fastforce
  have l: "net_run ?n (announce_length ?n c)" by (rule net_run.announce_length) (simp add: file_peer_def)
  show ?thesis
  proof (cases e)
    case None
    let ?m = "(set_conn ?n c cn)\<lparr>net_greeting := (c, True) # net_greeting n\<rparr>"
    have m: "announce_length ?n c = ?m" using w None by (simp add: announce_length_def) (simp add: file_peer_def)
    have d: "announce_data ?m = announce_data ?n" by (simp add: announce_data_def wire_data_def announce_payload_def set_conn_def)
    have "net_run ?m (announce_body ?m c)" by (rule net_run.announce_body) simp
    moreover have "announce_body ?m c = add_peer n k a c"
      using w None by (simp add: announce_body_def d add_peer_def Let_def writeFrame_def) (simp add: set_conn_def)
    ultimately show ?thesis using l m by (metis converse_rtranclp_into_rtranclp r_into_rtranclp)
  next
    case (Some x)
    then have "announce_length ?n c = add_peer n k a c"
      using w by (simp add: announce_length_def add_peer_def Let_def writeFrame_def) (simp add: file_peer_def)
    then show ?thesis using l by (metis r_into_rtranclp)
  qed
qed

lemma net_runs: "net_run\<^sup>*\<^sup>* n n' \<Longrightarrow> net_step\<^sup>*\<^sup>* n n'"
  by (induction rule: rtranclp_induct) (auto intro: run rtranclp.rtrancl_into_rtrancl)

definition example_conn :: Conn where
  "example_conn = \<lparr>cn_in = [], cn_end = IoEOF, cn_out = [], cn_room = None, cn_closed = False\<rparr>"

definition example_net :: Network where
  "example_net = NewNetwork ((cfg_Validator DefaultConfig)\<lparr>Bootnodes := [''a'']\<rparr>) (\<lambda>_. example_conn)"

definition example_sender :: Network where
  "example_sender = add_peer example_net ''outbound-a'' ''a'' 0"

lemma example_sender_reachable: "net_step\<^sup>*\<^sup>* example_net example_sender"
proof -
  have "dial_loop (\<lambda>_. False) (\<lambda>_. Some 0) 0 = ([], Some 0)" by (simp add: dial_loop.simps)
  then have "net_step example_net (file_peer example_net (''outbound-'' @ ''a'') ''a'' 0)"
    by (intro run dial [where before = "\<lambda>_. False"]) (simp_all add: example_net_def NewNetwork_def fresh_def connectToBootnodes_def)
  then show ?thesis
    using net_runs [OF add_peer_run, of example_net "''outbound-a''" "''a''" 0]
    by (simp add: example_sender_def converse_rtranclp_into_rtranclp [of net_step])
qed

lemma example_sender_facts:
  "net_peers example_sender = [''outbound-a'' \<mapsto> \<lparr>peer_ID = ''outbound-a'', peer_Address = ''a'',
     peer_Version = ''inso/1.0'', peer_IsActive = True, peer_Latency = 0, peer_conn = Some 0\<rparr>]"
  "usable (net_conns example_sender c)" "net_localID example_sender = local_id (cfg_Validator DefaultConfig)"
proof -
  have "net_conns example_net c = example_conn" "usable example_conn" for c
    by (simp_all add: example_net_def NewNetwork_def example_conn_def usable_def)
  then show "usable (net_conns example_sender c)"
    by (simp add: example_sender_def add_peer_def file_peer_def Let_def set_conn_def writeFrame_usable usable_def)
qed (simp_all add: example_sender_def add_peer_def file_peer_def Let_def example_net_def NewNetwork_def local_id_def DefaultConfig_def)

lemma example_wire: "length (wire_data example_sender MsgNewBlock (Some [1, 2])) = 40"
proof -
  have "length (json_print (json_of_wireMessage \<lparr>wm_Type = MsgNewBlock, wm_From = local_id (cfg_Validator DefaultConfig), wm_Payload = Some [1, 2]\<rparr>)) = 40"
    by (simp add: json_of_wireMessage_def json_int_def json_bytes_def quote_plain plain_def local_id_def DefaultConfig_def decimal.simps MsgNewBlock_def digit_char_def b64_char_def)
  then show ?thesis
    by (simp add: wire_data_def example_sender_facts(3) EncodePayload_def bytes_of_string_def)
qed

section \<open>Properties\<close>

text \<open>
  C22: A frame written on one end of a connection is read back on the other end exactly, with
  the bytes after it left unread, when it has at most 10 MiB; a longer frame (below 4 GiB)
  is written without complaint and refused by the reader with its length.
\<close>

theorem frame_roundtrip:
  assumes "usable a" "writeFrame a data = (e, a')" "cn_out a' = cn_out a @ sent"
    and "\<not> cn_closed b" "cn_in b = sent @ rest" "length data < 2 ^ 32"
  shows "e = None \<and> readFrame b = (if length data \<le> 10 * 1024 * 1024 then (Ok data, b\<lparr>cn_in := rest\<rparr>)
    else (Err (MessageTooLarge (word_of_nat (length data))), b\<lparr>cn_in := data @ rest\<rparr>))"
proof -
  have "e = None" "sent = frame data" using writeFrame_usable [OF assms(1), of data] assms(2,3) by auto
  then show ?thesis using readFrame_frame [of b data rest] assms(4-6) by simp
qed

theorem frame_roundtrip_witness:
  "(None :: p2p_error option) = None \<and>
    readFrame (example_conn\<lparr>cn_in := frame [1, 2, 3] @ [9]\<rparr>) = (Ok [1, 2, 3], example_conn\<lparr>cn_in := [9]\<rparr>)"
  using frame_roundtrip [of example_conn "[1, 2, 3]" None "example_conn\<lparr>cn_out := frame [1, 2, 3]\<rparr>" "frame [1, 2, 3]"
      "example_conn\<lparr>cn_in := frame [1, 2, 3] @ [9]\<rparr>" "[9]"]
  by (simp add: writeFrame_usable usable_def example_conn_def)

text \<open>
  C10: Gossip arrives: whatever two networks have done since they were created, the messages
  one of them broadcasts to a connected peer reach that peer's channel in order, each with
  its type, sender and payload unchanged, as long as there is room; the channel then holds
  the first 4096 messages. When the stream ends the read loop returns, the connection is
  closed and the peer is marked inactive.
\<close>

theorem gossip_delivery:
  assumes "net_step\<^sup>*\<^sup>* (NewNetwork cfg conns) s" "range_order (net_peers s) ks"
    and "net_peers s k = Some p" "sendable p = Some c" "usable (net_conns s c)"
    and "net_step\<^sup>*\<^sup>* (NewNetwork cfg' conns') r" "\<not> net_cancelled r" "\<not> cn_closed (net_conns r d)"
    and "list_all (\<lambda>(t, q). length (wire_data s t q) \<le> 10 * 1024 * 1024) ms"
    and "cn_out (net_conns (broadcast_all s ks ms) c) = cn_out (net_conns s c) @ cn_in (net_conns r d)"
  shows "net_msgCh (readLoop r peerID d) = take channel_capacity (net_msgCh r @
      map (\<lambda>(t, q). \<lparr>msg_Type = t, msg_From = net_localID s, msg_Payload = q\<rparr>) ms) \<and>
    cn_closed (net_conns (readLoop r peerID d) d) \<and>
    net_peers (readLoop r peerID d) peerID = map_option (\<lambda>p. p\<lparr>peer_IsActive := False\<rparr>) (net_peers r peerID)"
proof -
  have s: "conns_distinct s" "valid_utf8 (net_localID s)"
    using reachable_net [OF assms(1)] local_id_utf8 by (simp_all add: net_inv_def)
  have r: "length (net_msgCh r) \<le> channel_capacity" using reachable_net [OF assms(6)] by (simp add: net_inv_def)
  have i: "cn_in (net_conns r d) = concat (map (\<lambda>(t, q). frame (wire_data s t q)) ms)"
    using broadcast_all_out [OF s(1) assms(2-5), of ms] assms(10) by simp
  obtain cn where l: "readLoop r peerID d = readLoop_exit (set_conn (foldl deliver r (map (message_of s) ms)) d cn) peerID d"
    using readLoop_frames [OF assms(7,8) s(2) _ i] assms(9) by auto
  have q: "net_peers (foldl deliver r xs) = net_peers r" for xs by (induction xs arbitrary: r) simp_all
  have m: "map (message_of s) ms = map (\<lambda>(t, q). \<lparr>msg_Type = t, msg_From = net_localID s, msg_Payload = q\<rparr>) ms"
    by (simp add: message_of_def case_prod_unfold)
  show ?thesis
    unfolding m [symmetric] using net_channel.contents_send_all [OF r] by (simp add: l q)
qed

definition example_receiver :: Network where
  "example_receiver = NewNetwork (cfg_Validator DefaultConfig)
     (\<lambda>_. example_conn\<lparr>cn_in := frame (wire_data example_sender MsgNewBlock (Some [1, 2]))\<rparr>)"

theorem gossip_delivery_witness:
  "net_msgCh (readLoop example_receiver ''inbound-b'' 0) =
     [\<lparr>msg_Type = MsgNewBlock, msg_From = net_localID example_sender, msg_Payload = Some [1, 2]\<rparr>] \<and>
   cn_closed (net_conns (readLoop example_receiver ''inbound-b'' 0) 0) \<and>
   net_peers (readLoop example_receiver ''inbound-b'' 0) ''inbound-b'' = None"
proof -
  let ?p = "\<lparr>peer_ID = ''outbound-a'', peer_Address = ''a'', peer_Version = ''inso/1.0'', peer_IsActive = True,
     peer_Latency = 0, peer_conn = Some 0\<rparr>"
  note s = example_sender_reachable [unfolded example_net_def]
  have o: "range_order (net_peers example_sender) [''outbound-a'']" by (simp add: example_sender_facts range_order_def)
  have p: "net_peers example_sender ''outbound-a'' = Some ?p" "sendable ?p = Some 0"
    by (simp_all add: example_sender_facts sendable_def)
  have d: "conns_distinct example_sender" using reachable_net [OF s] by (simp add: net_inv_def)
  have out: "cn_out (net_conns (broadcast_all example_sender [''outbound-a''] [(MsgNewBlock, Some [1, 2])]) 0) =
      cn_out (net_conns example_sender 0) @ cn_in (net_conns example_receiver 0)"
    using broadcast_all_out [OF d o p example_sender_facts(2), of "[(MsgNewBlock, Some [1, 2])]"]
    by (simp add: example_receiver_def NewNetwork_def del: broadcast_all.simps)
  have l: "list_all (\<lambda>(t, q). length (wire_data example_sender t q) \<le> 10 * 1024 * 1024) [(MsgNewBlock, Some [1, 2])]"
    by (simp add: example_wire)
  have r: "net_step\<^sup>*\<^sup>* (NewNetwork (cfg_Validator DefaultConfig)
      (\<lambda>_. example_conn\<lparr>cn_in := frame (wire_data example_sender MsgNewBlock (Some [1, 2]))\<rparr>)) example_receiver"
    by (simp add: example_receiver_def)
  have f: "\<not> net_cancelled example_receiver" "\<not> cn_closed (net_conns example_receiver 0)"
    "net_msgCh example_receiver = []" "net_peers example_receiver = Map.empty"
    by (simp_all add: example_receiver_def NewNetwork_def example_conn_def)
  show ?thesis
    using gossip_delivery [OF s o p example_sender_facts(2) r f(1,2) l out, of "''inbound-b''"]
    by (simp add: f(3,4) channel_capacity_def)
qed

text \<open>
  C31: A broadcast sends the same frame to every active peer with a connection and to nobody
  else, in whatever order the peers are visited; it reports an error exactly when one of
  the writes failed, and counts the peers reached.
\<close>

theorem Broadcast_reaches:
  assumes "net_step\<^sup>*\<^sup>* (NewNetwork cfg conns) n" "range_order (net_peers n) ks"
  shows "let active = {c. \<exists>k p. net_peers n k = Some p \<and> peer_IsActive p \<and> peer_conn p = Some c};
             w = (\<lambda>c. writeFrame (net_conns n c) (wire_data n t q));
             (n', err, sent) = Broadcast n ks t q
         in (\<forall>c. net_conns n' c = (if c \<in> active then snd (w c) else net_conns n c)) \<and>
            (err = None \<longleftrightarrow> (\<forall>c\<in>active. fst (w c) = None)) \<and> sent = card {c \<in> active. fst (w c) = None} \<and>
            net_peers n' = net_peers n \<and> net_msgCh n' = net_msgCh n"
proof -
  have d: "conns_distinct n" using reachable_net [OF assms(1)] by (simp add: net_inv_def)
  have a: "{c. \<exists>k p. net_peers n k = Some p \<and> peer_IsActive p \<and> peer_conn p = Some c} =
      {c. \<exists>k p. net_peers n k = Some p \<and> sendable p = Some c}"
    by (auto simp: sendable_def split: if_splits)
  show ?thesis
    unfolding a Let_def case_prod_unfold using Broadcast_effect [OF d assms(2), of t q] by simp
qed

theorem Broadcast_reaches_witness:
  "let active = {c. \<exists>k p. net_peers example_sender k = Some p \<and> peer_IsActive p \<and> peer_conn p = Some c};
       w = (\<lambda>c. writeFrame (net_conns example_sender c) (wire_data example_sender 1 None));
       (n', err, sent) = Broadcast example_sender [''outbound-a''] 1 None
   in (\<forall>c. net_conns n' c = (if c \<in> active then snd (w c) else net_conns example_sender c)) \<and>
      (err = None \<longleftrightarrow> (\<forall>c\<in>active. fst (w c) = None)) \<and> sent = card {c \<in> active. fst (w c) = None} \<and>
      net_peers n' = net_peers example_sender \<and> net_msgCh n' = net_msgCh example_sender"
  by (rule Broadcast_reaches [OF example_sender_reachable [unfolded example_net_def]])
    (simp add: example_sender_facts range_order_def)

text \<open>
  C21: Over every interleaving of the accept loop, the dials, the read loops, the liveness
  check, the consumers and the outside world, the channel never holds more than 4096
  messages, peers are filed under their own identifier and no two share a connection, the
  local identifier stays, no peer is ever removed, and the consumers take the messages in
  the order they were delivered.
\<close>

theorem network_invariant:
  assumes "net_step\<^sup>*\<^sup>* (NewNetwork cfg conns) n" "net_step\<^sup>*\<^sup>* n n'"
  shows "length (net_msgCh n') \<le> 4096 \<and> (\<forall>k p. net_peers n' k = Some p \<longrightarrow> peer_ID p = k) \<and> conns_distinct n' \<and>
    net_localID n' = ''validator-'' @ decimal (sint (P2PPort cfg)) \<and> dom (net_peers n) \<subseteq> dom (net_peers n') \<and>
    (\<forall>i \<le> length (net_msgCh n'). fst (drain receive i n') = take i (net_msgCh n'))"
proof -
  have n: "net_inv n" and r: "net_step\<^sup>*\<^sup>* (NewNetwork cfg conns) n'"
    using reachable_net [OF assms(1)] assms by auto
  show ?thesis
    using reachable_net [OF r] net_steps_inv [OF assms(2) n] net_channel.drain_contents [of _ n']
    by (simp add: net_inv_def net_le_def local_id_def channel_capacity_def)
qed

theorem network_invariant_witness:
  "length (net_msgCh example_sender) \<le> 4096 \<and> conns_distinct example_sender \<and>
    map_option peer_ID (net_peers example_sender ''outbound-a'') = Some ''outbound-a'' \<and>
    net_localID example_sender = ''validator-'' @ decimal (sint (P2PPort ((cfg_Validator DefaultConfig)\<lparr>Bootnodes := [''a'']\<rparr>))) \<and>
    dom (net_peers example_net) \<subseteq> dom (net_peers example_sender) \<and> fst (drain receive 0 example_sender) = []"
proof -
  have "net_step\<^sup>*\<^sup>* (NewNetwork ((cfg_Validator DefaultConfig)\<lparr>Bootnodes := [''a'']\<rparr>) (\<lambda>_. example_conn)) example_net"
    by (simp add: example_net_def)
  from network_invariant [OF this example_sender_reachable] show ?thesis
    by (simp add: example_sender_facts(1))
qed

text \<open>
  C38: Dialling a boot node stops at the first success: after \<open>i\<close> failures the loop has slept
  1, 2, 4, ... seconds, one delay per failure, and returns that connection; after five
  failures it gives up, having slept 31 seconds in all.
\<close>

theorem dial_backoff:
  assumes "\<forall>j<5. \<not> ctxDone j"
  shows "(\<forall>i<5. \<forall>c. (\<forall>j<i. dial j = None) \<longrightarrow> dial i = Some c \<longrightarrow>
      dial_loop ctxDone dial 0 = (map (\<lambda>j. 2 ^ j) [0..<i], Some c)) \<and>
    ((\<forall>j<5. dial j = None) \<longrightarrow> dial_loop ctxDone dial 0 = ([1, 2, 4, 8, 16], None))"
proof (intro conjI allI impI)
  fix i c
  assume "i < 5" "\<forall>j<i. dial j = None" "dial i = Some c"
  then show "dial_loop ctxDone dial 0 = (map (\<lambda>j. 2 ^ j) [0..<i], Some c)"
    using assms by (intro dial_loop_success) auto
next
  assume "\<forall>j<5. dial j = None"
  then have "dial_loop ctxDone dial 0 = (map (\<lambda>j. 2 ^ j) [0..<5], None)"
    using assms by (intro dial_loop_failure) auto
  then show "dial_loop ctxDone dial 0 = ([1, 2, 4, 8, 16], None)" by (simp add: upt_rec)
qed

theorem dial_backoff_witness:
  "dial_loop (\<lambda>_. False) (\<lambda>i. if i = 2 then Some 7 else None) 0 = ([1, 2], Some 7) \<and>
   dial_loop (\<lambda>_. False) (\<lambda>i. None) 0 = ([1, 2, 4, 8, 16], None)"
proof
  have n: "\<forall>j<5. \<not> (\<lambda>_. False) (j :: nat)" by simp
  have s: "dial_loop (\<lambda>_. False) (\<lambda>i. if i = 2 then Some 7 else None) 0 = (map (\<lambda>j. 2 ^ j) [0..<2], Some 7)"
    using dial_backoff [OF n, of "\<lambda>i. if i = 2 then Some 7 else None"] by simp
  then show "dial_loop (\<lambda>_. False) (\<lambda>i. if i = 2 then Some 7 else None) 0 = ([1, 2], Some 7)"
    by (simp add: upt_rec)
  show "dial_loop (\<lambda>_. False) (\<lambda>i. None) 0 = ([1, 2, 4, 8, 16], None)"
    using dial_backoff [OF n, of "\<lambda>i. None"] by simp
qed

text \<open>
  The announcement a network sends on every new connection, written by a format string
  and not by the encoder, decodes as a validator announcement that carries the listening
  port and nothing else.
\<close>

lemma announce_decodes:
  "DecodeValidatorAnnounce (slice_bytes (announce_payload n)) =
     Ok \<lparr>va_Address = [], va_Port = P2PPort (net_cfg n), va_Version = [], va_ChainID = 0, va_Stake = []\<rparr>"
proof -
  have q: "quote ''port'' = CHR 0x22 # ''port'' @ [CHR 0x22]" by (simp add: quote_plain plain_def)
  have "slice_bytes (announce_payload n) = EncodePayload (JObj [(''port'', json_int (P2PPort (net_cfg n)))])"
    by (simp add: announce_payload_def slice_bytes_def EncodePayload_def json_int_def q)
  moreover have "unmarshal fields_ValidatorAnnounce (EncodePayload (JObj [(''port'', json_int (P2PPort (net_cfg n)))])) =
      fields_ValidatorAnnounce [(''port'', json_int (P2PPort (net_cfg n)))]"
    by (rule unmarshal_flat) (simp add: valid_utf8_ascii)
  ultimately show ?thesis
    by (simp add: DecodeValidatorAnnounce_def decode_as_def fields_ValidatorAnnounce_def struct_field_Cons)
qed
end
