(* ===== verification/Sync.thy ===== *)
theory Sync
  imports P2P Metrics "HOL-Library.Monad_Syntax"
begin

text \<open>
  The sync engine, \<^verbatim>\<open>internal/sync/engine.go\<close>. Blocks arrive from gossip (\<open>handleP2PBlock\<close>)
  and from the sequencer's RPC (\<open>syncFromRPC\<close>); \<open>processBlock\<close> decides which are kept. The
  HTTP client is a function \<open>post\<close> from a request body to a response body, \<open>None\<close> for a
  transport error; a request, the response and the numbers in them are the bytes that
  travel. The block callback is the list of blocks it is called with. The catch-up loop
  counts in 64 bits and need not end, so it is a partial function.
\<close>

section \<open>State\<close>

record L2Block =
  bl_Number :: uint64
  bl_Hash :: string
  bl_ParentHash :: string
  bl_Timestamp :: uint64
  bl_StateRoot :: string
  bl_GasUsed :: uint64
  bl_GasLimit :: uint64
  bl_TxCount :: goint
  bl_Sequencer :: string

text \<open>
  The cancel function is nil before \<^verbatim>\<open>Start\<close>; after it, the flag says whether it was called.
  Of the callback and the metrics collector the engine knows whether they are set.
\<close>

record SyncEngine =
  se_cfg :: SequencerConfig
  latestBlock :: uint64
  sblocks :: "uint64 \<rightharpoonup> L2Block"
  se_cancel :: "bool option"
  se_onNewBlock :: bool
  se_metrics :: bool

definition NewSyncEngine :: "SequencerConfig \<Rightarrow> SyncEngine" where
  "NewSyncEngine cfg = \<lparr>se_cfg = cfg, latestBlock = 0, sblocks = Map.empty, se_cancel = None, se_onNewBlock = False, se_metrics = False\<rparr>"

definition SetSyncMetrics :: "SyncEngine \<Rightarrow> SyncEngine" where
  "SetSyncMetrics e = e\<lparr>se_metrics := True\<rparr>"

definition OnNewBlock :: "SyncEngine \<Rightarrow> SyncEngine" where
  "OnNewBlock e = e\<lparr>se_onNewBlock := True\<rparr>"

definition StartSyncEngine :: "SyncEngine \<Rightarrow> SyncEngine" where
  "StartSyncEngine e = e\<lparr>se_cancel := Some False\<rparr>"

definition StopSyncEngine :: "SyncEngine \<Rightarrow> SyncEngine" where
  "StopSyncEngine e = e\<lparr>se_cancel := map_option (\<lambda>_. True) (se_cancel e)\<rparr>"

definition LatestBlock :: "SyncEngine \<Rightarrow> uint64" where
  "LatestBlock e = latestBlock e"

definition GetBlock :: "SyncEngine \<Rightarrow> uint64 \<Rightarrow> L2Block option" where
  "GetBlock e num = sblocks e num"

section \<open>The sequencer's RPC\<close>

type_synonym http_post = "bytes \<Rightarrow> bytes option"

datatype sync_error = RpcCallFailed | DecodeResponse | RpcError goint string | DecodeBlockNumber | DecodeBlock

definition rpc_request :: "string \<Rightarrow> json list \<Rightarrow> bytes" where
  "rpc_request method params = EncodePayload (JObj
     [(''id'', JNum ''1''), (''jsonrpc'', JStr ''2.0''), (''method'', JStr method), (''params'', JArr params)])"

text \<open>
  The fields of the response: \<^verbatim>\<open>result\<close> is kept as it is, \<open>None\<close> when it is missing; \<^verbatim>\<open>error\<close> is
  a pointer to a struct.
\<close>

definition dec_raw :: "json option \<Rightarrow> json \<Rightarrow> json option option" where
  "dec_raw old v = Some (Some v)"

definition dec_rpc_error :: "(goint \<times> string) option \<Rightarrow> json \<Rightarrow> (goint \<times> string) option option" where
  "dec_rpc_error old v = (case v of
     JNull \<Rightarrow> Some None
   | JObj kvs \<Rightarrow>
       (case old of None \<Rightarrow> Some (0, []) | Some ce \<Rightarrow> Some ce) \<bind> (\<lambda>(c, m).
        struct_field dec_int ''code'' c kvs \<bind> (\<lambda>c'. struct_field dec_string ''message'' m kvs \<bind> (\<lambda>m'. Some (Some (c', m')))))
   | _ \<Rightarrow> None)"

definition rpcCall :: "http_post \<Rightarrow> string \<Rightarrow> json list \<Rightarrow> (sync_error, json option) go_result" where
  "rpcCall post method params = (case post (rpc_request method params) of
     None \<Rightarrow> Err RpcCallFailed
   | Some body \<Rightarrow> (case json_decode_first (string_of_bytes body) \<bind> object_of of
       None \<Rightarrow> Err DecodeResponse
     | Some kvs \<Rightarrow> (case (struct_field dec_raw ''result'' None kvs, struct_field dec_rpc_error ''error'' None kvs) of
         (Some result, Some None) \<Rightarrow> Ok result
       | (Some result, Some (Some (c, m))) \<Rightarrow> Err (RpcError c m)
       | _ \<Rightarrow> Err DecodeResponse)))"

text \<open>
  \<^verbatim>\<open>fmt.Sscanf(s, "0x%x", &num)\<close> with its error ignored: the literal, white space, digits;
  a newline, no digit or more than 64 bits leave 0.
\<close>

fun space_width :: "string \<Rightarrow> nat" where
  "space_width [] = 0"
| "space_width (a # s) =
     (if code a \<in> {9, 11, 12, 13, 32} then 1
      else if code a = 194 \<and> take 1 s \<in> {[chr 133], [chr 160]} then 2
      else if code a = 225 \<and> take 2 s = [chr 154, chr 128] then 3
      else if code a = 226 \<and> length s \<ge> 2 \<and> code (s ! 0) = 128 \<and>
        (128 \<le> code (s ! 1) \<and> code (s ! 1) \<le> 138 \<or> code (s ! 1) \<in> {168, 169, 175}) then 3
      else if code a = 226 \<and> take 2 s = [chr 129, chr 159] then 3
      else if code a = 227 \<and> take 2 s = [chr 128, chr 128] then 3
      else 0)"

function skip_space :: "string \<Rightarrow> string option" where
  "skip_space s =
     (if s \<noteq> [] \<and> (code (hd s) = 10 \<or> code (hd s) = 13 \<and> take 1 (tl s) = [chr 10]) then None
      else if s = [] \<or> space_width s = 0 then Some s else skip_space (drop (space_width s) s))"
  by pat_completeness auto
termination
  by (relation "measure length") auto

declare skip_space.simps [simp del]

definition hex_value :: "string \<Rightarrow> int" where
  "hex_value s = foldl (\<lambda>n c. 16 * n + (case hex_val c of None \<Rightarrow> 0 | Some d \<Rightarrow> int d)) 0 s"

definition sscanf_hex :: "string \<Rightarrow> uint64" where
  "sscanf_hex s =
     (if take 2 s = ''0x'' then
        (case skip_space (drop 2 s) of
           None \<Rightarrow> 0
         | Some t \<Rightarrow> (let ds = takeWhile (\<lambda>c. hex_val c \<noteq> None) t in
             if ds = [] \<or> 2 ^ 64 \<le> hex_value ds then 0 else word_of_int (hex_value ds)))
      else 0)"

function hex_string :: "int \<Rightarrow> string" where
  "hex_string n = (if n < 16 then [hex_digit (nat n)] else hex_string (n div 16) @ [hex_digit (nat (n mod 16))])"
  by pat_completeness auto
termination
  by (relation "measure nat") auto

declare hex_string.simps [simp del]

definition fetchLatestBlockNumber :: "http_post \<Rightarrow> (sync_error, uint64) go_result" where
  "fetchLatestBlockNumber post = (case rpcCall post ''eth_blockNumber'' [] of
     Err e \<Rightarrow> Err e
   | Panic p \<Rightarrow> Panic p
   | Ok result \<Rightarrow> (case result \<bind> dec_string [] of
       None \<Rightarrow> Err DecodeBlockNumber | Some hexNum \<Rightarrow> Ok (sscanf_hex hexNum)))"

definition block_of_announce :: "BlockAnnounce \<Rightarrow> L2Block" where
  "block_of_announce a = \<lparr>bl_Number = ba_Number a, bl_Hash = ba_Hash a, bl_ParentHash = ba_ParentHash a,
     bl_Timestamp = ba_Timestamp a, bl_StateRoot = ba_StateRoot a, bl_GasUsed = ba_GasUsed a,
     bl_GasLimit = ba_GasLimit a, bl_TxCount = ba_TxCount a, bl_Sequencer = ba_Sequencer a\<rparr>"

text \<open>The JSON tags of \<^verbatim>\<open>L2Block\<close> are those of \<^verbatim>\<open>BlockAnnounce\<close>.\<close>

definition fetchBlock :: "http_post \<Rightarrow> uint64 \<Rightarrow> (sync_error, L2Block) go_result" where
  "fetchBlock post num = (case rpcCall post ''eth_getBlockByNumber'' [JStr (''0x'' @ hex_string (uint num)), JBool False] of
     Err e \<Rightarrow> Err e
   | Panic p \<Rightarrow> Panic p
   | Ok result \<Rightarrow> (case result \<bind> object_of \<bind> fields_BlockAnnounce of
       None \<Rightarrow> Err DecodeBlock | Some a \<Rightarrow> Ok (block_of_announce a)))"

definition IsSynced :: "http_post \<Rightarrow> SyncEngine \<Rightarrow> bool" where
  "IsSynced post e = (case fetchLatestBlockNumber post of Ok latest \<Rightarrow> latest \<le> LatestBlock e | _ \<Rightarrow> False)"

section \<open>Processing blocks\<close>

text \<open>The part under the lock: the engine and whether the block was stored.\<close>

definition commit_block :: "SyncEngine \<Rightarrow> L2Block \<Rightarrow> SyncEngine \<times> bool" where
  "commit_block e block =
     (if sblocks e (bl_Number block) \<noteq> None then (e, False)
      else if 1 < bl_Number block \<and> bl_Number block \<noteq> latestBlock e + 1 then (e, False)
      else (e\<lparr>sblocks := (sblocks e)(bl_Number block \<mapsto> block), latestBlock := bl_Number block\<rparr>, True))"

text \<open>The part after it: the gauges, when metrics are attached.\<close>

definition sync_metrics :: "http_post \<Rightarrow> SyncEngine \<Rightarrow> L2Block \<Rightarrow> Metrics option \<Rightarrow> Metrics option" where
  "sync_metrics post e block m = map_option (\<lambda>x. x\<lparr>mt_SyncedBlock := bl_Number block,
     mt_IsSynced := (if IsSynced post e then 1 else 0)\<rparr>) m"

text \<open>The engine, the metrics, and the blocks given to the callback.\<close>

definition processBlock ::
    "http_post \<Rightarrow> SyncEngine \<Rightarrow> Metrics option \<Rightarrow> L2Block \<Rightarrow> SyncEngine \<times> Metrics option \<times> L2Block list" where
  "processBlock post e m block = (case commit_block e block of
     (e', False) \<Rightarrow> (e', m, [])
   | (e', True) \<Rightarrow> (e', sync_metrics post e' block m, [block]))"

definition handleP2PBlock ::
    "http_post \<Rightarrow> SyncEngine \<Rightarrow> Metrics option \<Rightarrow> Message \<Rightarrow> SyncEngine \<times> Metrics option \<times> L2Block list" where
  "handleP2PBlock post e m msg = (case DecodeBlockAnnounce (slice_bytes (msg_Payload msg)) of
     Ok announce \<Rightarrow> processBlock post e m (block_of_announce announce)
   | _ \<Rightarrow> (e, m, []))"

text \<open>One iteration of \<^verbatim>\<open>p2pBlockListener\<close>.\<close>

definition p2pBlockListener_step ::
    "http_post \<Rightarrow> SyncEngine \<Rightarrow> Metrics option \<Rightarrow> Message \<Rightarrow> SyncEngine \<times> Metrics option \<times> L2Block list" where
  "p2pBlockListener_step post e m msg =
     (if msg_Type msg = MsgNewBlock then handleP2PBlock post e m msg else (e, m, []))"

partial_function (option) rpc_loop ::
    "http_post \<Rightarrow> uint64 \<Rightarrow> uint64 \<Rightarrow> SyncEngine \<Rightarrow> Metrics option \<Rightarrow> L2Block list \<Rightarrow>
      (SyncEngine \<times> Metrics option \<times> L2Block list) option" where
  "rpc_loop post num remoteLatest e m notified =
     (if num \<le> remoteLatest then
        (case fetchBlock post num of
           Ok block \<Rightarrow> (case processBlock post e m block of (e', m', ns) \<Rightarrow>
             rpc_loop post (num + 1) remoteLatest e' m' (notified @ ns))
         | _ \<Rightarrow> Some (e, m, notified))
      else Some (e, m, notified))"

declare rpc_loop.simps [code]

definition syncFromRPC ::
    "http_post \<Rightarrow> SyncEngine \<Rightarrow> Metrics option \<Rightarrow> (SyncEngine \<times> Metrics option \<times> L2Block list) option" where
  "syncFromRPC post e m = (case fetchLatestBlockNumber post of
     Ok remoteLatest \<Rightarrow>
       if remoteLatest \<le> LatestBlock e then Some (e, m, [])
       else rpc_loop post (LatestBlock e + 1) remoteLatest e m []
   | _ \<Rightarrow> Some (e, m, []))"

text \<open>\<^verbatim>\<open>rpcSyncLoop\<close>: one poll for each tick before the context is done.\<close>

fun rpcSyncLoop ::
    "http_post list \<Rightarrow> SyncEngine \<Rightarrow> Metrics option \<Rightarrow> (SyncEngine \<times> Metrics option \<times> L2Block list) option" where
  "rpcSyncLoop [] e m = Some (e, m, [])"
| "rpcSyncLoop (post # ticks) e m = syncFromRPC post e m \<bind> (\<lambda>(e', m', notified).
     rpcSyncLoop ticks e' m' \<bind> (\<lambda>(e'', m'', notified'). Some (e'', m'', notified @ notified')))"

section \<open>The request reader\<close>

record bytesReader =
  br_data :: bytes
  br_pos :: nat

definition jsonReader :: "bytes \<Rightarrow> bytesReader" where
  "jsonReader data = \<lparr>br_data = data, br_pos = 0\<rparr>"

text \<open>\<^verbatim>\<open>Read\<close> into a buffer of \<open>k\<close> bytes: the bytes copied, or the end of file.\<close>

definition bytesReader_Read :: "bytesReader \<Rightarrow> nat \<Rightarrow> bytes option \<times> bytesReader" where
  "bytesReader_Read r k =
     (if length (br_data r) \<le> br_pos r then (None, r)
      else (let p = take k (drop (br_pos r) (br_data r)) in (Some p, r\<lparr>br_pos := br_pos r + length p\<rparr>)))"

section \<open>Invariant\<close>

text \<open>Without a block numbered 0, the stored blocks are exactly 1 to the latest.\<close>

definition sync_inv :: "SyncEngine \<Rightarrow> bool" where
  "sync_inv e \<longleftrightarrow> (\<forall>n b. sblocks e n = Some b \<longrightarrow> bl_Number b = n) \<and> dom (sblocks e) = {1..latestBlock e}"

definition sync_le :: "SyncEngine \<Rightarrow> SyncEngine \<Rightarrow> bool" where
  "sync_le e e' \<longleftrightarrow> sblocks e \<subseteq>\<^sub>m sblocks e' \<and> latestBlock e \<le> latestBlock e' \<and> se_cfg e' = se_cfg e"

lemma sync_le_refl [simp]: "sync_le e e"
  by (simp add: sync_le_def)

lemma sync_le_trans: "sync_le e f \<Longrightarrow> sync_le f g \<Longrightarrow> sync_le e g"
  by (auto simp: sync_le_def intro: map_le_trans)

lemma word_Suc:
  assumes "x + 1 \<noteq> (0 :: uint64)"
  shows "{1..x + 1} = insert (x + 1) {1..x}" "x \<le> x + 1" "x + 1 \<notin> {1..x}" "uint (x + 1) = uint x + 1" "unat (x + 1) = Suc (unat x)"
proof -
  show u: "unat (x + 1) = Suc (unat x)" using assms by (simp add: unatSuc add.commute)
  show "{1..x + 1} = insert (x + 1) {1..x}" "x \<le> x + 1" "x + 1 \<notin> {1..x}"
    using u by (auto simp: word_le_nat_alt le_Suc_eq word_unat_eq_iff)
  have "uint (x + 1) = int (unat (x + 1))" by (rule uint_nat)
  also have "\<dots> = uint x + 1" unfolding u uint_nat by simp
  finally show "uint (x + 1) = uint x + 1" .
qed

text \<open>A stored block extends the chain by one.\<close>

lemma commit_cases:
  assumes "sync_inv e" "bl_Number b \<noteq> 0"
  obtains (skip) "commit_block e b = (e, False)"
  | (store) "bl_Number b = latestBlock e + 1" "latestBlock e + 1 \<noteq> 0"
      "commit_block e b = (e\<lparr>sblocks := (sblocks e)(bl_Number b \<mapsto> b), latestBlock := bl_Number b\<rparr>, True)"
proof (cases "sblocks e (bl_Number b) \<noteq> None \<or> 1 < bl_Number b \<and> bl_Number b \<noteq> latestBlock e + 1")
  case True
  then show ?thesis using that(1) by (auto simp: commit_block_def)
next
  case False
  then have "bl_Number b \<notin> dom (sblocks e)" by (simp add: domIff)
  then have "bl_Number b \<notin> {1..latestBlock e}" using assms(1) by (simp add: sync_inv_def)
  moreover have "1 \<le> bl_Number b" using assms(2) by (simp add: word_le_nat_alt unat_gt_0 Suc_le_eq)
  ultimately have l: "\<not> bl_Number b \<le> latestBlock e" "1 \<le> bl_Number b" by auto
  have "bl_Number b = latestBlock e + 1"
  proof (cases "1 < bl_Number b")
    case n: False
    then have "bl_Number b = 1" using l(2) by simp
    moreover have "latestBlock e = 0"
      using l(1) \<open>bl_Number b = 1\<close> by (simp add: word_le_nat_alt word_unat_eq_iff Suc_le_eq)
    ultimately show ?thesis by simp
  qed (use False in simp)
  then show ?thesis using that(2) False assms(2) by (auto simp: commit_block_def)
qed

lemma commit_inv:
  assumes "sync_inv e" "bl_Number b \<noteq> 0"
  shows "sync_inv (fst (commit_block e b)) \<and> sync_le e (fst (commit_block e b))"
  using assms
proof (cases rule: commit_cases)
  case store
  note w = word_Suc [OF store(2)]
  have "bl_Number b \<notin> dom (sblocks e)" using assms(1) w(3) store(1) by (simp add: sync_inv_def)
  then have "sblocks e \<subseteq>\<^sub>m (sblocks e)(bl_Number b \<mapsto> b)" by (simp add: map_le_def)
  then show ?thesis using assms(1) w store by (simp add: sync_inv_def sync_le_def)
qed (use assms in simp)

text \<open>The loop offers the fetched blocks one after the other.\<close>

lemma processBlock_engine: "fst (processBlock post e m b) = fst (commit_block e b)"
  by (simp add: processBlock_def split: prod.split bool.split)

lemma rpc_loop_rule:
  assumes "rpc_loop post num remote e m ns = Some r"
    and stop: "\<And>num e m ns. \<not> num \<le> remote \<or> (\<forall>b. fetchBlock post num \<noteq> Ok b) \<Longrightarrow> P num e m ns (e, m, ns)"
    and step: "\<And>num e m ns b e' m' ns' r. num \<le> remote \<Longrightarrow> fetchBlock post num = Ok b \<Longrightarrow>
      processBlock post e m b = (e', m', ns') \<Longrightarrow> P (num + 1) e' m' (ns @ ns') r \<Longrightarrow> P num e m ns r"
  shows "P num e m ns r"
proof -
  let ?Q = "\<lambda>p num rem e m ns r. p = post \<longrightarrow> rem = remote \<longrightarrow> P num e m ns r"
  have "?Q post num remote e m ns r"
  proof (rule rpc_loop.raw_induct [where P = ?Q, OF _ assms(1)], intro impI)
    fix f p num rem e m ns r
    assume ih: "\<And>num remoteLatest e m notified b y. f num remoteLatest e m notified b = Some y \<Longrightarrow> ?Q num remoteLatest e m notified b y"
      and eq: "(if num \<le> rem then case fetchBlock p num of
           Ok block \<Rightarrow> case processBlock p e m block of (e', m', ns') \<Rightarrow> f p (num + 1) rem e' m' (ns @ ns')
           | _ \<Rightarrow> Some (e, m, ns) else Some (e, m, ns)) = Some r"
      and h: "p = post" "rem = remote"
    show "P num e m ns r"
    proof (cases "num \<le> remote \<and> (\<exists>b. fetchBlock post num = Ok b)")
      case True
      then obtain b where b: "fetchBlock post num = Ok b" "num \<le> remote" by auto
      obtain e1 m1 n1 where pb: "processBlock post e m b = (e1, m1, n1)" by (cases "processBlock post e m b")
      then have "f post (num + 1) remote e1 m1 (ns @ n1) = Some r" using eq h b by simp
      from ih [OF this] have "P (num + 1) e1 m1 (ns @ n1) r" by simp
      then show ?thesis by (rule step [OF b(2,1) pb])
    next
      case False
      then have "r = (e, m, ns)" using eq h by (auto split: if_splits go_result.splits)
      then show ?thesis using stop False by simp
    qed
  qed
  then show ?thesis by simp
qed

lemma rpc_loop_inv:
  assumes "rpc_loop post num remote e m ns = Some r" "sync_inv e"
    and "\<And>n b. fetchBlock post n = Ok b \<Longrightarrow> bl_Number b \<noteq> 0"
  shows "sync_inv (fst r) \<and> sync_le e (fst r)"
proof -
  have "sync_inv e \<longrightarrow> sync_inv (fst r) \<and> sync_le e (fst r)"
    using assms(1)
  proof (rule rpc_loop_rule [where P = "\<lambda>num e m ns r. sync_inv e \<longrightarrow> sync_inv (fst r) \<and> sync_le e (fst r)"])
    fix num e m ns b e' m' ns' and r :: "SyncEngine \<times> Metrics option \<times> L2Block list"
    assume b: "fetchBlock post num = Ok b" and p: "processBlock post e m b = (e', m', ns')"
      and r: "sync_inv e' \<longrightarrow> sync_inv (fst r) \<and> sync_le e' (fst r)"
    have "sync_inv e \<Longrightarrow> sync_inv e' \<and> sync_le e e'"
      using commit_inv [of e b] assms(3) [OF b] processBlock_engine [of post e m b] p by simp
    then show "sync_inv e \<longrightarrow> sync_inv (fst r) \<and> sync_le e (fst r)"
      using r sync_le_trans by blast
  qed simp
  with assms(2) show ?thesis by simp
qed

text \<open>The engine as a state machine: a gossip message, or a poll of the sequencer that returns.\<close>

datatype sync_op = Gossip http_post Message | Poll http_post

fun sync_step :: "SyncEngine \<Rightarrow> sync_op \<Rightarrow> SyncEngine" where
  "sync_step e (Gossip post msg) = fst (p2pBlockListener_step post e None msg)"
| "sync_step e (Poll post) = (case syncFromRPC post e None of None \<Rightarrow> e | Some r \<Rightarrow> fst r)"

text \<open>No source offers a block numbered 0.\<close>

fun op_ok :: "sync_op \<Rightarrow> bool" where
  "op_ok (Gossip post msg) \<longleftrightarrow> (\<forall>a. DecodeBlockAnnounce (slice_bytes (msg_Payload msg)) = Ok a \<longrightarrow> ba_Number a \<noteq> 0)"
| "op_ok (Poll post) \<longleftrightarrow> (\<forall>n b. fetchBlock post n = Ok b \<longrightarrow> bl_Number b \<noteq> 0)"

lemma sync_step_inv:
  assumes "sync_inv e" "op_ok x"
  shows "sync_inv (sync_step e x) \<and> sync_le e (sync_step e x)"
proof (cases x)
  case (Gossip post msg)
  have "sync_inv (fst (processBlock post e None (block_of_announce a))) \<and> sync_le e (fst (processBlock post e None (block_of_announce a)))"
    if "ba_Number a \<noteq> 0" for a
    using commit_inv [OF assms(1), of "block_of_announce a"] that by (simp add: processBlock_engine block_of_announce_def)
  then show ?thesis
    using Gossip assms by (auto simp: p2pBlockListener_step_def handleP2PBlock_def split: go_result.split)
next
  case (Poll post)
  then show ?thesis
    using assms rpc_loop_inv [of post] by (auto simp: syncFromRPC_def split: go_result.split option.split)
qed

interpretation sync: machine sync_step op_ok sync_inv sync_le
  using sync_step_inv sync_le_trans by unfold_locales auto

section \<open>Catching up\<close>

lemma commit_next:
  assumes "sync_inv e" "bl_Number b = latestBlock e + 1" "latestBlock e + 1 \<noteq> 0"
  shows "commit_block e b = (e\<lparr>sblocks := (sblocks e)(bl_Number b \<mapsto> b), latestBlock := bl_Number b\<rparr>, True)"
proof -
  have "bl_Number b \<notin> dom (sblocks e)"
    using assms word_Suc(3) [OF assms(3)] by (simp add: sync_inv_def)
  then show ?thesis using assms(2) by (auto simp: commit_block_def domIff)
qed

lemma word_succ_less:
  assumes "(x :: uint64) \<noteq> -1"
  shows "x + 1 \<noteq> 0" "x < x + 1"
proof -
  show nz: "x + 1 \<noteq> 0" using assms by (simp add: eq_neg_iff_add_eq_0)
  show "x < x + 1" using word_Suc [OF nz] by (simp add: order_less_le)
qed

lemma rpc_loop_catchup:
  assumes "sync_inv e" "latestBlock e \<le> r" "r \<noteq> -1"
    and "\<And>n. latestBlock e < n \<Longrightarrow> n \<le> r \<Longrightarrow> fetchBlock post n = Ok (chain n) \<and> bl_Number (chain n) = n"
  shows "\<exists>e' m'. rpc_loop post (latestBlock e + 1) r e m ns =
      Some (e', m', ns @ map (\<lambda>i. chain (word_of_int i)) [uint (latestBlock e) + 1..uint r]) \<and>
    latestBlock e' = r \<and> sync_inv e' \<and> sync_le e e' \<and> (\<forall>n. latestBlock e < n \<longrightarrow> n \<le> r \<longrightarrow> sblocks e' n = Some (chain n))"
  using assms
proof (induction "unat r - unat (latestBlock e)" arbitrary: e m ns)
  case 0
  then have l: "latestBlock e = r" by (simp add: word_le_nat_alt word_unat_eq_iff)
  then show ?case using 0(2) word_succ_less(2) [OF 0(4)] by (subst rpc_loop.simps) (auto simp: not_le)
next
  case (Suc k)
  define l where "l = latestBlock e"
  have lt: "l < r" using Suc(2) by (simp add: word_less_nat_alt l_def)
  then have "l \<noteq> -1" using word_order.extremum [of r] by (auto simp: not_le [symmetric])
  note s = word_succ_less [OF this] and w = word_Suc [OF word_succ_less(1) [OF this]]
  have le: "l + 1 \<le> r" using lt by (rule inc_le)
  have b: "fetchBlock post (l + 1) = Ok (chain (l + 1))" "bl_Number (chain (l + 1)) = l + 1"
    using Suc.prems(4) [of "l + 1"] le s(2) by (simp_all add: l_def)
  define e1 where "e1 = e\<lparr>sblocks := (sblocks e)(l + 1 \<mapsto> chain (l + 1)), latestBlock := l + 1\<rparr>"
  have c: "commit_block e (chain (l + 1)) = (e1, True)"
    using commit_next [OF Suc.prems(1), of "chain (l + 1)"] b(2) s(1) by (simp add: e1_def l_def)
  have i: "sync_inv e1" "sync_le e e1"
    using commit_inv [OF Suc.prems(1), of "chain (l + 1)"] b(2) s(1) c by simp_all
  have e1: "latestBlock e1 = l + 1" by (simp add: e1_def)
  let ?m = "sync_metrics post e1 (chain (l + 1)) m"
  have ih: "\<exists>e' m'. rpc_loop post (latestBlock e1 + 1) r e1 ?m (ns @ [chain (l + 1)]) =
      Some (e', m', (ns @ [chain (l + 1)]) @ map (\<lambda>i. chain (word_of_int i)) [uint (latestBlock e1) + 1..uint r]) \<and>
    latestBlock e' = r \<and> sync_inv e' \<and> sync_le e1 e' \<and> (\<forall>n. latestBlock e1 < n \<longrightarrow> n \<le> r \<longrightarrow> sblocks e' n = Some (chain n))"
  proof (rule Suc.hyps(1) [OF _ i(1) _ Suc.prems(3)])
    show "k = unat r - unat (latestBlock e1)"
      using Suc(2) w(5) unfolding e1 l_def [symmetric] by linarith
    show "fetchBlock post n = Ok (chain n) \<and> bl_Number (chain n) = n" if "latestBlock e1 < n" "n \<le> r" for n
      using Suc.prems(4) [of n] that e1 s(2) by (simp add: l_def)
  qed (simp add: e1 le)
  then obtain e' m' where r: "rpc_loop post (latestBlock e1 + 1) r e1 ?m (ns @ [chain (l + 1)]) =
      Some (e', m', (ns @ [chain (l + 1)]) @ map (\<lambda>i. chain (word_of_int i)) [uint (latestBlock e1) + 1..uint r])"
    and p: "latestBlock e' = r" "sync_inv e'" "sync_le e1 e'" "\<forall>n. latestBlock e1 < n \<longrightarrow> n \<le> r \<longrightarrow> sblocks e' n = Some (chain n)"
    by blast
  have u: "[uint l + 1..uint r] = (uint l + 1) # [uint (l + 1) + 1..uint r]"
    using le w(4) by (simp add: upto_rec1 word_le_def)
  have "rpc_loop post (l + 1) r e m ns = rpc_loop post (latestBlock e1 + 1) r e1 ?m (ns @ [chain (l + 1)])"
    using le b c by (subst rpc_loop.simps) (simp add: processBlock_def e1)
  then have loop: "rpc_loop post (l + 1) r e m ns =
      Some (e', m', ns @ map (\<lambda>i. chain (word_of_int i)) [uint l + 1..uint r])"
    using r by (simp add: u e1)
  have "sblocks e' n = Some (chain n)" if "l < n" "n \<le> r" for n
  proof (cases "n = l + 1")
    case True
    have "sblocks e1 (l + 1) = Some (chain (l + 1))" by (simp add: e1_def)
    then show ?thesis using p(3) True unfolding sync_le_def map_le_def by (metis domI)
  next
    case False
    then have "l + 1 < n" using that(1) inc_le [of l n] by (simp add: order_less_le)
    then show ?thesis using p(4) that(2) e1 by simp
  qed
  then show ?case
    using loop p i(2) sync_le_trans unfolding l_def [symmetric] by blast
qed

section \<open>A block numbered 0\<close>

text \<open>With blocks 0 and 1 stored and the latest back at 0, no block is accepted any more.\<close>

definition stalled :: "SyncEngine \<Rightarrow> bool" where
  "stalled e \<longleftrightarrow> sblocks e 0 \<noteq> None \<and> sblocks e 1 \<noteq> None \<and> latestBlock e = 0"

lemma commit_stalled:
  assumes "stalled e"
  shows "commit_block e b = (e, False)"
proof -
  have "bl_Number b = 0 \<or> bl_Number b = 1 \<or> 1 < bl_Number b"
    by (metis word_neq_0_conv word_less_1 linorder_neqE)
  then show ?thesis using assms by (auto simp: commit_block_def stalled_def)
qed

lemma processBlock_stalled: "stalled e \<Longrightarrow> processBlock post e m b = (e, m, [])"
  by (simp add: processBlock_def commit_stalled)

lemma sync_step_stalled:
  assumes "stalled e"
  shows "sync_step e x = e"
proof (cases x)
  case (Gossip post msg)
  then show ?thesis using assms
    by (simp add: p2pBlockListener_step_def handleP2PBlock_def processBlock_stalled split: go_result.split)
next
  case (Poll post)
  have "stalled e \<longrightarrow> fst r = e" if "rpc_loop post num remote e m ns = Some r" for num remote e m ns r
    using that
  proof (rule rpc_loop_rule [where P = "\<lambda>num e m ns r. stalled e \<longrightarrow> fst r = e"])
    fix e m b e' m' ns' and r :: "SyncEngine \<times> Metrics option \<times> L2Block list"
    assume "processBlock post e m b = (e', m', ns')" "stalled e' \<longrightarrow> fst r = e'"
    then show "stalled e \<longrightarrow> fst r = e" by (auto simp: processBlock_stalled)
  qed simp
  then show ?thesis using assms Poll by (auto simp: syncFromRPC_def split: go_result.split option.split)
qed

lemma run_stalled: "stalled e \<Longrightarrow> run sync_step e xs = e"
  by (induction xs) (simp_all add: sync_step_stalled)

lemma commit_zero:
  assumes "sync_inv e" "1 \<le> latestBlock e" "bl_Number b = 0"
  shows "stalled (fst (commit_block e b))" "snd (commit_block e b)"
proof -
  have "0 \<notin> dom (sblocks e)" "1 \<in> dom (sblocks e)" using assms(1,2) by (simp_all add: sync_inv_def)
  then have "sblocks e 0 = None" "sblocks e 1 \<noteq> None" by auto
  then show "stalled (fst (commit_block e b))" "snd (commit_block e b)"
    using assms(3) by (simp_all add: commit_block_def stalled_def)
qed

section \<open>Responses\<close>

text \<open>\<^verbatim>\<open>Decode\<close> reads what \<^verbatim>\<open>Unmarshal\<close> would read from the same text.\<close>

lemma foldl_end: "foldl scan_step (st, ScanError) s = (st, ScanError)"
  by (induction s) simp_all

lemma foldl_top: "foldl scan_step (st, EndTop v) s = (st, EndTop v) \<or> foldl scan_step (st, EndTop v) s = (st, ScanError)"
  by (induction s) (auto simp: foldl_end)

lemma decode_first_parse:
  assumes "scan_result (foldl scan_step sc s) = Some v"
  shows "decode_first sc s = Some v"
  using assms
proof (induction s arbitrary: sc)
  case Nil
  obtain st x where sc: "sc = (st, x)" by fastforce
  then show ?case using Nil by (cases x) (auto simp: scan_result_def is_space_def)
next
  case (Cons c s)
  obtain st x where sc: "sc = (st, x)" by fastforce
  show ?case
  proof (cases "\<exists>w. x = EndTop w")
    case True
    then obtain w where w: "x = EndTop w" by blast
    have "foldl scan_step (st, EndTop w) (c # s) = (st, EndTop w) \<or> foldl scan_step (st, EndTop w) (c # s) = (st, ScanError)"
      by (rule foldl_top)
    then show ?thesis using Cons.prems sc w
      by (auto simp: scan_result_def is_space_def simp del: foldl_Cons split: if_splits)
  next
    case False
    then have "decode_first sc (c # s) = decode_first (scan_step sc c) s"
      using sc by (cases x) auto
    then show ?thesis using Cons by simp
  qed
qed

lemma decode_first_print:
  assumes "printable v" "json_depth v \<le> max_nesting"
  shows "json_decode_first (json_print v) = Some v"
  using json_parse_print [OF assms] unfolding json_parse_def json_decode_first_def by (rule decode_first_parse)

lemma EncodePayload_inject:
  assumes "printable v" "json_depth v \<le> max_nesting" "printable w" "json_depth w \<le> max_nesting"
  shows "EncodePayload v = EncodePayload w \<longleftrightarrow> v = w"
proof
  assume "EncodePayload v = EncodePayload w"
  then have "json_print v = json_print w" unfolding EncodePayload_def by (metis string_of_bytes_of_string)
  then have "json_parse (json_print v) = json_parse (json_print w)" by (rule arg_cong)
  then show "v = w" by (simp only: json_parse_print [OF assms(1,2)] json_parse_print [OF assms(3,4)] option.inject)
qed simp

lemma fold_rpc_tags [simp]:
  "fold_name ''result'' = ''RESULT''" "fold_name ''error'' = ''ERROR''"
  by code_simp+

text \<open>The response of a server that succeeds.\<close>

definition rpc_response :: "json \<Rightarrow> bytes" where
  "rpc_response v = EncodePayload (JObj [(''result'', v)])"

lemma rpcCall_response:
  assumes "post (rpc_request method params) = Some (rpc_response v)" "printable v" "Suc (json_depth v) \<le> max_nesting"
  shows "rpcCall post method params = Ok (Some v)"
proof -
  have d: "json_decode_first (json_print (JObj [(''result'', v)])) = Some (JObj [(''result'', v)])"
    using assms(2,3) by (intro decode_first_print) (simp_all add: valid_utf8_ascii)
  have "json_decode_first (string_of_bytes (rpc_response v)) = Some (JObj [(''result'', v)])"
    unfolding rpc_response_def EncodePayload_def string_of_bytes_of_string by (rule d)
  then show ?thesis
    using assms(1) by (simp add: rpcCall_def object_of_def struct_field_Cons dec_raw_def)
qed

lemma hex_digit_not_space: "d < 16 \<Longrightarrow> space_width (hex_digit d # s) = 0 \<and> code (hex_digit d) \<noteq> 10 \<and> code (hex_digit d) \<noteq> 13"
  by (auto simp: hex_digit_def)

lemma hex_value_snoc [simp]: "hex_val c = Some d \<Longrightarrow> hex_value (s @ [c]) = 16 * hex_value s + int d"
  by (simp add: hex_value_def)

lemma hex_string_spec:
  assumes "0 \<le> n"
  shows "hex_value (hex_string n) = n \<and> list_all (\<lambda>c. \<exists>d<16. c = hex_digit d) (hex_string n) \<and> hex_string n \<noteq> []"
  using assms
proof (induction n rule: hex_string.induct)
  case (1 n)
  show ?case
  proof (cases "n < 16")
    case True
    then have "nat n < 16" using 1(2) by simp
    then show ?thesis using True 1(2) by (auto simp: hex_string.simps [of n] hex_value_def)
  next
    case False
    have "nat (n mod 16) < 16" by (simp add: nat_less_iff)
    moreover have "hex_string n = hex_string (n div 16) @ [hex_digit (nat (n mod 16))]"
      using False by (subst hex_string.simps) simp
    ultimately show ?thesis using 1(1) [OF False] False 1(2) by auto
  qed
qed

lemma sscanf_hex_string [simp]: "sscanf_hex (CHR ''0'' # CHR ''x'' # hex_string (uint w)) = w"
proof -
  let ?h = "hex_string (uint w)"
  note h = hex_string_spec [of "uint w", simplified]
  obtain d t where d: "?h = hex_digit d # t" "d < 16" using h by (cases ?h) auto
  have "skip_space ?h = Some ?h"
    using hex_digit_not_space [OF d(2), of t] unfolding d(1) by (subst skip_space.simps) (simp del: space_width.simps)
  moreover have "takeWhile (\<lambda>c. hex_val c \<noteq> None) ?h = ?h"
    using h by (intro takeWhile_eq_all_conv [THEN iffD2]) (auto simp: list_all_iff)
  ultimately show ?thesis using h uint_bounded [of w] by (simp add: sscanf_hex_def Let_def takeWhile_eq_all_conv [THEN iffD2] del: not_None_eq)
qed

lemma hex_digit_ascii: "d < 16 \<Longrightarrow> code (hex_digit d) < 128"
  by (simp add: hex_digit_def)

lemma hex_string_ascii: "0 \<le> n \<Longrightarrow> list_all (\<lambda>c. code c < 128) (hex_string n)"
  using hex_string_spec [of n] by (auto simp: list_all_iff hex_digit_ascii)

definition announce_of_block :: "L2Block \<Rightarrow> BlockAnnounce" where
  "announce_of_block b = \<lparr>ba_Number = bl_Number b, ba_Hash = bl_Hash b, ba_ParentHash = bl_ParentHash b,
     ba_Timestamp = bl_Timestamp b, ba_StateRoot = bl_StateRoot b, ba_GasUsed = bl_GasUsed b,
     ba_GasLimit = bl_GasLimit b, ba_TxCount = bl_TxCount b, ba_Sequencer = bl_Sequencer b\<rparr>"

lemma block_of_announce_of_block [simp]: "block_of_announce (announce_of_block b) = b"
  by (simp add: block_of_announce_def announce_of_block_def)

definition block_utf8 :: "L2Block \<Rightarrow> bool" where
  "block_utf8 b \<longleftrightarrow> list_all valid_utf8 [bl_Hash b, bl_ParentHash b, bl_StateRoot b, bl_Sequencer b]"

definition block_request :: "uint64 \<Rightarrow> bytes" where
  "block_request n = rpc_request ''eth_getBlockByNumber'' [JStr (''0x'' @ hex_string (uint n)), JBool False]"

lemma json_announce:
  "block_utf8 b \<Longrightarrow> printable (json_of_BlockAnnounce (announce_of_block b))"
  "json_depth (json_of_BlockAnnounce (announce_of_block b)) = 1"
  "object_of (json_of_BlockAnnounce a) \<bind> fields_BlockAnnounce = Some a"
  by (simp_all add: json_of_BlockAnnounce_def announce_of_block_def block_utf8_def valid_utf8_ascii object_of_def
      fields_BlockAnnounce_def struct_field_Cons)

lemma fetchBlock_response:
  assumes "post (block_request n) = Some (rpc_response (json_of_BlockAnnounce (announce_of_block b)))" "block_utf8 b"
  shows "fetchBlock post n = Ok b"
proof -
  have "rpcCall post ''eth_getBlockByNumber'' [JStr (''0x'' @ hex_string (uint n)), JBool False] =
      Ok (Some (json_of_BlockAnnounce (announce_of_block b)))"
    using assms by (intro rpcCall_response) (simp_all add: block_request_def json_announce max_nesting_def)
  then show ?thesis by (simp add: fetchBlock_def json_announce)
qed

lemma fetchLatest_response:
  assumes "post (rpc_request ''eth_blockNumber'' []) = Some (rpc_response (JStr (''0x'' @ hex_string (uint r))))"
  shows "fetchLatestBlockNumber post = Ok r"
proof -
  have "rpcCall post ''eth_blockNumber'' [] = Ok (Some (JStr (''0x'' @ hex_string (uint r))))"
    using assms by (intro rpcCall_response) (simp_all add: valid_utf8_ascii hex_string_ascii max_nesting_def)
  then show ?thesis by (simp add: fetchLatestBlockNumber_def)
qed

section \<open>The request reader\<close>

text \<open>Reading with buffers of the given sizes until the end of file or the last buffer.\<close>

fun read_all :: "bytesReader \<Rightarrow> nat list \<Rightarrow> bytes" where
  "read_all r [] = []"
| "read_all r (k # ks) = (case bytesReader_Read r k of (None, r') \<Rightarrow> [] | (Some p, r') \<Rightarrow> p @ read_all r' ks)"

lemma read_all_take:
  "br_pos r \<le> length (br_data r) \<Longrightarrow> read_all r ks = take (sum_list ks) (drop (br_pos r) (br_data r))"
proof (induction ks arbitrary: r)
  case (Cons k ks)
  show ?case
  proof (cases "length (br_data r) \<le> br_pos r")
    case False
    then show ?thesis using Cons
      by (cases "k \<le> length (br_data r) - br_pos r") (simp_all add: bytesReader_Read_def Let_def take_add add.commute min_def)
  qed (simp add: bytesReader_Read_def)
qed simp

section \<open>An honest sequencer\<close>

definition honest_post :: "L2Block list \<Rightarrow> http_post" where
  "honest_post chain req =
     (if req = rpc_request ''eth_blockNumber'' [] then
        Some (rpc_response (JStr (''0x'' @ hex_string (int (length chain)))))
      else map_option (\<lambda>b. rpc_response (json_of_BlockAnnounce (announce_of_block b)))
        (find (\<lambda>b. req = block_request (bl_Number b)) chain))"

lemma rpc_request_inject:
  assumes "list_all printable ps" "list_all printable qs" "list_all (\<lambda>v. json_depth v = 0) ps" "list_all (\<lambda>v. json_depth v = 0) qs"
    and "valid_utf8 f" "valid_utf8 g"
  shows "rpc_request f ps = rpc_request g qs \<longleftrightarrow> f = g \<and> ps = qs"
proof -
  have d: "json_depth (JArr ps) \<le> 1" if "list_all (\<lambda>v. json_depth v = 0) ps" for ps
  proof -
    have "insert 0 (set (map json_depth ps)) = {0}" using that by (auto simp: list_all_iff)
    then show ?thesis by (simp only: json_depth.simps) simp
  qed
  have one: "num_literal ''1''" by (simp add: num_literal_def num_start_def is_digit_def num_final_def)
  show ?thesis
    unfolding rpc_request_def using assms d [OF assms(3)] d [OF assms(4)] one
    by (subst EncodePayload_inject) (simp_all add: valid_utf8_ascii max_nesting_def del: json_depth.simps(1))
qed

lemma block_request_inject: "block_request n = block_request k \<longleftrightarrow> n = k" "block_request n \<noteq> rpc_request ''eth_blockNumber'' []"
proof -
  have h: "hex_string (uint n) = hex_string (uint k) \<longleftrightarrow> n = k"
    using hex_string_spec [of "uint n"] hex_string_spec [of "uint k"] by (metis uint_ge_0 word_uint_eq_iff)
  show "block_request n = block_request k \<longleftrightarrow> n = k"
    unfolding block_request_def by (subst rpc_request_inject) (simp_all add: valid_utf8_ascii hex_string_ascii h)
  show "block_request n \<noteq> rpc_request ''eth_blockNumber'' []"
    unfolding block_request_def by (subst rpc_request_inject) (simp_all add: valid_utf8_ascii hex_string_ascii)
qed

definition example_block :: "uint64 \<Rightarrow> L2Block" where
  "example_block n = \<lparr>bl_Number = n, bl_Hash = ''0xaa'', bl_ParentHash = ''0xbb'', bl_Timestamp = 1700000000 + n,
     bl_StateRoot = [], bl_GasUsed = 21000, bl_GasLimit = 30000000, bl_TxCount = 1, bl_Sequencer = ''seq''\<rparr>"

definition example_chain :: "L2Block list" where
  "example_chain = [example_block 1, example_block 2]"

lemma example_fetch:
  "fetchLatestBlockNumber (honest_post example_chain) = Ok 2"
  "0 < n \<Longrightarrow> n \<le> 2 \<Longrightarrow> fetchBlock (honest_post example_chain) n = Ok (example_block n)"
proof -
  show "fetchLatestBlockNumber (honest_post example_chain) = Ok 2"
    by (rule fetchLatest_response) (simp add: honest_post_def example_chain_def)
  assume "0 < n" "n \<le> 2"
  then have "n = 1 \<or> n = 2" by (auto simp: word_less_nat_alt word_le_nat_alt word_unat_eq_iff)
  moreover have "block_utf8 (example_block n)"
    by (simp add: block_utf8_def example_block_def valid_utf8_ascii)
  ultimately show "fetchBlock (honest_post example_chain) n = Ok (example_block n)"
    by (intro fetchBlock_response) (auto simp: honest_post_def example_chain_def block_request_inject example_block_def)
qed

lemma sync_inv_new [simp]: "sync_inv (NewSyncEngine cfg)"
  by (simp add: sync_inv_def NewSyncEngine_def)

lemma example_fetch_only:
  assumes "fetchBlock (honest_post example_chain) n = Ok b"
  shows "bl_Number b \<noteq> 0"
proof (cases "n = 1 \<or> n = 2")
  case True
  then show ?thesis using assms example_fetch(2) [of n] by (auto simp: example_block_def)
next
  case False
  then have "honest_post example_chain (block_request n) = None"
    by (auto simp: honest_post_def example_chain_def block_request_inject example_block_def)
  then show ?thesis using assms by (simp add: fetchBlock_def rpcCall_def block_request_def)
qed

section \<open>An append-only chain\<close>

text \<open>
  The abstract engine: a list of blocks, extended by a block exactly when its number is the
  next one.
\<close>

definition offer :: "L2Block list \<Rightarrow> L2Block \<Rightarrow> L2Block list" where
  "offer chain b = (if unat (bl_Number b) = Suc (length chain) then chain @ [b] else chain)"

definition chain_of :: "SyncEngine \<Rightarrow> L2Block list" where
  "chain_of e = map (\<lambda>i. the (sblocks e (word_of_nat i))) [1..<Suc (unat (latestBlock e))]"

definition commit_step :: "SyncEngine \<Rightarrow> L2Block \<Rightarrow> SyncEngine" where
  "commit_step e b = fst (commit_block e b)"

lemma chain_of_next:
  assumes "latestBlock e + 1 \<noteq> 0"
  shows "chain_of (e\<lparr>sblocks := (sblocks e)(latestBlock e + 1 \<mapsto> b), latestBlock := latestBlock e + 1\<rparr>) = chain_of e @ [b]"
proof -
  let ?l = "latestBlock e"
  have u: "unat (?l + 1) = Suc (unat ?l)" by (rule word_Suc(5) [OF assms])
  have "word_of_nat (unat (?l + 1)) = ?l + 1" by simp
  then have top: "word_of_nat (Suc (unat ?l)) = ?l + 1" by (simp only: u)
  have ne: "word_of_nat i \<noteq> ?l + 1" if "i < Suc (unat ?l)" for i
  proof
    assume "word_of_nat i = ?l + 1"
    then have "unat (word_of_nat i :: uint64) = Suc (unat ?l)" using u by simp
    then show False using that le_unat_uoi [of i "?l + 1"] u by simp
  qed
  have "[1..<Suc (Suc (unat ?l))] = [1..<Suc (unat ?l)] @ [Suc (unat ?l)]" by simp
  then show ?thesis using top ne by (simp add: chain_of_def u del: of_nat_Suc upt_Suc)
qed

lemma commit_refines:
  assumes "sync_inv e" "bl_Number b \<noteq> 0"
  shows "chain_of (commit_step e b) = offer (chain_of e) b"
  using assms
proof (cases rule: commit_cases)
  case store
  then show ?thesis
    using chain_of_next [OF store(2)] word_Suc(5) [OF store(2)] by (simp add: commit_step_def offer_def) (simp add: chain_of_def)
next
  case skip
  have "unat (bl_Number b) \<noteq> Suc (unat (latestBlock e))"
  proof
    assume n: "unat (bl_Number b) = Suc (unat (latestBlock e))"
    then have "latestBlock e \<noteq> -1" using unsigned_less [of "bl_Number b", where ?'a = nat]
      by (auto simp: unsigned_minus_1_eq_mask mask_eq_exp_minus_1)
    from word_succ_less(1) [OF this] have nz: "latestBlock e + 1 \<noteq> 0" .
    have "bl_Number b = latestBlock e + 1" using n word_Suc(5) [OF nz] by (simp add: word_unat_eq_iff)
    from commit_next [OF assms(1) this nz] skip show False by simp
  qed
  then show ?thesis using skip by (simp add: commit_step_def offer_def) (simp add: chain_of_def)
qed

interpretation chain: refinement commit_step offer chain_of sync_inv "\<lambda>b. bl_Number b \<noteq> 0"
  using commit_inv commit_refines by unfold_locales (auto simp: commit_step_def)

section \<open>Properties\<close>

text \<open>
  C8: The engine implements an append-only chain: offering it any blocks (none numbered 0)
  in any order leaves the blocks 1 to the latest equal to the list built by appending each
  offered block exactly when it is the next in sequence.
\<close>

theorem sync_refines_chain:
  assumes "sync_inv e" "list_all (\<lambda>b. bl_Number b \<noteq> 0) bs"
  shows "chain_of (run commit_step e bs) = run offer (chain_of e) bs"
  using assms by (rule chain.run_refines)

theorem sync_refines_chain_witness:
  "chain_of (run commit_step (NewSyncEngine (cfg_Sequencer DefaultConfig)) [example_block 2, example_block 1, example_block 2]) =
    [example_block 1, example_block 2]"
proof -
  have "list_all (\<lambda>b. bl_Number b \<noteq> 0) [example_block 2, example_block 1, example_block 2]"
    by (simp add: example_block_def)
  from sync_refines_chain [OF sync_inv_new [of "cfg_Sequencer DefaultConfig"] this]
  have "chain_of (run commit_step (NewSyncEngine (cfg_Sequencer DefaultConfig)) [example_block 2, example_block 1, example_block 2]) =
      run offer (chain_of (NewSyncEngine (cfg_Sequencer DefaultConfig))) [example_block 2, example_block 1, example_block 2]" .
  then show ?thesis by (simp add: offer_def chain_of_def NewSyncEngine_def example_block_def)
qed

text \<open>
  C15: As long as no source offers a block numbered 0, after any sequence of gossip messages and
  polls, whatever they contain and in whatever order, the engine holds exactly the blocks
  1 to the latest, each under its own number; no stored block is ever replaced or dropped,
  and the latest number never decreases.
\<close>

theorem sync_run_invariant:
  assumes "list_all op_ok xs" "list_all op_ok ys"
  shows "let e = run sync_step (NewSyncEngine cfg) xs; e' = run sync_step e ys in
    dom (sblocks e') = {1..latestBlock e'} \<and> (\<forall>n b. GetBlock e' n = Some b \<longrightarrow> bl_Number b = n) \<and>
    sblocks e \<subseteq>\<^sub>m sblocks e' \<and> LatestBlock e \<le> LatestBlock e'"
proof -
  let ?e = "run sync_step (NewSyncEngine cfg) xs"
  have i: "sync_inv ?e" using sync.run_inv [OF sync_inv_new assms(1)] .
  show ?thesis
    using sync.run_inv [OF i assms(2)] sync.run_le [OF i assms(2)]
    by (simp add: Let_def sync_inv_def sync_le_def GetBlock_def LatestBlock_def)
qed

theorem sync_run_invariant_witness:
  "let e = run sync_step (NewSyncEngine (cfg_Sequencer DefaultConfig)) [Poll (\<lambda>_. None)];
       e' = run sync_step e [Poll (honest_post example_chain)] in
    dom (sblocks e') = {1..latestBlock e'} \<and> (\<forall>n b. GetBlock e' n = Some b \<longrightarrow> bl_Number b = n) \<and>
    sblocks e \<subseteq>\<^sub>m sblocks e' \<and> LatestBlock e \<le> LatestBlock e'"
proof (rule sync_run_invariant)
  show "list_all op_ok [Poll (\<lambda>_. None)]" by (simp add: fetchBlock_def rpcCall_def)
  show "list_all op_ok [Poll (honest_post example_chain)]" using example_fetch_only by auto
qed

text \<open>
  C6: A poll of a sequencer that serves its chain returns, and brings the engine up to the
  sequencer's latest block: every missing block is stored, none of the old ones changes,
  the callback is called once per new block in ascending order, and the engine then counts
  as synced. The latest number may be anything but the largest 64-bit one.
\<close>

theorem syncFromRPC_catches_up:
  assumes "sync_inv e" "fetchLatestBlockNumber post = Ok r" "latestBlock e \<le> r" "r \<noteq> -1"
    and "\<And>n. latestBlock e < n \<Longrightarrow> n \<le> r \<Longrightarrow> fetchBlock post n = Ok (chain n) \<and> bl_Number (chain n) = n"
  shows "\<exists>e' m'. syncFromRPC post e m = Some (e', m', map (\<lambda>i. chain (word_of_int i)) [uint (latestBlock e) + 1..uint r]) \<and>
    LatestBlock e' = r \<and> IsSynced post e' \<and> sync_inv e' \<and> sblocks e \<subseteq>\<^sub>m sblocks e' \<and>
    (\<forall>n. latestBlock e < n \<longrightarrow> n \<le> r \<longrightarrow> GetBlock e' n = Some (chain n))"
proof -
  obtain e' m' where l: "rpc_loop post (latestBlock e + 1) r e m [] =
      Some (e', m', map (\<lambda>i. chain (word_of_int i)) [uint (latestBlock e) + 1..uint r])"
    and p: "latestBlock e' = r" "sync_inv e'" "sync_le e e'"
      "\<forall>n. latestBlock e < n \<longrightarrow> n \<le> r \<longrightarrow> sblocks e' n = Some (chain n)"
    using rpc_loop_catchup [OF assms(1,3,4,5), of m "[]"] by auto
  have "syncFromRPC post e m = Some (if r \<le> latestBlock e then (e, m, []) else
      (e', m', map (\<lambda>i. chain (word_of_int i)) [uint (latestBlock e) + 1..uint r]))"
    using assms(2) l by (simp add: syncFromRPC_def LatestBlock_def)
  moreover have "r \<le> latestBlock e \<Longrightarrow> latestBlock e = r" using assms(3) by simp
  ultimately show ?thesis
    using assms(1,2) p by (cases "r \<le> latestBlock e") (auto simp: IsSynced_def LatestBlock_def GetBlock_def sync_le_def not_le)
qed

theorem syncFromRPC_catches_up_witness:
  "\<exists>e' m'. syncFromRPC (honest_post example_chain) (NewSyncEngine (cfg_Sequencer DefaultConfig)) None =
      Some (e', m', [example_block 1, example_block 2]) \<and>
    LatestBlock e' = 2 \<and> IsSynced (honest_post example_chain) e' \<and> sync_inv e' \<and>
    GetBlock e' 1 = Some (example_block 1) \<and> GetBlock e' 2 = Some (example_block 2)"
proof -
  let ?e = "NewSyncEngine (cfg_Sequencer DefaultConfig)"
  have z: "latestBlock ?e = 0" by (simp add: NewSyncEngine_def)
  have f: "fetchBlock (honest_post example_chain) n = Ok (example_block n) \<and> bl_Number (example_block n) = n"
    if "latestBlock ?e < n" "n \<le> 2" for n
    using example_fetch(2) [of n] that z by (simp add: example_block_def)
  have l: "latestBlock ?e \<le> 2" "(2 :: uint64) \<noteq> -1" by (simp_all add: z)
  show ?thesis
    using syncFromRPC_catches_up [OF sync_inv_new example_fetch(1) l f, of None]
    by (auto simp: z upto_rec1 word_less_nat_alt word_le_nat_alt)
qed

text \<open>
  C36: A poll does not always return: when the sequencer reports the largest 64-bit block
  number, which the engine has not reached, and answers every block request, the loop counter wraps to 0 before the loop
  condition can fail, and the poll runs forever.
\<close>

theorem syncFromRPC_diverges:
  assumes "fetchLatestBlockNumber post = Ok (-1)" "latestBlock e \<noteq> -1" "\<And>n. \<exists>b. fetchBlock post n = Ok b"
  shows "syncFromRPC post e m = None"
proof -
  have never: False if "rpc_loop post num (-1) e m ns = Some r" for num m ns r
    using that
  proof (rule rpc_loop_rule [where P = "\<lambda>_ _ _ _ _. False"])
    fix num
    assume "\<not> num \<le> - 1 \<or> (\<forall>b. fetchBlock post num \<noteq> Ok b)"
    then show False using assms(3) [of num] word_order.extremum [of num] by auto
  qed
  have "rpc_loop post (latestBlock e + 1) (-1) e m [] = None"
    using never by (cases "rpc_loop post (latestBlock e + 1) (-1) e m []") auto
  moreover have "\<not> - 1 \<le> latestBlock e" using assms(2) word_order.extremum_uniqueI by blast
  ultimately show ?thesis using assms(1) by (simp add: syncFromRPC_def LatestBlock_def)
qed

definition endless_post :: http_post where
  "endless_post req = Some (if req = rpc_request ''eth_blockNumber'' []
     then rpc_response (JStr (''0x'' @ hex_string (uint (-1 :: uint64)))) else rpc_response (json_of_BlockAnnounce (announce_of_block (example_block 7))))"

theorem syncFromRPC_diverges_witness:
  "syncFromRPC endless_post (NewSyncEngine (cfg_Sequencer DefaultConfig)) None = None"
proof (rule syncFromRPC_diverges)
  show "fetchLatestBlockNumber endless_post = Ok (- 1)"
    by (rule fetchLatest_response) (simp add: endless_post_def)
  show "latestBlock (NewSyncEngine (cfg_Sequencer DefaultConfig)) \<noteq> - 1" by (simp add: NewSyncEngine_def)
  have "fetchBlock endless_post n = Ok (example_block 7)" for n
    by (rule fetchBlock_response)
      (simp_all add: endless_post_def block_request_inject block_utf8_def example_block_def valid_utf8_ascii)
  then show "\<exists>b. fetchBlock endless_post n = Ok b" for n by blast
qed

text \<open>
  C35: One announcement with the payload \<^verbatim>\<open>{}\<close>, which decodes to block number 0, stops the
  engine for good once it has synced a block: it is stored, the latest number falls back to
  0, and no later message or poll, honest or not, changes the engine again.
\<close>

theorem zero_block_stalls:
  assumes "sync_inv e" "1 \<le> latestBlock e" "msg_Type msg = MsgNewBlock" "msg_Payload msg = Some (bytes_of_string ''{}'')"
  shows "let e' = sync_step e (Gossip post msg) in LatestBlock e' = 0 \<and> run sync_step e' xs = e'"
proof -
  have "json_parse ''{}'' = Some (JObj [])" using json_parse_print [of "JObj []"] by (simp add: max_nesting_def)
  then obtain a where a: "DecodeBlockAnnounce (bytes_of_string ''{}'') = Ok a" "ba_Number a = 0"
    by (simp add: DecodeBlockAnnounce_def decode_as_def unmarshal_def object_of_def fields_BlockAnnounce_def)
  then have "sync_step e (Gossip post msg) = fst (commit_block e (block_of_announce a))"
    using assms(3,4) by (simp add: p2pBlockListener_step_def handleP2PBlock_def slice_bytes_def processBlock_engine)
  moreover have "stalled (fst (commit_block e (block_of_announce a)))"
    using commit_zero [OF assms(1,2)] a(2) by (simp add: block_of_announce_def)
  ultimately show ?thesis by (simp add: run_stalled Let_def) (simp add: stalled_def LatestBlock_def)
qed

theorem zero_block_stalls_witness:
  "let e = (NewSyncEngine (cfg_Sequencer DefaultConfig))\<lparr>latestBlock := 1, sblocks := [1 \<mapsto> example_block 1]\<rparr>;
       e' = sync_step e (Gossip (\<lambda>_. None) \<lparr>msg_Type = 0, msg_From = [], msg_Payload = Some (bytes_of_string ''{}'')\<rparr>) in
   LatestBlock e' = 0 \<and> run sync_step e' [Poll (honest_post example_chain)] = e'"
proof -
  have "sync_inv ((NewSyncEngine (cfg_Sequencer DefaultConfig))\<lparr>latestBlock := 1, sblocks := [1 \<mapsto> example_block 1]\<rparr>)"
    by (auto simp: sync_inv_def example_block_def)
  from zero_block_stalls [OF this, of "\<lparr>msg_Type = 0, msg_From = [], msg_Payload = Some (bytes_of_string ''{}'')\<rparr>"
      "\<lambda>_. None" "[Poll (honest_post example_chain)]"]
  show ?thesis by (simp add: MsgNewBlock_def Let_def)
qed

text \<open>
  The request body is sent whole: whatever buffer sizes the HTTP client reads it with,
  the bytes it gets are the bytes given to \<^verbatim>\<open>jsonReader\<close>, up to the room it offered.
\<close>

lemma jsonReader_complete:
  "read_all (jsonReader data) ks = take (sum_list ks) data"
  by (simp add: read_all_take jsonReader_def)
end
