(* ===== verification/SHA256Bits.thy ===== *)
theory SHA256Bits
  imports SHA256
begin

text \<open>
  The compression function on lists of bits, least significant bit first, equal to the one on
  words. Rewriting evaluates it several times faster, so that digests of concrete messages can
  be computed by the kernel.
\<close>

unbundle bit_operations_syntax

type_synonym bits = "bool list"

section \<open>Operations\<close>

fun int_bits :: "nat \<Rightarrow> int \<Rightarrow> bits" where
  "int_bits 0 k = []"
| "int_bits (Suc n) k = odd k # int_bits n (k div 2)"

definition word_bits :: "'a::len word \<Rightarrow> bits" where
  "word_bits w = int_bits LENGTH('a) (uint w)"

fun add_bits :: "bool \<Rightarrow> bits \<Rightarrow> bits \<Rightarrow> bits" where
  "add_bits c (x # xs) (y # ys) =
     (if x then (if y then c # add_bits True xs ys else if c then False # add_bits True xs ys else True # add_bits False xs ys)
      else if y then (if c then False # add_bits True xs ys else True # add_bits False xs ys) else c # add_bits False xs ys)"
| "add_bits c _ _ = []"

fun xor_bits :: "bits \<Rightarrow> bits \<Rightarrow> bits" where
  "xor_bits (x # xs) (y # ys) = (if x then \<not> y else y) # xor_bits xs ys"
| "xor_bits _ _ = []"

fun choose_bits :: "bits \<Rightarrow> bits \<Rightarrow> bits \<Rightarrow> bits" where
  "choose_bits (e # es) (f # fs) (g # gs) = (if e then f else g) # choose_bits es fs gs"
| "choose_bits _ _ _ = []"

fun majority_bits :: "bits \<Rightarrow> bits \<Rightarrow> bits \<Rightarrow> bits" where
  "majority_bits (a # as) (b # bs) (c # cs) = (if a then (if b then True else c) else if b then c else False) # majority_bits as bs cs"
| "majority_bits _ _ _ = []"

definition rot_bits :: "nat \<Rightarrow> bits \<Rightarrow> bits" where
  "rot_bits n w = drop n w @ take n w"

definition shift_bits :: "nat \<Rightarrow> bits \<Rightarrow> bits" where
  "shift_bits n w = drop n w @ replicate n False"

definition schedule_bits :: "bits \<Rightarrow> bits \<Rightarrow> bits \<Rightarrow> bits \<Rightarrow> bits" where
  "schedule_bits w2 w7 w15 w16 =
     add_bits False (add_bits False (add_bits False
       (xor_bits (rot_bits 17 w2) (xor_bits (rot_bits 19 w2) (shift_bits 10 w2))) w7)
       (xor_bits (rot_bits 7 w15) (xor_bits (rot_bits 18 w15) (shift_bits 3 w15)))) w16"

fun extend_bits :: "nat \<Rightarrow> bits list \<Rightarrow> bits list" where
  "extend_bits 0 ws = ws"
| "extend_bits (Suc n) ws = extend_bits n (schedule_bits (ws ! 1) (ws ! 6) (ws ! 14) (ws ! 15) # ws)"

fun round_bits :: "bits \<times> bits \<Rightarrow> bits list \<Rightarrow> bits list" where
  "round_bits (k, w) [a, b, c, d, e, f, g, h] =
     (let t1 = add_bits False (add_bits False (add_bits False (add_bits False h
                 (xor_bits (rot_bits 6 e) (xor_bits (rot_bits 11 e) (rot_bits 25 e)))) (choose_bits e f g)) k) w;
          t2 = add_bits False (xor_bits (rot_bits 2 a) (xor_bits (rot_bits 13 a) (rot_bits 22 a))) (majority_bits a b c)
      in [add_bits False t1 t2, a, b, c, add_bits False d t1, e, f, g])"
| "round_bits _ cs = cs"

definition compress_bits :: "bits list \<Rightarrow> bits list \<Rightarrow> bits list" where
  "compress_bits ws cs = map2 (add_bits False) cs
     (fold round_bits (zip (map word_bits round_consts) (rev (extend_bits 48 (rev ws)))) cs)"

text \<open>Words of four bytes, most significant byte first.\<close>

fun bits_words :: "bits list \<Rightarrow> bits list" where
  "bits_words (a # b # c # d # bs) = (d @ c @ b @ a) # bits_words bs"
| "bits_words _ = []"

definition bits_bytes :: "bits \<Rightarrow> bits list" where
  "bits_bytes w = [drop 24 w, take 8 (drop 16 w), take 8 (drop 8 w), take 8 w]"

fun chain_bits :: "chain \<Rightarrow> bits list" where
  "chain_bits (Chain a b c d e f g h) = map word_bits [a, b, c, d, e, f, g, h]"

text \<open>The digest of a message that fits one block.\<close>

definition sha256_bits :: "bytes \<Rightarrow> bits list" where
  "sha256_bits bs = concat (map bits_bytes (compress_bits (bits_words (map word_bits (sha_pad bs))) (chain_bits initial_chain)))"

section \<open>Equivalence\<close>

lemma upt_Suc_map: "[0..<Suc n] = 0 # map Suc [0..<n]"
  by (simp add: map_Suc_upt upt_conv_Cons)

lemma int_bits_map: "int_bits n k = map (bit k) [0..<n]"
  by (induction n arbitrary: k) (simp_all add: upt_Suc_map bit_0 bit_Suc comp_def del: upt_Suc)

lemma add_bits_int: "add_bits c (int_bits n k) (int_bits n l) = int_bits n (k + l + of_bool c)"
proof (induction n arbitrary: c k l)
  case (Suc n)
  have "(k + l + of_bool c) div 2 = k div 2 + l div 2 + of_bool (odd k \<and> odd l \<or> (odd k \<or> odd l) \<and> c)"
    by (cases c; cases "even k"; cases "even l") (auto elim!: evenE oddE)
  then show ?case
    using Suc.IH [of True "k div 2" "l div 2"] Suc.IH [of False "k div 2" "l div 2"] by (cases c; cases "even k"; cases "even l") auto
qed simp

lemma word_bits_map: "word_bits (w :: 'a::len word) = map (bit w) [0..<LENGTH('a)]"
  by (simp add: word_bits_def int_bits_map bit_uint_iff)

lemma word_bits_inject [simp]: "word_bits v = word_bits w \<longleftrightarrow> v = w"
proof
  assume e: "word_bits v = word_bits w"
  show "v = w"
  proof (rule bit_word_eqI)
    fix n assume "n < LENGTH('a)"
    then show "bit v n = bit w n" using arg_cong [OF e, of "\<lambda>l. l ! n"] by (simp add: word_bits_map)
  qed
qed simp

lemma word_bits_add: "word_bits (v + w) = add_bits False (word_bits v) (word_bits (w :: 'a::len word))"
proof -
  have e: "v + w = word_of_int (uint v + uint w)" by simp
  have "bit (v + w) i = bit (uint v + uint w) i" if "i < LENGTH('a)" for i
    unfolding e bit_word_of_int_iff using that by simp
  then show ?thesis unfolding word_bits_def add_bits_int by (simp add: int_bits_map bit_uint_iff)
qed

lemma length_word_bits: "length (word_bits (w :: 'a::len word)) = LENGTH('a)"
  by (simp add: word_bits_map)

lemma length_word_bits32 [simp]: "length (word_bits (w :: uint32)) = 32" "length (word_bits (b :: byte)) = 8"
  unfolding length_word_bits by simp_all

lemma nth_word_bits [simp]: "i < LENGTH('a) \<Longrightarrow> word_bits (w :: 'a::len word) ! i = bit w i"
  by (simp add: word_bits_map)

lemma xor_bits_map: "xor_bits (map f xs) (map g xs) = map (\<lambda>i. f i \<noteq> g i) xs"
  by (induction xs) auto

lemma choose_bits_map: "choose_bits (map e xs) (map f xs) (map g xs) = map (\<lambda>i. if e i then f i else g i) xs"
  by (induction xs) auto

lemma majority_bits_map: "majority_bits (map a xs) (map b xs) (map c xs) = map (\<lambda>i. a i \<and> b i \<or> a i \<and> c i \<or> b i \<and> c i) xs"
  by (induction xs) auto

lemma word_bits_ops:
  "word_bits (v XOR w) = xor_bits (word_bits v) (word_bits w)"
  "xor_bits (word_bits (v AND w)) (word_bits (NOT v AND u)) = choose_bits (word_bits v) (word_bits w) (word_bits u)"
  "xor_bits (word_bits (v AND w)) (xor_bits (word_bits (v AND u)) (word_bits (w AND u))) = majority_bits (word_bits v) (word_bits w) (word_bits u)"
  by (auto simp: word_bits_map xor_bits_map choose_bits_map majority_bits_map bit_simps)

lemma word_bits_rotr:
  assumes "0 < n" "n < 32"
  shows "word_bits (rotr n w) = rot_bits n (word_bits w)"
proof (rule nth_equalityI)
  show "length (word_bits (rotr n w)) = length (rot_bits n (word_bits w))" using assms by (simp add: rot_bits_def)
  fix i assume "i < length (word_bits (rotr n w))"
  then have i: "i < 32" by simp
  have b: "bit (rotr n w) i \<longleftrightarrow> bit w (i + n) \<or> 32 - n \<le> i \<and> bit w (i + n - 32)"
    using i assms by (simp add: rotr_def bit_or_iff bit_drop_bit_eq bit_push_bit_iff add.commute)
  show "word_bits (rotr n w) ! i = rot_bits n (word_bits w) ! i"
  proof (cases "i < 32 - n")
    case True
    then have "rot_bits n (word_bits w) ! i = bit w (i + n)" using assms i by (simp add: rot_bits_def nth_append add.commute)
    then show ?thesis using b i True by simp
  next
    case False
    then have "\<not> bit w (i + n)" by (auto dest: bit_imp_le_length)
    moreover have "rot_bits n (word_bits w) ! i = bit w (i + n - 32)" using assms i False by (simp add: rot_bits_def nth_append)
    ultimately show ?thesis using b i False by simp
  qed
qed

lemma word_bits_drop:
  assumes "n < 32"
  shows "word_bits (drop_bit n w) = shift_bits n (word_bits (w :: uint32))"
proof (rule nth_equalityI)
  show "length (word_bits (drop_bit n w)) = length (shift_bits n (word_bits w))" using assms by (simp add: shift_bits_def)
  fix i assume "i < length (word_bits (drop_bit n w))"
  then have i: "i < 32" by simp
  show "word_bits (drop_bit n w) ! i = shift_bits n (word_bits w) ! i"
  proof (cases "i < 32 - n")
    case True
    then show ?thesis using assms i by (simp add: shift_bits_def nth_append bit_drop_bit_eq)
  next
    case False
    then have "\<not> bit w (n + i)" by (auto dest: bit_imp_le_length)
    then show ?thesis using assms i False by (simp add: shift_bits_def nth_append bit_drop_bit_eq)
  qed
qed

lemmas word_bits_simps = word_bits_add word_bits_ops word_bits_rotr word_bits_drop

lemma word_bits_schedule:
  "word_bits (schedule_word w2 w7 w15 w16) = schedule_bits (word_bits w2) (word_bits w7) (word_bits w15) (word_bits w16)"
  by (simp add: schedule_word_def schedule_bits_def word_bits_simps)

lemma extend_bits: "16 \<le> length ws \<Longrightarrow> map word_bits (extend_schedule n ws) = extend_bits n (map word_bits ws)"
  by (induction n ws rule: extend_schedule.induct) (simp_all add: word_bits_schedule nth_Cons')

lemma chain_round: "chain_bits (sha_round (k, w) c) = round_bits (word_bits k, word_bits w) (chain_bits c)"
  by (cases c) (simp add: Let_def word_bits_simps)

lemma chain_rounds: "chain_bits (fold sha_round (zip ks ws) c) = fold round_bits (zip (map word_bits ks) (map word_bits ws)) (chain_bits c)"
  by (induction ks ws arbitrary: c rule: list_induct2') (simp_all add: chain_round)

lemma chain_sum: "chain_bits (chain_add c d) = map2 (add_bits False) (chain_bits c) (chain_bits d)"
  by (cases c; cases d) (simp add: word_bits_add)

lemma words_length: "length (words_of bs) = length bs div 4"
  by (induction bs rule: words_of.induct) simp_all

lemma word_bits_be: "word_bits (be_word32 [a, b, c, d]) = word_bits d @ word_bits c @ word_bits b @ word_bits a"
proof (intro nth_equalityI)
  fix i assume "i < length (word_bits (be_word32 [a, b, c, d]))"
  then have "i < 32" by simp
  then show "word_bits (be_word32 [a, b, c, d]) ! i = (word_bits d @ word_bits c @ word_bits b @ word_bits a) ! i"
    by (auto simp: be_word32_def bit_simps nth_append dest: bit_imp_le_length)
qed simp

lemma bits_words: "map word_bits (words_of bs) = bits_words (map word_bits bs)"
  by (induction bs rule: words_of.induct) (simp_all add: word_bits_be)

lemma compress_bits:
  assumes "length block = 64"
  shows "chain_bits (compress block c) = compress_bits (bits_words (map word_bits block)) (chain_bits c)"
proof -
  have "16 \<le> length (rev (words_of block))" using assms by (simp add: words_length)
  from extend_bits [OF this, of 48] have "map word_bits (schedule block) = rev (extend_bits 48 (rev (bits_words (map word_bits block))))"
    by (simp add: schedule_def flip: bits_words rev_map)
  then show ?thesis by (simp add: compress_def compress_bits_def chain_sum chain_rounds)
qed

lemma bits_bytes: "map word_bits (be_bytes32 w) = bits_bytes (word_bits w)"
proof -
  have "word_bits (ucast (drop_bit k w) :: byte) = take 8 (drop k (word_bits w))" if "k \<le> 24" for k
    using that by (intro nth_equalityI) (auto simp: bit_simps add.commute)
  from this [of 24] this [of 16] this [of 8] this [of 0] show ?thesis by (simp add: be_bytes32_def bits_bytes_def)
qed

lemma sha256_bits:
  assumes "length bs \<le> 55"
  shows "map word_bits (sha256 bs) = sha256_bits bs"
proof -
  have l: "length (sha_pad bs) = 64" using pad_length [of "length bs"] assms by (simp add: sha_pad_def)
  then have "blocks (sha_pad bs) = [sha_pad bs]" by (subst blocks.simps) (auto simp: blocks.simps)
  then have s: "sha256 bs = chain_bytes (compress (sha_pad bs) initial_chain)" by (simp add: sha256_def)
  have "map word_bits (chain_bytes c) = concat (map bits_bytes (chain_bits c))" for c by (cases c) (simp add: bits_bytes)
  then show ?thesis using compress_bits [OF l] by (simp add: s sha256_bits_def)
qed

lemma sha256_eval:
  assumes "length bs \<le> 55" "sha256_bits bs = map word_bits ds"
  shows "sha256 bs = ds"
proof -
  have "map word_bits (sha256 bs) = map word_bits ds" using sha256_bits [OF assms(1)] assms(2) by simp
  then show ?thesis by (simp add: inj_map_eq_map inj_def)
qed

text \<open>The digest of the empty message, evaluated.\<close>

lemma sha256_empty:
  "sha256 [] = [227, 176, 196, 66, 152, 252, 28, 20, 154, 251, 244, 200, 153, 111, 185, 36, 39, 174,
     65, 228, 100, 155, 147, 76, 164, 149, 153, 27, 120, 82, 184, 85]"
  by (rule sha256_eval) (simp, code_simp)

end
