(* ===== verification/Verification.thy ===== *)
theory Verification
  imports Sync SHA256Bits
begin

text \<open>
  The verification engine, \<^verbatim>\<open>internal/verification/engine.go\<close> and \<^verbatim>\<open>features.go\<close>: state roots,
  lane statistics, compute receipts and adaptive block bounds. SHA-256 is the one of theory
  SHA256. The go-ethereum functions are not part of the repository; they are the fields of
  the record \<open>Geth\<close>, an argument of the definitions, and \<open>geth_ok\<close> names what is documented
  of them. The error texts are the constructors of \<open>verify_error\<close>, with the values the
  format strings print. A sequencer URL is queried through \<open>rpcPost\<close>, a function of the URL
  and the request body.
\<close>

section \<open>The functions of go-ethereum\<close>

record Geth =
  HexToHash :: "string \<Rightarrow> hash"
  HashHex :: "hash \<Rightarrow> string"
  HexToAddress :: "string \<Rightarrow> address"
  BytesToHash :: "bytes \<Rightarrow> hash"
  Keccak256Hash :: "bytes \<Rightarrow> hash"
  Sign :: "hash \<Rightarrow> bytes \<Rightarrow> bytes option"
  SigToPub :: "hash \<Rightarrow> bytes \<Rightarrow> bytes option"
  PubkeyToAddress :: "bytes \<Rightarrow> address"
  PublicKey :: "bytes \<Rightarrow> bytes"

text \<open>
  Hashes have 32 bytes and addresses 20; \<^verbatim>\<open>Hex\<close> is injective on hashes, and \<^verbatim>\<open>HexToHash\<close> reads
  it back; 32 bytes are their own hash value; a signature has 65 bytes and the public key of
  the signer is recovered from it and the digest.
\<close>

definition geth_ok :: "Geth \<Rightarrow> bool" where
  "geth_ok g \<longleftrightarrow>
     (\<forall>s. length (HexToHash g s) = 32) \<and> (\<forall>s. length (HexToAddress g s) = 20) \<and>
     (\<forall>bs. length bs = 32 \<longrightarrow> BytesToHash g bs = bs \<and> HexToHash g (HashHex g bs) = bs) \<and>
     (\<forall>bs. length (Keccak256Hash g bs) = 32) \<and> (\<forall>p. length (PubkeyToAddress g p) = 20) \<and>
     (\<forall>h k sig. Sign g h k = Some sig \<longrightarrow> length sig = 65 \<and> SigToPub g h sig = Some (PublicKey g k))"

lemma HashHex_inject:
  assumes "geth_ok g" "length h = 32" "length h' = 32"
  shows "HashHex g h = HashHex g h' \<longleftrightarrow> h = h'"
  using assms unfolding geth_ok_def by metis

section \<open>Blocks\<close>

datatype verify_error =
    NoError
  | InvalidBlockNumber
  | StateRootMismatch string string
  | LaneStatsFailed
  | LaneCountMismatch goint goint
  | ReceiptFailed
  | ReceiptNotFound
  | ReceiptHashMismatch string string
  | ReceiptUnverified
  | GasLimitOutside uint64 uint64 uint64
  | TxCountExceeds goint goint
  | GasUsedExceeds uint64 uint64

record VerifyResult =
  vr_BlockNumber :: uint64
  vr_Valid :: bool
  vr_Error :: verify_error
  vr_StateRoot :: string

record VerifyEngine =
  stateRoot :: hash
  ve_metrics :: bool

definition NewVerifyEngine :: VerifyEngine where
  "NewVerifyEngine = \<lparr>stateRoot = sha256 (bytes_of_string ''insoblok-genesis'' @ big_bytes 42069), ve_metrics = False\<rparr>"

text \<open>The metrics collector is set, and never used.\<close>

definition SetVerifyMetrics :: "VerifyEngine \<Rightarrow> VerifyEngine" where
  "SetVerifyMetrics e = e\<lparr>ve_metrics := True\<rparr>"

definition root_preimage :: "hash \<Rightarrow> L2Block \<Rightarrow> bytes" where
  "root_preimage prev block =
     big_bytes (bl_Number block) @ prev @ big_bytes (bl_Timestamp block) @ big_bytes (bl_GasUsed block)"

definition computeExpectedStateRoot :: "VerifyEngine \<Rightarrow> L2Block \<Rightarrow> hash" where
  "computeExpectedStateRoot e block = sha256 (root_preimage (stateRoot e) block)"

definition VerifyBlock :: "Geth \<Rightarrow> VerifyEngine \<Rightarrow> L2Block \<Rightarrow> VerifyEngine \<times> VerifyResult" where
  "VerifyBlock g e block =
     (if bl_Number block = 0 then
        (e, \<lparr>vr_BlockNumber = bl_Number block, vr_Valid = False, vr_Error = InvalidBlockNumber, vr_StateRoot = []\<rparr>)
      else
        (let expectedRoot = computeExpectedStateRoot e block;
             rootHex = HashHex g expectedRoot
         in if bl_StateRoot block \<noteq> [] \<and> bl_StateRoot block \<noteq> rootHex then
              (e, \<lparr>vr_BlockNumber = bl_Number block, vr_Valid = False,
                vr_Error = StateRootMismatch (bl_StateRoot block) rootHex, vr_StateRoot = rootHex\<rparr>)
            else
              (e\<lparr>stateRoot := expectedRoot\<rparr>, \<lparr>vr_BlockNumber = bl_Number block, vr_Valid = True,
                vr_Error = NoError, vr_StateRoot = rootHex\<rparr>)))"

section \<open>Lanes\<close>

type_synonym url_post = "string \<Rightarrow> bytes \<Rightarrow> bytes option"

record LaneStats =
  ls_Fast :: goint
  ls_Standard :: goint
  ls_Slow :: goint
  ls_Total :: goint
  ls_Enabled :: bool

record LaneVerificationResult =
  lv_BlockNumber :: uint64
  lv_LanesEnabled :: bool
  lv_FastCount :: goint
  lv_StandardCount :: goint
  lv_SlowCount :: goint
  lv_Valid :: bool
  lv_Error :: verify_error

definition zero_stats :: LaneStats where
  "zero_stats = \<lparr>ls_Fast = 0, ls_Standard = 0, ls_Slow = 0, ls_Total = 0, ls_Enabled = False\<rparr>"

definition dec_LaneStats :: "LaneStats \<Rightarrow> json \<Rightarrow> LaneStats option" where
  "dec_LaneStats old v = (case v of
     JNull \<Rightarrow> Some old
   | JObj kvs \<Rightarrow>
       (case (struct_field dec_int ''fast'' (ls_Fast old) kvs, struct_field dec_int ''standard'' (ls_Standard old) kvs,
              struct_field dec_int ''slow'' (ls_Slow old) kvs, struct_field dec_int ''total'' (ls_Total old) kvs,
              struct_field dec_bool ''enabled'' (ls_Enabled old) kvs) of
          (Some f, Some s, Some w, Some t, Some e) \<Rightarrow>
            Some \<lparr>ls_Fast = f, ls_Standard = s, ls_Slow = w, ls_Total = t, ls_Enabled = e\<rparr>
        | _ \<Rightarrow> None)
   | _ \<Rightarrow> None)"

text \<open>A request with a fixed body; its response is read whole and decoded.\<close>

definition request_body :: "string \<Rightarrow> string \<Rightarrow> bytes" where
  "request_body method params = bytes_of_string
     (CHR ''{'' # CHR 0x22 # ''jsonrpc'' @ CHR 0x22 # CHR '':'' # CHR 0x22 # ''2.0'' @ CHR 0x22 # CHR '','' #
      CHR 0x22 # ''id'' @ CHR 0x22 # '':1,'' @ CHR 0x22 # ''method'' @ CHR 0x22 # CHR '':'' # CHR 0x22 # method @ CHR 0x22 # CHR '','' #
      CHR 0x22 # ''params'' @ CHR 0x22 # '':['' @ params @ '']}'')"

definition fetchLaneStats :: "url_post \<Rightarrow> string \<Rightarrow> LaneStats option" where
  "fetchLaneStats rpcPost sequencerURL =
     (case rpcPost sequencerURL (request_body ''inso_getLaneStats'' []) of
        None \<Rightarrow> None
      | Some data \<Rightarrow> unmarshal (struct_field dec_LaneStats ''result'' zero_stats) data)"

definition VerifyLaneAllocation :: "url_post \<Rightarrow> string \<Rightarrow> LaneVerificationResult" where
  "VerifyLaneAllocation rpcPost sequencerURL =
     (let result = \<lparr>lv_BlockNumber = 0, lv_LanesEnabled = False, lv_FastCount = 0, lv_StandardCount = 0,
            lv_SlowCount = 0, lv_Valid = False, lv_Error = NoError\<rparr>
      in case fetchLaneStats rpcPost sequencerURL of
           None \<Rightarrow> result\<lparr>lv_Error := LaneStatsFailed\<rparr>
         | Some stats \<Rightarrow>
             (let result1 = result\<lparr>lv_LanesEnabled := ls_Enabled stats, lv_FastCount := ls_Fast stats,
                    lv_StandardCount := ls_Standard stats, lv_SlowCount := ls_Slow stats\<rparr>;
                  expectedTotal = ls_Fast stats + ls_Standard stats + ls_Slow stats
              in if \<not> ls_Enabled stats then result1\<lparr>lv_Valid := True\<rparr>
                 else if 0 < sint (ls_Total stats) \<and> ls_Total stats \<noteq> expectedTotal
                 then result1\<lparr>lv_Error := LaneCountMismatch (ls_Total stats) expectedTotal\<rparr>
                 else result1\<lparr>lv_Valid := True\<rparr>))"

section \<open>Compute receipts\<close>

record ComputeReceiptData =
  cr_TxHash :: string
  cr_BlockNumber :: uint64
  cr_TxIndex :: goint
  cr_Sender :: string
  cr_GasUsed :: uint64
  cr_Status :: uint64
  cr_PreStateRoot :: string
  cr_PostStateRoot :: string
  cr_InputHash :: string
  cr_OutputHash :: string
  cr_LogsHash :: string
  cr_ReceiptHash :: string
  cr_Verified :: bool

record ReceiptVerificationResult =
  rv_TxHash :: string
  rv_BlockNumber :: uint64
  rv_Valid :: bool
  rv_Error :: verify_error
  rv_ReceiptHash :: string
  rv_Verified :: bool

definition zero_receipt :: ComputeReceiptData where
  "zero_receipt = \<lparr>cr_TxHash = [], cr_BlockNumber = 0, cr_TxIndex = 0, cr_Sender = [], cr_GasUsed = 0,
     cr_Status = 0, cr_PreStateRoot = [], cr_PostStateRoot = [], cr_InputHash = [], cr_OutputHash = [],
     cr_LogsHash = [], cr_ReceiptHash = [], cr_Verified = False\<rparr>"

definition fields_Receipt :: "ComputeReceiptData \<Rightarrow> (string \<times> json) list \<Rightarrow> ComputeReceiptData option" where
  "fields_Receipt old kvs =
     (case (struct_field dec_string ''txHash'' (cr_TxHash old) kvs, struct_field dec_uint64 ''blockNumber'' (cr_BlockNumber old) kvs,
            struct_field dec_int ''txIndex'' (cr_TxIndex old) kvs, struct_field dec_string ''sender'' (cr_Sender old) kvs,
            struct_field dec_uint64 ''gasUsed'' (cr_GasUsed old) kvs, struct_field dec_uint64 ''status'' (cr_Status old) kvs,
            struct_field dec_string ''preStateRoot'' (cr_PreStateRoot old) kvs,
            struct_field dec_string ''postStateRoot'' (cr_PostStateRoot old) kvs,
            struct_field dec_string ''inputHash'' (cr_InputHash old) kvs, struct_field dec_string ''outputHash'' (cr_OutputHash old) kvs,
            struct_field dec_string ''logsHash'' (cr_LogsHash old) kvs, struct_field dec_string ''receiptHash'' (cr_ReceiptHash old) kvs,
            struct_field dec_bool ''verified'' (cr_Verified old) kvs) of
        (Some t, Some n, Some i, Some s, Some u, Some st, Some pre, Some post, Some inp, Some out, Some lg, Some rh, Some v) \<Rightarrow>
          Some \<lparr>cr_TxHash = t, cr_BlockNumber = n, cr_TxIndex = i, cr_Sender = s, cr_GasUsed = u, cr_Status = st,
            cr_PreStateRoot = pre, cr_PostStateRoot = post, cr_InputHash = inp, cr_OutputHash = out, cr_LogsHash = lg,
            cr_ReceiptHash = rh, cr_Verified = v\<rparr>
      | _ \<Rightarrow> None)"

text \<open>\<^verbatim>\<open>*ComputeReceiptData\<close>: \<^verbatim>\<open>null\<close> is the nil pointer, an object is decoded into the pointee.\<close>

definition dec_Receipt :: "ComputeReceiptData option \<Rightarrow> json \<Rightarrow> ComputeReceiptData option option" where
  "dec_Receipt old v = (case v of
     JNull \<Rightarrow> Some None
   | JObj kvs \<Rightarrow> map_option Some (fields_Receipt (case old of None \<Rightarrow> zero_receipt | Some r \<Rightarrow> r) kvs)
   | _ \<Rightarrow> None)"

definition uint64ToBytes :: "uint64 \<Rightarrow> bytes" where
  "uint64ToBytes v = (let b = big_bytes v in replicate (8 - length b) 0 @ b)"

definition receipt_preimage :: "Geth \<Rightarrow> ComputeReceiptData \<Rightarrow> bytes" where
  "receipt_preimage g r =
     HexToHash g (cr_TxHash r) @ uint64ToBytes (cr_BlockNumber r) @ uint64ToBytes (cr_TxIndex r) @
     HexToAddress g (cr_Sender r) @ uint64ToBytes (cr_GasUsed r) @ HexToHash g (cr_PreStateRoot r) @
     HexToHash g (cr_PostStateRoot r) @ uint64ToBytes (cr_Status r) @ HexToHash g (cr_InputHash r) @
     HexToHash g (cr_OutputHash r) @ HexToHash g (cr_LogsHash r)"

definition computeReceiptHash :: "Geth \<Rightarrow> ComputeReceiptData \<Rightarrow> hash" where
  "computeReceiptHash g r = BytesToHash g (sha256 (receipt_preimage g r))"

text \<open>\<open>None\<close>: an error; \<open>Some None\<close>: no receipt.\<close>

definition fetchComputeReceipt :: "url_post \<Rightarrow> string \<Rightarrow> string \<Rightarrow> ComputeReceiptData option option" where
  "fetchComputeReceipt rpcPost sequencerURL txHash =
     (case rpcPost sequencerURL (request_body ''inso_getComputeReceipt'' (CHR 0x22 # txHash @ [CHR 0x22])) of
        None \<Rightarrow> None
      | Some data \<Rightarrow> unmarshal (struct_field dec_Receipt ''result'' None) data)"

definition VerifyComputeReceipt :: "Geth \<Rightarrow> url_post \<Rightarrow> string \<Rightarrow> string \<Rightarrow> ReceiptVerificationResult" where
  "VerifyComputeReceipt g rpcPost sequencerURL txHash =
     (let result = \<lparr>rv_TxHash = txHash, rv_BlockNumber = 0, rv_Valid = False, rv_Error = NoError,
            rv_ReceiptHash = [], rv_Verified = False\<rparr>
      in case fetchComputeReceipt rpcPost sequencerURL txHash of
           None \<Rightarrow> result\<lparr>rv_Error := ReceiptFailed\<rparr>
         | Some None \<Rightarrow> result\<lparr>rv_Error := ReceiptNotFound\<rparr>
         | Some (Some receipt) \<Rightarrow>
             (let result1 = result\<lparr>rv_BlockNumber := cr_BlockNumber receipt, rv_ReceiptHash := cr_ReceiptHash receipt\<rparr>;
                  recomputed = HashHex g (computeReceiptHash g receipt)
              in if recomputed \<noteq> cr_ReceiptHash receipt
                 then result1\<lparr>rv_Error := ReceiptHashMismatch (cr_ReceiptHash receipt) recomputed\<rparr>
                 else if \<not> cr_Verified receipt then result1\<lparr>rv_Error := ReceiptUnverified\<rparr>
                 else result1\<lparr>rv_Verified := True, rv_Valid := True\<rparr>))"

section \<open>Adaptive blocks\<close>

record AdaptiveBlockBounds =
  bd_MinGasLimit :: uint64
  bd_MaxGasLimit :: uint64
  bd_MinMaxTx :: goint
  bd_MaxMaxTx :: goint

definition DefaultAdaptiveBounds :: AdaptiveBlockBounds where
  "DefaultAdaptiveBounds = \<lparr>bd_MinGasLimit = 15000000, bd_MaxGasLimit = 60000000, bd_MinMaxTx = 1000, bd_MaxMaxTx = 10000\<rparr>"

record AdaptiveVerificationResult =
  av_BlockNumber :: uint64
  av_GasUsed :: uint64
  av_GasLimit :: uint64
  av_GasLimitValid :: bool
  av_TxCountValid :: bool
  av_Valid :: bool
  av_Error :: verify_error

text \<open>The three checks in order; each overwrites the error of the one before.\<close>

definition check_gas_limit :: "L2Block \<Rightarrow> AdaptiveBlockBounds \<Rightarrow> AdaptiveVerificationResult \<Rightarrow> AdaptiveVerificationResult" where
  "check_gas_limit block bounds result =
     (if 0 < bl_GasLimit block then
        (let ok = bd_MinGasLimit bounds \<le> bl_GasLimit block \<and> bl_GasLimit block \<le> bd_MaxGasLimit bounds
         in if ok then result\<lparr>av_GasLimitValid := True\<rparr>
            else result\<lparr>av_GasLimitValid := False,
              av_Error := GasLimitOutside (bl_GasLimit block) (bd_MinGasLimit bounds) (bd_MaxGasLimit bounds)\<rparr>)
      else result\<lparr>av_GasLimitValid := True\<rparr>)"

definition check_tx_count :: "L2Block \<Rightarrow> AdaptiveBlockBounds \<Rightarrow> AdaptiveVerificationResult \<Rightarrow> AdaptiveVerificationResult" where
  "check_tx_count block bounds result =
     (if 0 < sint (bl_TxCount block) then
        (if sint (bl_TxCount block) \<le> sint (bd_MaxMaxTx bounds) then result\<lparr>av_TxCountValid := True\<rparr>
         else result\<lparr>av_TxCountValid := False, av_Error := TxCountExceeds (bl_TxCount block) (bd_MaxMaxTx bounds)\<rparr>)
      else result\<lparr>av_TxCountValid := True\<rparr>)"

definition check_gas_used :: "L2Block \<Rightarrow> AdaptiveVerificationResult \<Rightarrow> AdaptiveVerificationResult" where
  "check_gas_used block result =
     (if 0 < bl_GasLimit block \<and> bl_GasLimit block < bl_GasUsed block
      then result\<lparr>av_GasLimitValid := False, av_Error := GasUsedExceeds (bl_GasUsed block) (bl_GasLimit block)\<rparr>
      else result)"

definition VerifyAdaptiveBlock :: "L2Block \<Rightarrow> AdaptiveBlockBounds \<Rightarrow> AdaptiveVerificationResult" where
  "VerifyAdaptiveBlock block bounds =
     (let result = check_gas_used block (check_tx_count block bounds (check_gas_limit block bounds
            \<lparr>av_BlockNumber = bl_Number block, av_GasUsed = bl_GasUsed block, av_GasLimit = bl_GasLimit block,
             av_GasLimitValid = False, av_TxCountValid = False, av_Valid = False, av_Error = NoError\<rparr>))
      in result\<lparr>av_Valid := av_GasLimitValid result \<and> av_TxCountValid result\<rparr>)"

definition truncate_string :: "string \<Rightarrow> nat \<Rightarrow> string" where
  "truncate_string s n = (if length s \<le> n then s else take n s)"

section \<open>State roots\<close>

text \<open>The root after a block, and verifying a list of blocks in order.\<close>

definition next_root :: "hash \<Rightarrow> L2Block \<Rightarrow> hash" where
  "next_root prev b = sha256 (root_preimage prev b)"

fun verify_all :: "Geth \<Rightarrow> VerifyEngine \<Rightarrow> L2Block list \<Rightarrow> VerifyEngine \<times> VerifyResult list" where
  "verify_all g e [] = (e, [])"
| "verify_all g e (b # bs) =
     (let (e1, r) = VerifyBlock g e b; (e2, rs) = verify_all g e1 bs in (e2, r # rs))"

text \<open>Each block claims no root or the root of the chain so far.\<close>

fun claims_ok :: "Geth \<Rightarrow> hash \<Rightarrow> L2Block list \<Rightarrow> bool" where
  "claims_ok g prev [] \<longleftrightarrow> True"
| "claims_ok g prev (b # bs) \<longleftrightarrow> bl_Number b \<noteq> 0 \<and>
     (bl_StateRoot b = [] \<or> bl_StateRoot b = HashHex g (next_root prev b)) \<and> claims_ok g (next_root prev b) bs"

lemma VerifyBlock_valid:
  "vr_Valid (snd (VerifyBlock g e b)) \<longleftrightarrow> bl_Number b \<noteq> 0 \<and>
     (bl_StateRoot b = [] \<or> bl_StateRoot b = HashHex g (next_root (stateRoot e) b))"
  by (simp add: VerifyBlock_def Let_def computeExpectedStateRoot_def next_root_def)

lemma VerifyBlock_state:
  "fst (VerifyBlock g e b) = (if vr_Valid (snd (VerifyBlock g e b)) then e\<lparr>stateRoot := next_root (stateRoot e) b\<rparr> else e)"
  by (simp add: VerifyBlock_def Let_def computeExpectedStateRoot_def next_root_def)

lemma VerifyBlock_error: "vr_Error (snd (VerifyBlock g e b)) = NoError \<longleftrightarrow> vr_Valid (snd (VerifyBlock g e b))"
  by (simp add: VerifyBlock_def Let_def)

lemma verify_all_Cons:
  "snd (verify_all g e (b # bs)) = snd (VerifyBlock g e b) # snd (verify_all g (fst (VerifyBlock g e b)) bs)"
  "fst (verify_all g e (b # bs)) = fst (verify_all g (fst (VerifyBlock g e b)) bs)"
  by (simp_all add: Let_def case_prod_unfold)

lemma verify_all_correct:
  "list_all vr_Valid (snd (verify_all g e bs)) \<longleftrightarrow> claims_ok g (stateRoot e) bs"
  "claims_ok g (stateRoot e) bs \<Longrightarrow> stateRoot (fst (verify_all g e bs)) = foldl next_root (stateRoot e) bs"
proof -
  have "(list_all vr_Valid (snd (verify_all g e bs)) \<longleftrightarrow> claims_ok g (stateRoot e) bs) \<and>
    (claims_ok g (stateRoot e) bs \<longrightarrow> stateRoot (fst (verify_all g e bs)) = foldl next_root (stateRoot e) bs)"
  proof (induction bs arbitrary: e)
    case (Cons b bs)
    then show ?case
      using Cons [of "fst (VerifyBlock g e b)"]
      by (auto simp: verify_all_Cons VerifyBlock_valid VerifyBlock_state simp del: verify_all.simps)
  qed simp
  then show "list_all vr_Valid (snd (verify_all g e bs)) \<longleftrightarrow> claims_ok g (stateRoot e) bs"
    "claims_ok g (stateRoot e) bs \<Longrightarrow> stateRoot (fst (verify_all g e bs)) = foldl next_root (stateRoot e) bs"
    by blast+
qed

section \<open>Receipts\<close>

lemma uint64ToBytes_be: "uint64ToBytes v = be_bytes64 v"
  by (simp add: uint64ToBytes_def Let_def big_bytes_pad [symmetric])

text \<open>The values a receipt is hashed from.\<close>

definition receipt_values where
  "receipt_values g r = (HexToHash g (cr_TxHash r), cr_BlockNumber r, cr_TxIndex r, HexToAddress g (cr_Sender r), cr_GasUsed r,
     HexToHash g (cr_PreStateRoot r), HexToHash g (cr_PostStateRoot r), cr_Status r, HexToHash g (cr_InputHash r),
     HexToHash g (cr_OutputHash r), HexToHash g (cr_LogsHash r))"

lemma receipt_preimage_inject:
  assumes "geth_ok g"
  shows "receipt_preimage g r = receipt_preimage g r' \<longleftrightarrow> receipt_values g r = receipt_values g r'"
proof -
  have l: "length (HexToHash g s) = 32" "length (HexToAddress g s) = 20" for s
    using assms by (simp_all add: geth_ok_def)
  show ?thesis
    by (simp add: receipt_preimage_def receipt_values_def uint64ToBytes_be append_eq_append_conv l)
qed

text \<open>Two given messages, different ones with the same digest.\<close>

definition sha256_collides :: "bytes \<Rightarrow> bytes \<Rightarrow> bool" where
  "sha256_collides x y \<longleftrightarrow> x \<noteq> y \<and> sha256 x = sha256 y"

text \<open>A root that was computed from another previous root is refused when it is another root.\<close>

lemma other_root_refused:
  assumes "geth_ok g" "bl_StateRoot b = HashHex g (next_root r b)" "bl_StateRoot b \<noteq> []" "next_root r b \<noteq> next_root (stateRoot e) b"
  shows "\<not> vr_Valid (snd (VerifyBlock g e b))"
proof
  assume "vr_Valid (snd (VerifyBlock g e b))"
  then have "HashHex g (next_root r b) = HashHex g (next_root (stateRoot e) b)" using assms(2,3) by (simp add: VerifyBlock_valid)
  then show False using HashHex_inject [OF assms(1)] assms(4) by (simp add: next_root_def)
qed

lemma VerifyComputeReceipt_valid:
  "rv_Valid (VerifyComputeReceipt g rpcPost url txHash) \<longleftrightarrow>
     (\<exists>r. fetchComputeReceipt rpcPost url txHash = Some (Some r) \<and> cr_Verified r \<and>
       HashHex g (computeReceiptHash g r) = cr_ReceiptHash r)"
  by (auto simp: VerifyComputeReceipt_def Let_def split: option.split)

definition json_of_Receipt :: "ComputeReceiptData \<Rightarrow> json" where
  "json_of_Receipt r = JObj
     [(''txHash'', JStr (cr_TxHash r)), (''blockNumber'', json_uint64 (cr_BlockNumber r)), (''txIndex'', json_int (cr_TxIndex r)),
      (''sender'', JStr (cr_Sender r)), (''gasUsed'', json_uint64 (cr_GasUsed r)), (''status'', json_uint64 (cr_Status r)),
      (''preStateRoot'', JStr (cr_PreStateRoot r)), (''postStateRoot'', JStr (cr_PostStateRoot r)),
      (''inputHash'', JStr (cr_InputHash r)), (''outputHash'', JStr (cr_OutputHash r)), (''logsHash'', JStr (cr_LogsHash r)),
      (''receiptHash'', JStr (cr_ReceiptHash r)), (''verified'', JBool (cr_Verified r))]"

definition receipt_utf8 :: "ComputeReceiptData \<Rightarrow> bool" where
  "receipt_utf8 r \<longleftrightarrow> list_all valid_utf8 [cr_TxHash r, cr_Sender r, cr_PreStateRoot r, cr_PostStateRoot r, cr_InputHash r,
     cr_OutputHash r, cr_LogsHash r, cr_ReceiptHash r]"

lemma fold_receipt_tags [simp]:
  "fold_name ''txHash'' = ''TXHASH''" "fold_name ''blockNumber'' = ''BLOCKNUMBER''" "fold_name ''txIndex'' = ''TXINDEX''"
  "fold_name ''sender'' = ''SENDER''" "fold_name ''status'' = ''STATUS''" "fold_name ''preStateRoot'' = ''PRESTATEROOT''"
  "fold_name ''postStateRoot'' = ''POSTSTATEROOT''" "fold_name ''inputHash'' = ''INPUTHASH''"
  "fold_name ''outputHash'' = ''OUTPUTHASH''" "fold_name ''logsHash'' = ''LOGSHASH''" "fold_name ''receiptHash'' = ''RECEIPTHASH''"
  "fold_name ''verified'' = ''VERIFIED''" "fold_name ''fast'' = ''FAST''" "fold_name ''standard'' = ''STANDARD''"
  "fold_name ''slow'' = ''SLOW''" "fold_name ''total'' = ''TOTAL''" "fold_name ''enabled'' = ''ENABLED''"
  by code_simp+

lemma fields_Receipt_back: "dec_Receipt None (json_of_Receipt r) = Some (Some r)"
  by (simp add: dec_Receipt_def json_of_Receipt_def fields_Receipt_def struct_field_Cons)

lemma unmarshal_receipt:
  "receipt_utf8 r \<Longrightarrow> unmarshal rd (rpc_response (json_of_Receipt r)) = rd [(''result'', json_of_Receipt r)]"
  unfolding rpc_response_def
  by (rule unmarshal_EncodePayload) (simp_all add: json_of_Receipt_def receipt_utf8_def valid_utf8_ascii max_nesting_def)

lemma fetchComputeReceipt_response:
  assumes "rpcPost url (request_body ''inso_getComputeReceipt'' (CHR 0x22 # txHash @ [CHR 0x22])) = Some (rpc_response (json_of_Receipt r))"
    and "receipt_utf8 r"
  shows "fetchComputeReceipt rpcPost url txHash = Some (Some r)"
  using assms by (simp add: fetchComputeReceipt_def unmarshal_receipt struct_field_Cons fields_Receipt_back)

section \<open>A concrete instance of the go-ethereum functions\<close>

text \<open>Hexadecimal text as go-ethereum writes it, and stand-ins for the cryptography that obey the laws.\<close>

definition hex_bytes :: "bytes \<Rightarrow> string" where
  "hex_bytes bs = concat (map (\<lambda>b. [hex_digit (unat b div 16), hex_digit (unat b mod 16)]) bs)"

fun unhex :: "string \<Rightarrow> bytes" where
  "unhex (a # b # s) = (case (hex_val a, hex_val b) of
     (Some x, Some y) \<Rightarrow> word_of_nat (16 * x + y) # unhex s | _ \<Rightarrow> [])"
| "unhex _ = []"

definition fit :: "nat \<Rightarrow> bytes \<Rightarrow> bytes" where
  "fit n bs = take n (bs @ replicate n 0)"

definition example_geth :: Geth where
  "example_geth = \<lparr>HexToHash = (\<lambda>s. fit 32 (unhex (drop 2 s))), HashHex = (\<lambda>h. ''0x'' @ hex_bytes h),
     HexToAddress = (\<lambda>s. fit 20 (unhex (drop 2 s))), BytesToHash = fit 32, Keccak256Hash = sha256,
     Sign = (\<lambda>h k. Some (fit 32 h @ fit 32 k @ [0])),
     SigToPub = (\<lambda>h sig. if take 32 sig = fit 32 h then Some (take 32 (drop 32 sig)) else None),
     PubkeyToAddress = fit 20, PublicKey = fit 32\<rparr>"

lemma length_fit [simp]: "length (fit n bs) = n"
  by (simp add: fit_def)

lemma fit_id: "length bs = n \<Longrightarrow> fit n bs = bs"
  by (simp add: fit_def)

lemma unhex_hex_bytes: "unhex (hex_bytes bs) = bs"
proof (induction bs)
  case (Cons b bs)
  have "unat b div 16 < 16" "unat b mod 16 < 16" using unat_byte [of b] by linarith+
  then show ?case using Cons by (simp add: hex_bytes_def flip: of_nat_mult of_nat_add del: of_nat_mult of_nat_add)
qed (simp add: hex_bytes_def)

lemma example_geth_ok: "geth_ok example_geth"
  by (simp add: geth_ok_def example_geth_def unhex_hex_bytes fit_id)

section \<open>Blocks with the same root\<close>

text \<open>The block with the last byte of its time moved to the front of its gas.\<close>

definition twin :: "L2Block \<Rightarrow> L2Block" where
  "twin b = b\<lparr>bl_Timestamp := be_word64 (butlast (big_bytes (bl_Timestamp b))),
     bl_GasUsed := be_word64 (last (big_bytes (bl_Timestamp b)) # big_bytes (bl_GasUsed b))\<rparr>"

lemma twin_bytes:
  assumes "last (big_bytes (bl_Timestamp b)) \<noteq> 0" "bl_Timestamp b \<noteq> 0" "length (big_bytes (bl_GasUsed b)) \<le> 7"
  shows "bl_Timestamp (twin b) \<noteq> bl_Timestamp b" "bl_GasUsed (twin b) \<noteq> bl_GasUsed b"
    "big_bytes (bl_Timestamp (twin b)) @ big_bytes (bl_GasUsed (twin b)) = big_bytes (bl_Timestamp b) @ big_bytes (bl_GasUsed b)"
proof -
  let ?t = "big_bytes (bl_Timestamp b)" and ?u = "big_bytes (bl_GasUsed b)"
  have ne: "?t \<noteq> []" using assms(2) by simp
  have "butlast ?t = [] \<or> hd (butlast ?t) \<noteq> 0" using big_bytes_hd [OF ne] ne by (cases ?t) (auto split: if_splits)
  then have t: "big_bytes (bl_Timestamp (twin b)) = butlast ?t"
    using big_bytes_length [of "bl_Timestamp b"] by (simp add: twin_def big_bytes_word64)
  have u: "big_bytes (bl_GasUsed (twin b)) = last ?t # ?u" using assms(1,3) by (simp add: twin_def big_bytes_word64)
  show "big_bytes (bl_Timestamp (twin b)) @ big_bytes (bl_GasUsed (twin b)) = ?t @ ?u" using t u ne by simp
  have "butlast ?t \<noteq> ?t" using ne by (metis append_butlast_last_id append_self_conv not_Cons_self2)
  then show "bl_Timestamp (twin b) \<noteq> bl_Timestamp b" using t by metis
  show "bl_GasUsed (twin b) \<noteq> bl_GasUsed b" using u by (metis not_Cons_self2)
qed

section \<open>Roots of the example chain\<close>

text \<open>Four digests, evaluated: the genesis root, the roots after block 1 and block 2, and block 2 without block 1.\<close>

lemma example_bytes:
  "big_bytes 42069 = [164, 85]" "big_bytes 1 = [1]" "big_bytes 2 = [2]" "big_bytes 1700000001 = [101, 83, 241, 1]"
  "big_bytes 1700000002 = [101, 83, 241, 2]" "big_bytes 21000 = [82, 8]"
  by code_simp+

lemma genesis_root: "stateRoot NewVerifyEngine = [186, 54, 215, 12, 171, 163, 191, 132, 204, 102, 199, 163, 235, 57, 77, 243,
     99, 162, 100, 238, 60, 170, 25, 194, 81, 197, 80, 225, 162, 43, 16, 40]"
proof -
  have b: "bytes_of_string ''insoblok-genesis'' = [105, 110, 115, 111, 98, 108, 111, 107, 45, 103, 101, 110, 101, 115, 105, 115]"
    by code_simp
  show ?thesis unfolding NewVerifyEngine_def VerifyEngine.select_convs b example_bytes append.simps by (rule sha256_eval) (simp, code_simp)
qed

lemma example_root1: "next_root (stateRoot NewVerifyEngine) (example_block 1) = [110, 254, 206, 141, 119, 230, 50, 235, 193, 34, 88, 110, 39, 66, 200, 12,
     208, 229, 6, 188, 106, 26, 138, 231, 196, 244, 52, 43, 188, 22, 168, 21]"
  unfolding next_root_def root_preimage_def genesis_root by (simp add: example_block_def example_bytes) (rule sha256_eval, simp, code_simp)

lemma example_root2: "next_root (next_root (stateRoot NewVerifyEngine) (example_block 1)) (example_block 2) = [175, 50, 220, 239, 56, 74, 139, 237, 110, 80, 59, 249, 76, 66, 8, 110,
     217, 173, 17, 102, 87, 105, 171, 23, 37, 251, 70, 166, 95, 106, 191, 1]"
  unfolding example_root1 unfolding next_root_def root_preimage_def
  by (simp add: example_block_def example_bytes) (rule sha256_eval, simp, code_simp)

lemma example_root2_alone: "next_root (stateRoot NewVerifyEngine) (example_block 2) = [38, 99, 71, 99, 223, 42, 210, 195, 14, 235, 204, 229, 234, 145, 68, 169,
     150, 9, 248, 49, 183, 140, 245, 194, 22, 168, 80, 21, 144, 145, 51, 173]"
  unfolding next_root_def root_preimage_def genesis_root by (simp add: example_block_def example_bytes) (rule sha256_eval, simp, code_simp)

lemma example_roots_differ:
  "next_root (next_root (stateRoot NewVerifyEngine) (example_block 1)) (example_block 2) \<noteq> next_root (stateRoot NewVerifyEngine) (example_block 2)"
  unfolding example_root2 example_root2_alone by simp

section \<open>Properties\<close>

text \<open>
  C4: Verifying the blocks of a chain in order accepts all of them exactly when no block has
  number 0 and each claims either no state root or the root computed from all the blocks
  before it; then the engine ends at the root of the whole chain. A block that is rejected
  leaves the engine as it was and carries an error, an accepted one carries none.
\<close>

theorem verify_chain:
  "(list_all vr_Valid (snd (verify_all g e bs)) \<longleftrightarrow> claims_ok g (stateRoot e) bs) \<and>
   (claims_ok g (stateRoot e) bs \<longrightarrow> stateRoot (fst (verify_all g e bs)) = foldl next_root (stateRoot e) bs) \<and>
   (\<not> vr_Valid (snd (VerifyBlock g e b)) \<longrightarrow> fst (VerifyBlock g e b) = e) \<and>
   (vr_Error (snd (VerifyBlock g e b)) = NoError \<longleftrightarrow> vr_Valid (snd (VerifyBlock g e b)))"
  using verify_all_correct VerifyBlock_state VerifyBlock_error by auto

theorem verify_chain_witness:
  "list_all vr_Valid (snd (verify_all example_geth NewVerifyEngine [example_block 1, example_block 2])) \<and>
   stateRoot (fst (verify_all example_geth NewVerifyEngine [example_block 1, example_block 2])) =
     next_root (next_root (stateRoot NewVerifyEngine) (example_block 1)) (example_block 2) \<and>
   fst (VerifyBlock example_geth NewVerifyEngine (example_block 0)) = NewVerifyEngine"
proof -
  have "claims_ok example_geth (stateRoot NewVerifyEngine) [example_block 1, example_block 2]"
    by (simp add: example_block_def)
  moreover have "\<not> vr_Valid (snd (VerifyBlock example_geth NewVerifyEngine (example_block 0)))"
    by (simp add: VerifyBlock_valid example_block_def)
  ultimately show ?thesis
    using verify_chain [of example_geth NewVerifyEngine "[example_block 1, example_block 2]" "example_block 0"] by auto
qed

text \<open>
  A state root commits to the time of the block: if the same engine accepts two blocks
  with the same claimed root, the same number and the same gas used, then they have the
  same timestamp, unless the bytes hashed for them are a collision of SHA-256.
\<close>

lemma verify_binding:
  assumes "geth_ok g" "vr_Valid (snd (VerifyBlock g e b))" "vr_Valid (snd (VerifyBlock g e b'))"
    and "bl_StateRoot b \<noteq> []" "bl_StateRoot b' = bl_StateRoot b"
    and "bl_Number b' = bl_Number b" "bl_GasUsed b' = bl_GasUsed b"
  shows "bl_Timestamp b' = bl_Timestamp b \<or> sha256_collides (root_preimage (stateRoot e) b) (root_preimage (stateRoot e) b')"
proof -
  have "next_root (stateRoot e) b = next_root (stateRoot e) b'"
    using assms HashHex_inject [OF assms(1)] by (auto simp: VerifyBlock_valid next_root_def)
  then show ?thesis using assms(6,7) by (auto simp: next_root_def sha256_collides_def root_preimage_def)
qed

text \<open>
  C37: The root does not commit to the split between time and gas. What is hashed of the two
  numbers is their bytes one after the other, without padding: for blocks with the same number the
  hashed bytes agree exactly when these do. So every block whose time does not end in a zero byte
  and whose gas has at most seven bytes has a twin, with the last byte of the time moved to the front of
  the gas: another time and other gas, the same root after every state, and whatever root they claim,
  the engine accepts both or neither.
\<close>

theorem state_root_ambiguous:
  assumes "last (big_bytes (bl_Timestamp b)) \<noteq> 0" "bl_Timestamp b \<noteq> 0" "length (big_bytes (bl_GasUsed b)) \<le> 7"
  shows "(\<forall>b'. bl_Number b' = bl_Number b \<longrightarrow> (root_preimage prev b' = root_preimage prev b \<longleftrightarrow>
      big_bytes (bl_Timestamp b') @ big_bytes (bl_GasUsed b') = big_bytes (bl_Timestamp b) @ big_bytes (bl_GasUsed b))) \<and>
    bl_Timestamp (twin b) \<noteq> bl_Timestamp b \<and> bl_GasUsed (twin b) \<noteq> bl_GasUsed b \<and>
    computeExpectedStateRoot e (twin b) = computeExpectedStateRoot e b \<and>
    vr_Valid (snd (VerifyBlock g e (twin b))) = vr_Valid (snd (VerifyBlock g e b))"
proof -
  note t = twin_bytes [OF assms]
  have r: "root_preimage p (twin b) = root_preimage p b" for p using t(3) by (simp add: root_preimage_def) (simp add: twin_def)
  have f: "bl_Number (twin b) = bl_Number b" "bl_StateRoot (twin b) = bl_StateRoot b" by (simp_all add: twin_def)
  have "computeExpectedStateRoot e (twin b) = computeExpectedStateRoot e b" by (simp add: computeExpectedStateRoot_def r)
  moreover have "vr_Valid (snd (VerifyBlock g e (twin b))) = vr_Valid (snd (VerifyBlock g e b))"
    by (simp add: VerifyBlock_valid next_root_def r f)
  ultimately show ?thesis using t(1,2) by (simp add: root_preimage_def)
qed

theorem state_root_ambiguous_witness:
  "bl_Timestamp (twin (example_block 1)) \<noteq> bl_Timestamp (example_block 1) \<and>
   computeExpectedStateRoot NewVerifyEngine (twin (example_block 1)) = computeExpectedStateRoot NewVerifyEngine (example_block 1)"
  using state_root_ambiguous [of "example_block 1" "[]" NewVerifyEngine example_geth] by (simp add: example_block_def example_bytes)

text \<open>
  C26: An accepted receipt is authentic: if the verification of two answers succeeds with the
  same receipt hash, the two receipts agree in every value that is hashed (transaction,
  block, index, sender, gas, status, state roots, input, output and logs), unless the very bytes
  that were hashed for these two receipts are a collision of SHA-256.
\<close>

theorem receipt_integrity:
  assumes "geth_ok g" "rv_Valid (VerifyComputeReceipt g post1 url tx)" "rv_Valid (VerifyComputeReceipt g post2 url' tx')"
    and "fetchComputeReceipt post1 url tx = Some (Some r)" "fetchComputeReceipt post2 url' tx' = Some (Some r')"
    and "cr_ReceiptHash r = cr_ReceiptHash r'"
  shows "receipt_values g r = receipt_values g r' \<or> sha256_collides (receipt_preimage g r) (receipt_preimage g r')"
proof -
  have l: "computeReceiptHash g x = sha256 (receipt_preimage g x)" for x
    using assms(1) by (simp add: computeReceiptHash_def geth_ok_def)
  have "HashHex g (computeReceiptHash g r) = HashHex g (computeReceiptHash g r')"
    using assms(2-6) by (simp add: VerifyComputeReceipt_valid)
  then have "sha256 (receipt_preimage g r) = sha256 (receipt_preimage g r')"
    using HashHex_inject [OF assms(1)] by (simp add: l)
  then show ?thesis
    using receipt_preimage_inject [OF assms(1)] by (auto simp: sha256_collides_def)
qed

text \<open>The answer of a sequencer that serves one receipt, whatever it is asked.\<close>

definition serve_receipt :: "ComputeReceiptData \<Rightarrow> url_post" where
  "serve_receipt r url body = Some (rpc_response (json_of_Receipt r))"

definition example_receipt :: ComputeReceiptData where
  "example_receipt = zero_receipt\<lparr>cr_TxHash := ''0x01'', cr_BlockNumber := 7, cr_Verified := True,
     cr_ReceiptHash := HashHex example_geth (computeReceiptHash example_geth (zero_receipt\<lparr>cr_TxHash := ''0x01'', cr_BlockNumber := 7\<rparr>))\<rparr>"

lemma hex_bytes_ascii: "list_all (\<lambda>c. code c < 128) (hex_bytes bs)"
proof -
  have "unat b div 16 < 16" for b :: byte using unat_byte [of b] by linarith
  then show ?thesis by (auto simp: hex_bytes_def list_all_iff hex_digit_ascii)
qed

lemma example_receipt_facts:
  "receipt_utf8 example_receipt" "cr_Verified example_receipt"
  "HashHex example_geth (computeReceiptHash example_geth example_receipt) = cr_ReceiptHash example_receipt"
proof -
  show "receipt_utf8 example_receipt"
    by (simp add: receipt_utf8_def example_receipt_def zero_receipt_def example_geth_def valid_utf8_ascii hex_bytes_ascii)
  show "cr_Verified example_receipt" by (simp add: example_receipt_def)
  show "HashHex example_geth (computeReceiptHash example_geth example_receipt) = cr_ReceiptHash example_receipt"
    by (simp add: example_receipt_def computeReceiptHash_def receipt_preimage_def zero_receipt_def)
qed

text \<open>The same receipt with the transaction written in another way.\<close>

definition example_receipt2 :: ComputeReceiptData where
  "example_receipt2 = example_receipt\<lparr>cr_TxHash := ''0X01''\<rparr>"

lemma example_receipt2_facts:
  "receipt_utf8 example_receipt2" "cr_Verified example_receipt2"
  "HashHex example_geth (computeReceiptHash example_geth example_receipt2) = cr_ReceiptHash example_receipt2"
  "cr_ReceiptHash example_receipt = cr_ReceiptHash example_receipt2"
  "receipt_preimage example_geth example_receipt = receipt_preimage example_geth example_receipt2"
proof -
  have h: "HexToHash example_geth ''0X01'' = HexToHash example_geth ''0x01''" by (simp add: example_geth_def)
  show p: "receipt_preimage example_geth example_receipt = receipt_preimage example_geth example_receipt2"
    by (simp add: example_receipt2_def receipt_preimage_def h) (simp add: example_receipt_def)
  show "HashHex example_geth (computeReceiptHash example_geth example_receipt2) = cr_ReceiptHash example_receipt2"
    using example_receipt_facts(3) p by (simp add: computeReceiptHash_def example_receipt2_def)
qed (use example_receipt_facts(1,2) in \<open>simp_all add: example_receipt2_def receipt_utf8_def valid_utf8_ascii\<close>)

lemma serve_fetch: "receipt_utf8 r \<Longrightarrow> fetchComputeReceipt (serve_receipt r) url tx = Some (Some r)"
  by (rule fetchComputeReceipt_response) (simp_all add: serve_receipt_def)

theorem receipt_integrity_witness:
  "rv_Valid (VerifyComputeReceipt example_geth (serve_receipt example_receipt) [] ''0x01'') \<and>
   rv_Valid (VerifyComputeReceipt example_geth (serve_receipt example_receipt2) [] ''0x01'') \<and>
   receipt_values example_geth example_receipt = receipt_values example_geth example_receipt2"
proof -
  note f = serve_fetch [OF example_receipt_facts(1), of "[]" "''0x01''"]
  note f2 = serve_fetch [OF example_receipt2_facts(1), of "[]" "''0x01''"]
  have v: "rv_Valid (VerifyComputeReceipt example_geth (serve_receipt example_receipt) [] ''0x01'')"
    using f example_receipt_facts(2,3) by (simp add: VerifyComputeReceipt_valid)
  have v2: "rv_Valid (VerifyComputeReceipt example_geth (serve_receipt example_receipt2) [] ''0x01'')"
    using f2 example_receipt2_facts(2,3) by (simp add: VerifyComputeReceipt_valid)
  have "receipt_values example_geth example_receipt = receipt_values example_geth example_receipt2 \<or>
      sha256_collides (receipt_preimage example_geth example_receipt) (receipt_preimage example_geth example_receipt2)"
    using receipt_integrity [OF example_geth_ok v v2 f f2] example_receipt2_facts(4) by simp
  then show ?thesis using v v2 example_receipt2_facts(5) by (simp add: sha256_collides_def)
qed

text \<open>
  The verification does not look at the transaction of the receipt it gets: a sequencer
  that has one authentic receipt can answer with it whatever transaction is asked for, and
  the result is valid under the hash that was asked for.
\<close>

lemma receipt_any_transaction:
  assumes "receipt_utf8 r" "cr_Verified r" "HashHex g (computeReceiptHash g r) = cr_ReceiptHash r"
  shows "let result = VerifyComputeReceipt g (serve_receipt r) url txHash in
    rv_Valid result \<and> rv_TxHash result = txHash \<and> rv_BlockNumber result = cr_BlockNumber r"
  using serve_fetch [OF assms(1), of url txHash] assms(2,3)
  by (simp add: VerifyComputeReceipt_def Let_def)

text \<open>
  Lane statistics that could not be fetched fail; fetched ones fail exactly when the lanes
  are on and the reported total is positive and not the 64-bit sum of the three lanes; the counts in
  the result are the reported ones, and there is an error exactly when it is not valid.
\<close>

lemma VerifyLaneAllocation_valid:
  "let result = VerifyLaneAllocation rpcPost url in
   (lv_Error result = NoError \<longleftrightarrow> lv_Valid result) \<and>
   (case fetchLaneStats rpcPost url of
      None \<Rightarrow> \<not> lv_Valid result
    | Some st \<Rightarrow> lv_FastCount result = ls_Fast st \<and> lv_StandardCount result = ls_Standard st \<and> lv_SlowCount result = ls_Slow st \<and>
        (\<not> lv_Valid result \<longleftrightarrow> ls_Enabled st \<and> 0 < sint (ls_Total st) \<and> ls_Total st \<noteq> ls_Fast st + ls_Standard st + ls_Slow st))"
  by (auto simp: VerifyLaneAllocation_def Let_def split: option.split)

text \<open>
  A block passes the adaptive check exactly when its gas limit is not reported or lies
  within the bounds and is not exceeded by the gas used, and its transaction count is not
  positive or at most the upper bound; the lower bound on transactions plays no part.
\<close>

lemma VerifyAdaptiveBlock_valid:
  "av_Valid (VerifyAdaptiveBlock b bd) \<longleftrightarrow>
     (bl_GasLimit b = 0 \<or> bd_MinGasLimit bd \<le> bl_GasLimit b \<and> bl_GasLimit b \<le> bd_MaxGasLimit bd \<and> bl_GasUsed b \<le> bl_GasLimit b) \<and>
     (sint (bl_TxCount b) \<le> 0 \<or> sint (bl_TxCount b) \<le> sint (bd_MaxMaxTx bd))"
  by (auto simp: VerifyAdaptiveBlock_def Let_def check_gas_limit_def check_tx_count_def check_gas_used_def
      not_less word_gt_0)

end
