(* ===== verification/Consensus.thy ===== *)
theory Consensus
  imports Verification Reputation BigFloat
begin

text \<open>
  The consensus engine, \<^verbatim>\<open>internal/consensus/engine.go\<close>: registered validators and their voting
  power, the attestations this node makes, finality, and the check of an attestation's
  signature. The reputation manager, the network and the metrics are shared with other
  components; the operations take them as arguments and return them changed. Every method
  holds the engine's lock for the part that touches its state. Voting power and the sums of
  it are float64; a sum over the validator map takes the order of the keys. Elliptic-curve
  signatures and Keccak-256 are functions of \<open>Geth\<close>.
\<close>

section \<open>State\<close>

datatype consensus_error = ErrInvalidSignature | ErrUnknownValidator

record Attestation =
  at_BlockNumber :: uint64
  at_BlockHash :: hash
  at_Validator :: address
  at_TasteScore :: float64
  at_Signature :: byte_slice
  at_Timestamp :: go_time

record ValidatorInfo =
  vi_Address :: address
  vi_Stake :: big_int
  vi_TasteScore :: float64
  vi_VotePower :: float64
  vi_SovereigntyScore :: float64
  vi_SovereigntyTier :: uint8
  vi_IsActive :: bool
  vi_SlashCount :: goint
  vi_JoinedAt :: go_time

record ConsensusEngine =
  ce_cfg :: ConsensusConfig
  ce_privateKey :: bytes
  ce_validators :: "address \<rightharpoonup> ValidatorInfo"
  ce_attestations :: "uint64 \<rightharpoonup> Attestation list"
  ce_localAddr :: address
  ce_cancel :: "bool option"
  ce_metrics :: bool

definition NewConsensusEngine :: "ConsensusConfig \<Rightarrow> address \<Rightarrow> bytes \<Rightarrow> ConsensusEngine" where
  "NewConsensusEngine cfg localAddr privKey =
     \<lparr>ce_cfg = cfg, ce_privateKey = privKey, ce_validators = Map.empty, ce_attestations = Map.empty,
      ce_localAddr = localAddr, ce_cancel = None, ce_metrics = False\<rparr>"

text \<open>As in the sync engine, the cancel function and the metrics collector are flags.\<close>

definition SetConsensusMetrics :: "ConsensusEngine \<Rightarrow> ConsensusEngine" where
  "SetConsensusMetrics e = e\<lparr>ce_metrics := True\<rparr>"

definition StartConsensusEngine :: "ConsensusEngine \<Rightarrow> ConsensusEngine" where
  "StartConsensusEngine e = e\<lparr>ce_cancel := Some False\<rparr>"

definition StopConsensusEngine :: "ConsensusEngine \<Rightarrow> ConsensusEngine" where
  "StopConsensusEngine e = e\<lparr>ce_cancel := map_option (\<lambda>_. True) (ce_cancel e)\<rparr>"

section \<open>Validators\<close>

text \<open>The stake in whole coins, through \<^verbatim>\<open>big.Float\<close>.\<close>

definition stake_float :: "big_int \<Rightarrow> go_panic + float64" where
  "stake_float stake = (case bf_set_float64 (Fin (10 ^ 18)) of
     Inl p \<Rightarrow> Inl p
   | Inr d \<Rightarrow> (case bf_quo (bf_set_int stake) d of Inl p \<Rightarrow> Inl p | Inr q \<Rightarrow> Inr (bf_float64 q)))"

definition vote_power :: "float64 \<Rightarrow> float64 \<Rightarrow> float64" where
  "vote_power stakeF64 sovereigntyScore = fmul stakeF64 (fadd (Fin 1) (fmul (Fin (1 / 2)) sovereigntyScore))"

definition sovereignty_of ::
    "ReputationManager option \<Rightarrow> address \<Rightarrow> float64 \<Rightarrow> float64 \<Rightarrow> go_time \<Rightarrow> float64 \<times> uint8 \<times> ReputationManager option" where
  "sovereignty_of rep addr stakeF64 tasteScore now = (case rep of
     None \<Rightarrow> (Fin 0, 0, None)
   | Some m \<Rightarrow> (case ComputeSovereignty m addr stakeF64 tasteScore now of (score, tier, m') \<Rightarrow> (score, tier, Some m')))"

definition RegisterValidator ::
    "ConsensusEngine \<Rightarrow> ReputationManager option \<Rightarrow> address \<Rightarrow> big_int \<Rightarrow> float64 \<Rightarrow> go_time \<Rightarrow> go_time \<Rightarrow>
      (unit, ConsensusEngine \<times> ReputationManager option) go_result" where
  "RegisterValidator e rep addr stake tasteScore now now' = (case stake_float stake of
     Inl p \<Rightarrow> Panic p
   | Inr stakeF64 \<Rightarrow>
       (case sovereignty_of rep addr stakeF64 tasteScore now of (score, tier, rep') \<Rightarrow>
         Ok (e\<lparr>ce_validators := (ce_validators e)(addr \<mapsto>
           \<lparr>vi_Address = addr, vi_Stake = stake, vi_TasteScore = tasteScore, vi_VotePower = vote_power stakeF64 score,
            vi_SovereigntyScore = score, vi_SovereigntyTier = tier, vi_IsActive = True, vi_SlashCount = 0,
            vi_JoinedAt = now'\<rparr>)\<rparr>, rep')))"

definition ValidatorCount :: "ConsensusEngine \<Rightarrow> address list \<Rightarrow> nat" where
  "ValidatorCount e ks =
     foldl (\<lambda>count v. if vi_IsActive v then count + 1 else count) 0 (range_vals (ce_validators e) ks)"

definition Validators :: "ConsensusEngine \<Rightarrow> address list \<Rightarrow> ValidatorInfo list" where
  "Validators e ks = range_vals (ce_validators e) ks"

section \<open>Attestations\<close>

definition attestation_preimage :: "Attestation \<Rightarrow> bytes" where
  "attestation_preimage att = big_bytes (at_BlockNumber att) @ at_BlockHash att @ at_Validator att"

definition attestationHash :: "Geth \<Rightarrow> Attestation \<Rightarrow> hash" where
  "attestationHash g att = Keccak256Hash g (attestation_preimage att)"

definition signAttestation :: "Geth \<Rightarrow> ConsensusEngine \<Rightarrow> Attestation \<Rightarrow> byte_slice" where
  "signAttestation g e att = Sign g (attestationHash g att) (ce_privateKey e)"

definition attestations_of :: "ConsensusEngine \<Rightarrow> uint64 \<Rightarrow> Attestation list" where
  "attestations_of e num = (case ce_attestations e num of None \<Rightarrow> [] | Some as \<Rightarrow> as)"

text \<open>The network, the reputation manager and the metrics the engine shares.\<close>

record Shared =
  sh_network :: Network
  sh_rep :: "ReputationManager option"
  sh_metrics :: "Metrics option"

definition new_attestation :: "Geth \<Rightarrow> ConsensusEngine \<Rightarrow> uint64 \<Rightarrow> hash \<Rightarrow> go_time \<Rightarrow> Attestation" where
  "new_attestation g e blockNum blockHash now =
     (let att = \<lparr>at_BlockNumber = blockNum, at_BlockHash = blockHash, at_Validator = ce_localAddr e,
            at_TasteScore = Fin 0, at_Signature = None, at_Timestamp = now\<rparr>
      in att\<lparr>at_Signature := signAttestation g e att\<rparr>)"

definition AttestBlock ::
    "Geth \<Rightarrow> ConsensusEngine \<Rightarrow> Shared \<Rightarrow> string list \<Rightarrow> uint64 \<Rightarrow> hash \<Rightarrow> go_time \<Rightarrow> go_time \<Rightarrow>
      Attestation \<times> ConsensusEngine \<times> Shared" where
  "AttestBlock g e sh ks blockNum blockHash now now' =
     (let att = new_attestation g e blockNum blockHash now
      in (att,
          e\<lparr>ce_attestations := (ce_attestations e)(blockNum \<mapsto> attestations_of e blockNum @ [att])\<rparr>,
          sh\<lparr>sh_rep := map_option (\<lambda>m. RecordAttestation m (ce_localAddr e) now') (sh_rep sh),
             sh_network := fst (Broadcast (sh_network sh) ks MsgAttestation (at_Signature att)),
             sh_metrics := map_option (\<lambda>m. m\<lparr>mt_AttestationsCreated := mt_AttestationsCreated m + 1\<rparr>) (sh_metrics sh)\<rparr>))"

section \<open>Finality\<close>

definition total_power :: "ConsensusEngine \<Rightarrow> address list \<Rightarrow> float64" where
  "total_power e ks =
     foldl (\<lambda>acc v. if vi_IsActive v then fadd acc (vi_VotePower v) else acc) (Fin 0) (range_vals (ce_validators e) ks)"

definition attested_power :: "ConsensusEngine \<Rightarrow> Attestation list \<Rightarrow> float64" where
  "attested_power e atts =
     foldl (\<lambda>acc att. case ce_validators e (at_Validator att) of
         None \<Rightarrow> acc
       | Some v \<Rightarrow> if vi_IsActive v then fadd acc (vi_VotePower v) else acc) (Fin 0) atts"

definition IsFinalized :: "ConsensusEngine \<Rightarrow> address list \<Rightarrow> Metrics option \<Rightarrow> uint64 \<Rightarrow> bool \<times> Metrics option" where
  "IsFinalized e ks m blockNum =
     (let atts = attestations_of e blockNum in
      if atts = [] then (False, m)
      else let totalPower = total_power e ks; attestedPower = attested_power e atts in
        if feq totalPower (Fin 0) then (False, m)
        else let finalized = flt (round64 (2 / 3)) (fdiv attestedPower totalPower)
          in (finalized, if finalized then map_option (\<lambda>x. x\<lparr>mt_BlocksFinalized := mt_BlocksFinalized x + 1\<rparr>) m else m))"

section \<open>Checking attestations\<close>

definition VerifyAttestation :: "Geth \<Rightarrow> ConsensusEngine \<Rightarrow> Attestation \<Rightarrow> consensus_error option" where
  "VerifyAttestation g e att =
     (if length (slice_bytes (at_Signature att)) \<noteq> 65 then Some ErrInvalidSignature
      else (case SigToPub g (attestationHash g att) (slice_bytes (at_Signature att)) of
          None \<Rightarrow> Some ErrInvalidSignature
        | Some pubKey \<Rightarrow>
            if PubkeyToAddress g pubKey \<noteq> at_Validator att then Some ErrInvalidSignature
            else if ce_validators e (at_Validator att) = None then Some ErrUnknownValidator
            else None))"

section \<open>Messages\<close>

text \<open>The handlers only write log lines, so the log is the effect they return beside the engine.\<close>

datatype log_event = LogDebug string string | LogWarn string string

definition handleAttestation :: "ConsensusEngine \<Rightarrow> Message \<Rightarrow> ConsensusEngine \<times> log_event list" where
  "handleAttestation e msg = (e, [LogDebug ''Received attestation'' (msg_From msg)])"

definition handleNewBlock :: "ConsensusEngine \<Rightarrow> Message \<Rightarrow> ConsensusEngine \<times> log_event list" where
  "handleNewBlock e msg = (e, [LogDebug ''Received new block'' (msg_From msg)])"

definition handleSlashReport :: "ConsensusEngine \<Rightarrow> Message \<Rightarrow> ConsensusEngine \<times> log_event list" where
  "handleSlashReport e msg =
     (if \<not> SlashingEnabled (ce_cfg e) then (e, []) else (e, [LogWarn ''Received slash report'' (msg_From msg)]))"

definition processMessage :: "ConsensusEngine \<Rightarrow> Message \<Rightarrow> ConsensusEngine \<times> log_event list" where
  "processMessage e msg =
     (if msg_Type msg = MsgAttestation then handleAttestation e msg
      else if msg_Type msg = MsgNewBlock then handleNewBlock e msg
      else if msg_Type msg = MsgSlashReport then handleSlashReport e msg
      else (e, []))"

text \<open>One iteration of \<^verbatim>\<open>processMessages\<close>: it takes a message off the channel.\<close>

definition processMessages_step :: "ConsensusEngine \<Rightarrow> Network \<Rightarrow> ConsensusEngine \<times> log_event list \<times> Network" where
  "processMessages_step e n = (case receive n of
     None \<Rightarrow> (e, [], n)
   | Some (msg, n') \<Rightarrow> (case processMessage e msg of (e', logs) \<Rightarrow> (e', logs, n')))"

section \<open>Two thirds in float64\<close>

lemma two_thirds: "round64 (2 / 3) = Fin (6004799503160661 / 9007199254740992)"
  using round64_eval [of "-1" "2 / 3" 6004799503160661] by (simp add: power_int_minus)

lemma flt_above: "fle (Fin y) v \<Longrightarrow> c < y \<Longrightarrow> flt (Fin c) v"
  by (cases v) (auto simp: fle_def feq_def)

lemma fle_not_flt: "fle (round64 x) (Fin c) \<Longrightarrow> \<not> flt (Fin c) (round64 x)"
  by (cases "round64 x") (auto simp: fle_def feq_def)

text \<open>
  For weights of at most 53 bits the rounded quotient is on the same side of the rounded
  two thirds as the exact one: the exact quotient is at least a third of a unit away.
\<close>

lemma above_two_thirds:
  assumes "0 < t" "t \<le> 9007199254740992"
  shows "flt (round64 (2 / 3)) (round64 (of_int a / of_int t)) \<longleftrightarrow> 2 * t < 3 * a"
proof
  assume f: "flt (round64 (2 / 3)) (round64 (of_int a / of_int t))"
  show "2 * t < 3 * a"
  proof (rule ccontr)
    assume "\<not> 2 * t < 3 * a"
    then have "of_int (3 * a) \<le> (of_int (2 * t) :: rat)" by (simp only: of_int_le_iff not_less)
    then have "of_int a / of_int t \<le> (2 / 3 :: rat)" using assms(1) by (simp add: field_simps)
    then have "fle (round64 (of_int a / of_int t)) (round64 (2 / 3))" by (rule fle_round64_mono)
    then show False using f fle_not_flt unfolding two_thirds by blast
  qed
next
  assume "2 * t < 3 * a"
  then have "of_int (2 * t + 1) \<le> (of_int (3 * a) :: rat)" by (simp only: of_int_le_iff)
  then have "of_int (2 * t + 1) / (3 * of_int t) \<le> (of_int (3 * a) / (3 * of_int t) :: rat)"
    using assms(1) by (intro divide_right_mono) simp_all
  moreover have "of_int (2 * t + 1) / (3 * of_int t) = 2 / 3 + (1 / (3 * of_int t) :: rat)"
    using assms(1) by (simp add: field_simps)
  moreover have "of_int (3 * a) / (3 * of_int t) = (of_int a / of_int t :: rat)" by simp
  moreover have "1 / (3 * 9007199254740992) \<le> (1 / (3 * of_int t) :: rat)"
  proof (rule divide_left_mono)
    have "of_int t \<le> (of_int 9007199254740992 :: rat)" using assms(2) by (simp only: of_int_le_iff)
    then show "3 * of_int t \<le> (3 * 9007199254740992 :: rat)" by simp
  qed (use assms(1) in simp_all)
  ultimately have "2 / 3 + 1 / (3 * 9007199254740992) \<le> (of_int a / of_int t :: rat)" by linarith
  then have "fle (round64 (2 / 3 + 1 / (3 * 9007199254740992))) (round64 (of_int a / of_int t))"
    by (rule fle_round64_mono)
  moreover have "round64 (2 / 3 + 1 / (3 * 9007199254740992)) = Fin (6004799503160662 / 9007199254740992)"
    using round64_eval [of "-1" "2 / 3 + 1 / (3 * 9007199254740992)" 6004799503160662] by (simp add: power_int_minus)
  ultimately show "flt (round64 (2 / 3)) (round64 (of_int a / of_int t))"
    unfolding two_thirds by (simp add: flt_above)
qed

section \<open>Sums of voting power\<close>

text \<open>Powers that are integer multiples of one unit are added without rounding.\<close>

lemma exact_sum:
  fixes h :: "'a \<Rightarrow> int"
  assumes "-1074 \<le> c" "c \<le> 970" "0 \<le> s"
    and "\<And>x. x \<in> set xs \<Longrightarrow> P x \<Longrightarrow> p x = Fin (of_int (h x) * 2 powi c) \<and> 0 \<le> h x"
    and "s + (\<Sum>x\<leftarrow>xs. if P x then h x else 0) \<le> 2 ^ 53"
  shows "foldl (\<lambda>acc x. if P x then fadd acc (p x) else acc) (Fin (of_int s * 2 powi c)) xs =
    Fin (of_int (s + (\<Sum>x\<leftarrow>xs. if P x then h x else 0)) * 2 powi c)"
  using assms(3-)
proof (induction xs arbitrary: s)
  case (Cons x xs)
  have nn: "0 \<le> (\<Sum>x\<leftarrow>xs. if P x then h x else 0)"
    using Cons.prems(2) by (intro sum_list_nonneg) auto
  show ?case
  proof (cases "P x")
    case True
    then have p: "p x = Fin (of_int (h x) * 2 powi c)" "0 \<le> h x" using Cons.prems(2) [of x] by auto
    have "is_f64 (of_int (s + h x) * 2 powi c)"
      using Cons.prems(1,3) p(2) nn True assms(1,2) by (intro is_f64I [OF refl]) auto
    then have "fadd (Fin (of_int s * 2 powi c)) (p x) = Fin (of_int (s + h x) * 2 powi c)"
      using round64_exact by (simp add: p(1) ring_distribs)
    then show ?thesis
      using Cons.IH [of "s + h x"] Cons.prems p(2) True by (simp add: add.assoc del: of_int_add)
  qed (use Cons in simp)
qed simp

definition power_of :: "(ValidatorInfo \<Rightarrow> int) \<Rightarrow> ConsensusEngine \<Rightarrow> address \<Rightarrow> int" where
  "power_of w e a = (case ce_validators e a of None \<Rightarrow> 0 | Some v \<Rightarrow> if vi_IsActive v then w v else 0)"

text \<open>The voting power of every active validator is \<open>w\<close> times the unit \<open>2 powi c\<close>.\<close>

definition weighted :: "(ValidatorInfo \<Rightarrow> int) \<Rightarrow> int \<Rightarrow> ConsensusEngine \<Rightarrow> bool" where
  "weighted w c e \<longleftrightarrow> -1074 \<le> c \<and> c \<le> 970 \<and>
     (\<forall>a v. ce_validators e a = Some v \<longrightarrow> vi_IsActive v \<longrightarrow> vi_VotePower v = Fin (of_int (w v) * 2 powi c) \<and> 0 \<le> w v)"

definition total_weight :: "(ValidatorInfo \<Rightarrow> int) \<Rightarrow> ConsensusEngine \<Rightarrow> int" where
  "total_weight w e = (\<Sum>a\<in>dom (ce_validators e). power_of w e a)"

definition attested_weight :: "(ValidatorInfo \<Rightarrow> int) \<Rightarrow> ConsensusEngine \<Rightarrow> uint64 \<Rightarrow> int" where
  "attested_weight w e num = (\<Sum>att\<leftarrow>attestations_of e num. power_of w e (at_Validator att))"

lemma sum_range_vals:
  "(\<Sum>v\<leftarrow>range_vals m ks. f v) = (\<Sum>k\<leftarrow>ks. case m k of None \<Rightarrow> (0 :: int) | Some v \<Rightarrow> f v)"
  by (induction ks) (auto split: option.split)

lemma set_range_vals_sub: "v \<in> set (range_vals m ks) \<Longrightarrow> \<exists>k. m k = Some v"
  by (induction ks) (auto split: option.splits)

lemma total_power_exact:
  assumes "weighted w c e" "range_order (ce_validators e) ks" "total_weight w e \<le> 2 ^ 53"
  shows "total_power e ks = Fin (of_int (total_weight w e) * 2 powi c)"
proof -
  have t: "(\<Sum>v\<leftarrow>range_vals (ce_validators e) ks. if vi_IsActive v then w v else 0) = total_weight w e"
    using assms(2) unfolding sum_range_vals total_weight_def power_of_def range_order_def
    by (simp add: sum_list_distinct_conv_sum_set)
  have "foldl (\<lambda>acc v. if vi_IsActive v then fadd acc (vi_VotePower v) else acc) (Fin (of_int 0 * 2 powi c)) (range_vals (ce_validators e) ks) =
      Fin (of_int (0 + (\<Sum>v\<leftarrow>range_vals (ce_validators e) ks. if vi_IsActive v then w v else 0)) * 2 powi c)"
    using assms(1,3) t set_range_vals_sub [of _ "ce_validators e" ks]
    by (intro exact_sum) (auto simp: weighted_def)
  then show ?thesis by (simp add: total_power_def t)
qed

lemma attested_power_exact:
  assumes "weighted w c e" "attested_weight w e num \<le> 2 ^ 53"
  shows "attested_power e (attestations_of e num) = Fin (of_int (attested_weight w e num) * 2 powi c)"
proof -
  let ?P = "\<lambda>att. \<exists>v. ce_validators e (at_Validator att) = Some v \<and> vi_IsActive v"
  let ?p = "\<lambda>att. vi_VotePower (the (ce_validators e (at_Validator att)))"
  let ?h = "\<lambda>att. w (the (ce_validators e (at_Validator att)))"
  have step: "(\<lambda>acc att. case ce_validators e (at_Validator att) of None \<Rightarrow> acc | Some v \<Rightarrow> if vi_IsActive v then fadd acc (vi_VotePower v) else acc) =
      (\<lambda>acc att. if ?P att then fadd acc (?p att) else acc)"
    by (auto simp: fun_eq_iff split: option.split)
  have s: "(\<Sum>att\<leftarrow>atts. if ?P att then ?h att else 0) = (\<Sum>att\<leftarrow>atts. power_of w e (at_Validator att))" for atts
    by (intro arg_cong [where f = sum_list] map_cong refl) (auto simp: power_of_def split: option.split)
  have "foldl (\<lambda>acc att. if ?P att then fadd acc (?p att) else acc) (Fin (of_int 0 * 2 powi c)) (attestations_of e num) =
      Fin (of_int (0 + (\<Sum>att\<leftarrow>attestations_of e num. if ?P att then ?h att else 0)) * 2 powi c)"
    using assms by (intro exact_sum) (auto simp: weighted_def s attested_weight_def)
  then show ?thesis unfolding attested_power_def step by (simp add: s attested_weight_def)
qed

lemma IsFinalized_weights:
  assumes "weighted w c e" "range_order (ce_validators e) ks"
    and "0 < total_weight w e" "total_weight w e \<le> 2 ^ 53" "attested_weight w e num \<le> 2 ^ 53"
  shows "fst (IsFinalized e ks m num) \<longleftrightarrow> 2 * total_weight w e < 3 * attested_weight w e num"
proof (cases "attestations_of e num = []")
  case True
  then show ?thesis using assms(3) by (simp add: IsFinalized_def attested_weight_def)
next
  case False
  let ?t = "total_weight w e" and ?a = "attested_weight w e num"
  have u: "(2 :: rat) powi c \<noteq> 0" by simp
  have "fst (IsFinalized e ks m num) \<longleftrightarrow> flt (round64 (2 / 3)) (round64 (of_int ?a / of_int ?t))"
    using False assms(3) u total_power_exact [OF assms(1,2,4)] attested_power_exact [OF assms(1,5)]
    by (simp add: IsFinalized_def Let_def feq_def)
  also have "\<dots> \<longleftrightarrow> 2 * ?t < 3 * ?a"
    using assms(3,4) by (intro above_two_thirds) simp_all
  finally show ?thesis .
qed

section \<open>Voting power\<close>

text \<open>
  What the engine relies on when it weights a stake: a provider of scores between 0 and 1
  that stays usable.
\<close>

locale sovereignty =
  fixes compute :: "'r \<Rightarrow> address \<Rightarrow> float64 \<Rightarrow> float64 \<Rightarrow> go_time \<Rightarrow> float64 \<times> uint8 \<times> 'r"
    and good :: "'r \<Rightarrow> go_time \<Rightarrow> bool"
  assumes score_range: "good r now \<Longrightarrow> valid_f64 ts \<Longrightarrow> fle (Fin 0) ts \<Longrightarrow> between 0 1 (fst (compute r a st ts now))"
    and tier_range: "fst (snd (compute r a st ts now)) \<le> 4"
    and stays_good: "good r now \<Longrightarrow> good (snd (snd (compute r a st ts t))) now"
begin

lemma boost_range:
  assumes "good r now" "valid_f64 ts" "fle (Fin 0) ts"
  shows "between 1 (3 / 2) (fadd (Fin 1) (fmul (Fin (1 / 2)) (fst (compute r a st ts now))))"
proof -
  have f: "is_f64 (1 / 2)" "is_f64 (3 / 2)"
    by (rule is_f64I [where k = 1 and u = "-1"], simp_all add: power_int_minus)
      (rule is_f64I [where k = 3 and u = "-1"], simp_all add: power_int_minus)
  have "between 0 (1 / 2) (fmul (Fin (1 / 2)) (fst (compute r a st ts now)))"
    using f by (intro fmul_between_nonneg [OF _ score_range [OF assms], of "1 / 2" "1 / 2"]) simp_all
  then show ?thesis
    using f by (intro fadd_between [of 1 1 _ 0 "1 / 2"]) simp_all
qed

lemma power_range:
  assumes "good r now" "valid_f64 ts" "fle (Fin 0) ts" "is_f64 s" "0 \<le> s"
  shows "fle (Fin s) (vote_power (Fin s) (fst (compute r a st ts now))) \<and>
    fle (vote_power (Fin s) (fst (compute r a st ts now))) (round64 (3 / 2 * s))"
proof -
  obtain y where y: "fadd (Fin 1) (fmul (Fin (1 / 2)) (fst (compute r a st ts now))) = Fin y" "1 \<le> y" "y \<le> 3 / 2"
    using boost_range [OF assms(1-3), of a st] by (blast elim: betweenE)
  have "s * 1 \<le> s * y" "s * y \<le> s * (3 / 2)" by (rule mult_left_mono [OF y(2) assms(5)], rule mult_left_mono [OF y(3) assms(5)])
  then have "s \<le> s * y" "s * y \<le> 3 / 2 * s" by simp_all
  then show ?thesis
    using fle_round64_mono [of s "s * y"] fle_round64_mono [of "s * y" "3 / 2 * s"] round64_exact [OF assms(4)]
    by (simp add: vote_power_def y(1))
qed

end

definition reputation_good :: "ReputationManager \<Rightarrow> go_time \<Rightarrow> bool" where
  "reputation_good m now \<longleftrightarrow> MaxXP (rep_cfg m) \<noteq> 0 \<and>
     (\<forall>a rep. reps m a = Some rep \<longrightarrow> vr_UptimeBps rep \<le> 10000 \<and> vr_JoinedAt rep \<le> now)"

interpretation rep: sovereignty ComputeSovereignty reputation_good
proof
  fix m now ts a st t
  show "between 0 1 (fst (ComputeSovereignty m a st ts now))"
    if "reputation_good m now" "valid_f64 ts" "fle (Fin 0) ts"
  proof (cases "reps m a")
    case (Some rep)
    have "between 0 (9007199254740991 / 9007199254740992) (sovereignty_score (rep_cfg m) rep ts now)"
      using that Some by (intro sovereignty_score_between) (auto simp: reputation_good_def)
    then show ?thesis using Some by (auto simp: ComputeSovereignty_def Let_def intro: between_weaken)
  qed (simp add: ComputeSovereignty_def)
  show "fst (snd (ComputeSovereignty m a st ts now)) \<le> 4"
    by (simp add: ComputeSovereignty_def Let_def scoreTier_le split: option.split)
  show "reputation_good (snd (snd (ComputeSovereignty m a st ts t))) now" if "reputation_good m now"
    using that by (auto simp: ComputeSovereignty_def Let_def reputation_good_def split: option.split)
qed

lemma stake_float_eq:
  "stake_float stake = Inr (round64 (bf_round (max (nat (bitlen \<bar>stake\<bar>)) 64) (of_int stake / 10 ^ 18)))"
  by (simp add: stake_float_def bf_set_float64_def bf_set_int_def max.assoc)

lemma bitlen_small: "0 \<le> n \<Longrightarrow> n \<le> 2 ^ 53 \<Longrightarrow> nat (bitlen \<bar>n\<bar>) \<le> 64"
proof -
  assume n: "0 \<le> n" "n \<le> 2 ^ 53"
  then have "n < 2 ^ 64" by simp
  then show "nat (bitlen \<bar>n\<bar>) \<le> 64" using n(1) bitlen_le_iff_power [of n 64] by simp
qed

lemma stake_float_whole:
  assumes "0 \<le> n" "n \<le> 2 ^ 53"
  shows "stake_float (n * 10 ^ 18) = Inr (Fin (of_int n))"
proof -
  have "bf_round p (of_int n) = of_int n" if "64 \<le> p" for p
    using bitlen_small [OF assms] that by (intro bf_round_int) auto
  moreover have "is_f64 (of_int n)" using assms by (intro is_f64_of_int) simp
  ultimately show ?thesis by (simp add: stake_float_eq round64_exact)
qed

lemma RegisterValidator_whole:
  assumes "0 \<le> n" "n \<le> 2 ^ 53" "ComputeSovereignty m a (Fin (of_int n)) ts now = (s, t, m')"
  shows "RegisterValidator e (Some m) a (n * 10 ^ 18) ts now now' = Ok (e\<lparr>ce_validators := (ce_validators e)(a \<mapsto>
    \<lparr>vi_Address = a, vi_Stake = n * 10 ^ 18, vi_TasteScore = ts, vi_VotePower = vote_power (Fin (of_int n)) s,
     vi_SovereigntyScore = s, vi_SovereigntyTier = t, vi_IsActive = True, vi_SlashCount = 0, vi_JoinedAt = now'\<rparr>)\<rparr>, Some m')"
  using stake_float_whole [OF assms(1,2)] assms(3) by (simp add: RegisterValidator_def sovereignty_of_def)

section \<open>Signatures\<close>

lemma attestation_preimage_inject:
  assumes "length (at_BlockHash a) = 32" "length (at_BlockHash b) = 32" "length (at_Validator a) = 20" "length (at_Validator b) = 20"
  shows "attestation_preimage a = attestation_preimage b \<longleftrightarrow>
    at_BlockNumber a = at_BlockNumber b \<and> at_BlockHash a = at_BlockHash b \<and> at_Validator a = at_Validator b"
  using assms by (auto simp: attestation_preimage_def)

definition keccak_collision :: "Geth \<Rightarrow> bool" where
  "keccak_collision g \<longleftrightarrow> (\<exists>x y. x \<noteq> y \<and> Keccak256Hash g x = Keccak256Hash g y)"

lemma attestationHash_signature [simp]: "attestationHash g (att\<lparr>at_Signature := s\<rparr>) = attestationHash g att"
  by (simp add: attestationHash_def attestation_preimage_def)

lemma new_attestation_fields [simp]:
  "at_BlockNumber (new_attestation g e n h t) = n" "at_BlockHash (new_attestation g e n h t) = h"
  "at_Validator (new_attestation g e n h t) = ce_localAddr e"
  by (simp_all add: new_attestation_def Let_def)

lemma new_attestation_verifies:
  assumes "geth_ok g" "ce_localAddr e = PubkeyToAddress g (PublicKey g (ce_privateKey e))"
    and "at_Signature (new_attestation g e n h t) \<noteq> None"
  shows "VerifyAttestation g e' (new_attestation g e n h t) =
    (if ce_validators e' (ce_localAddr e) = None then Some ErrUnknownValidator else None)"
proof -
  let ?a = "\<lparr>at_BlockNumber = n, at_BlockHash = h, at_Validator = ce_localAddr e, at_TasteScore = Fin 0,
     at_Signature = None, at_Timestamp = t\<rparr>"
  have a: "new_attestation g e n h t = ?a\<lparr>at_Signature := Sign g (attestationHash g ?a) (ce_privateKey e)\<rparr>"
    by (simp add: new_attestation_def signAttestation_def)
  then obtain sig where s: "Sign g (attestationHash g ?a) (ce_privateKey e) = Some sig" using assms(3) by auto
  then have "length sig = 65" "SigToPub g (attestationHash g ?a) sig = Some (PublicKey g (ce_privateKey e))"
    using assms(1) by (auto simp: geth_ok_def)
  moreover have "attestationHash g (new_attestation g e n h t) = attestationHash g ?a"
    by (simp add: attestationHash_def attestation_preimage_def)
  moreover have "slice_bytes (at_Signature (new_attestation g e n h t)) = sig" by (simp add: a s slice_bytes_def)
  ultimately show ?thesis using assms(2) by (simp add: VerifyAttestation_def)
qed

section \<open>Runs\<close>

datatype consensus_op =
    CRegister "ReputationManager option" address big_int float64 go_time go_time
  | CAttest Geth Shared "string list" uint64 hash go_time go_time
  | CMessage Message

fun consensus_step :: "ConsensusEngine \<Rightarrow> consensus_op \<Rightarrow> ConsensusEngine" where
  "consensus_step e (CRegister rep a stake ts now now') =
     (case RegisterValidator e rep a stake ts now now' of Ok (e', _) \<Rightarrow> e' | _ \<Rightarrow> e)"
| "consensus_step e (CAttest g sh ks num h now now') = fst (snd (AttestBlock g e sh ks num h now now'))"
| "consensus_step e (CMessage msg) = fst (processMessage e msg)"

definition consensus_inv :: "ConsensusEngine \<Rightarrow> bool" where
  "consensus_inv e \<longleftrightarrow>
     (\<forall>num att. att \<in> set (attestations_of e num) \<longrightarrow> at_Validator att = ce_localAddr e \<and> at_BlockNumber att = num) \<and>
     (\<forall>a v. ce_validators e a = Some v \<longrightarrow> vi_Address v = a \<and> vi_IsActive v)"

definition consensus_le :: "ConsensusEngine \<Rightarrow> ConsensusEngine \<Rightarrow> bool" where
  "consensus_le e e' \<longleftrightarrow> ce_localAddr e' = ce_localAddr e \<and> dom (ce_validators e) \<subseteq> dom (ce_validators e') \<and>
     (\<forall>num. \<exists>as. attestations_of e' num = attestations_of e num @ as)"

lemma processMessage_id [simp]: "fst (processMessage e msg) = e"
  by (simp add: processMessage_def handleAttestation_def handleNewBlock_def handleSlashReport_def)

lemma attestations_AttestBlock:
  "attestations_of (fst (snd (AttestBlock g e sh ks num h now now'))) k =
     attestations_of e k @ (if k = num then [new_attestation g e num h now] else [])"
  by (simp add: AttestBlock_def Let_def attestations_of_def)

lemma AttestBlock_frame [simp]:
  "ce_validators (fst (snd (AttestBlock g e sh ks num h now now'))) = ce_validators e"
  "ce_localAddr (fst (snd (AttestBlock g e sh ks num h now now'))) = ce_localAddr e"
  by (simp_all add: AttestBlock_def Let_def)

lemma RegisterValidator_Ok:
  assumes "RegisterValidator e rep a stake ts now now' = Ok (e', rep')"
  shows "ce_localAddr e' = ce_localAddr e" "attestations_of e' = attestations_of e"
    "\<exists>v. ce_validators e' = (ce_validators e)(a \<mapsto> v) \<and> vi_Address v = a \<and> vi_IsActive v"
  using assms by (auto simp: RegisterValidator_def attestations_of_def fun_eq_iff split: sum.splits prod.splits)

lemma consensus_step_inv:
  assumes "consensus_inv e"
  shows "consensus_inv (consensus_step e x) \<and> consensus_le e (consensus_step e x)"
proof (cases x)
  case (CRegister rep a stake ts now now')
  show ?thesis
  proof (cases "\<exists>e' rep'. RegisterValidator e rep a stake ts now now' = Ok (e', rep')")
    case True
    then obtain e' rep' where r: "RegisterValidator e rep a stake ts now now' = Ok (e', rep')" by blast
    then show ?thesis
      using CRegister assms RegisterValidator_Ok [OF r]
      by (auto simp: consensus_inv_def consensus_le_def split: if_splits)
  next
    case False
    then have "consensus_step e x = e" using CRegister by (auto split: go_result.split)
    then show ?thesis using assms by (simp add: consensus_le_def)
  qed
next
  case (CAttest g sh ks num h now now')
  then show ?thesis using assms
    by (auto simp: consensus_inv_def consensus_le_def attestations_AttestBlock split: if_splits)
next
  case (CMessage msg)
  then show ?thesis using assms by (simp add: consensus_le_def)
qed

lemma consensus_le_refl [simp]: "consensus_le e e"
  by (simp add: consensus_le_def)

lemma consensus_le_trans: "consensus_le e f \<Longrightarrow> consensus_le f g \<Longrightarrow> consensus_le e g"
proof -
  assume a: "consensus_le e f" and b: "consensus_le f g"
  have "\<exists>as. attestations_of g num = attestations_of e num @ as" for num
  proof -
    obtain as where "attestations_of f num = attestations_of e num @ as" using a unfolding consensus_le_def by blast
    moreover obtain bs where "attestations_of g num = attestations_of f num @ bs" using b unfolding consensus_le_def by blast
    ultimately have "attestations_of g num = attestations_of e num @ as @ bs" by simp
    then show ?thesis by blast
  qed
  moreover have "dom (ce_validators e) \<subseteq> dom (ce_validators g)"
    using a b unfolding consensus_le_def by (blast intro: subset_trans)
  ultimately show ?thesis using a b unfolding consensus_le_def by simp
qed

interpretation consensus: machine consensus_step "\<lambda>_. True" consensus_inv consensus_le
  using consensus_step_inv consensus_le_trans by unfold_locales auto

lemma ValidatorCount_all:
  assumes "\<And>b v. ce_validators e b = Some v \<Longrightarrow> vi_IsActive v" "range_order (ce_validators e) ks"
  shows "ValidatorCount e ks = card (dom (ce_validators e))"
proof -
  have "foldl (\<lambda>count v. if vi_IsActive v then count + 1 else count) n (range_vals (ce_validators e) xs) = n + length xs"
    if "set xs \<subseteq> dom (ce_validators e)" for xs n
    using that assms(1) by (induction xs arbitrary: n) auto
  then show ?thesis using assms(2) by (simp add: ValidatorCount_def range_order_def distinct_card flip: distinct_card)
qed

lemma consensus_inv_new [simp]: "consensus_inv (NewConsensusEngine cfg a k)"
  by (simp add: consensus_inv_def NewConsensusEngine_def attestations_of_def)

fun attests :: "uint64 \<Rightarrow> consensus_op \<Rightarrow> bool" where
  "attests num (CAttest g sh ks num' h now now') = (num' = num)"
| "attests num _ = False"

lemma attestations_run:
  "map at_Validator (attestations_of (run consensus_step e ops) num) =
     map at_Validator (attestations_of e num) @ replicate (length (filter (attests num) ops)) (ce_localAddr e)"
proof (induction ops arbitrary: e)
  case (Cons x ops)
  have "ce_localAddr (consensus_step e x) = ce_localAddr e"
    by (cases x) (auto split: go_result.split dest: RegisterValidator_Ok(1))
  moreover have "attestations_of (consensus_step e x) num = attestations_of e num \<or>
      (\<exists>att. attests num x \<and> attestations_of (consensus_step e x) num = attestations_of e num @ [att] \<and> at_Validator att = ce_localAddr e)"
    "attests num x \<Longrightarrow> attestations_of (consensus_step e x) num \<noteq> attestations_of e num"
    by (cases x; auto split: go_result.split dest: RegisterValidator_Ok(2) simp: attestations_AttestBlock)+
  ultimately show ?case using Cons.IH [of "consensus_step e x"] by auto
qed simp

lemma attested_weight_run:
  "attested_weight w (run consensus_step (NewConsensusEngine cfg a k) ops) num =
     int (length (filter (attests num) ops)) * power_of w (run consensus_step (NewConsensusEngine cfg a k) ops) a"
proof -
  let ?e = "run consensus_step (NewConsensusEngine cfg a k) ops"
  have "attested_weight w ?e num = sum_list (map (power_of w ?e) (map at_Validator (attestations_of ?e num)))"
    by (simp add: attested_weight_def comp_def)
  also have "\<dots> = sum_list (replicate (length (filter (attests num) ops)) (power_of w ?e a))"
    by (simp only: attestations_run map_append map_replicate) (simp add: NewConsensusEngine_def attestations_of_def)
  finally show ?thesis by (simp add: sum_list_replicate)
qed

section \<open>Example\<close>

definition example_validator :: "address \<Rightarrow> rat \<Rightarrow> ValidatorInfo" where
  "example_validator a p = \<lparr>vi_Address = a, vi_Stake = 0, vi_TasteScore = Fin 0, vi_VotePower = Fin p,
     vi_SovereigntyScore = Fin 0, vi_SovereigntyTier = 0, vi_IsActive = True, vi_SlashCount = 0, vi_JoinedAt = 0\<rparr>"

definition example_power :: "ValidatorInfo \<Rightarrow> int" where
  "example_power v = (case vi_VotePower v of Fin p \<Rightarrow> \<lfloor>p\<rfloor> | _ \<Rightarrow> 0)"

definition example_consensus :: ConsensusEngine where
  "example_consensus = (NewConsensusEngine (cfg_Consensus DefaultConfig) [1] [])
     \<lparr>ce_validators := [[1] \<mapsto> example_validator [1] 7, [2] \<mapsto> example_validator [2] 3],
      ce_attestations := [5 \<mapsto> [new_attestation example_geth (NewConsensusEngine (cfg_Consensus DefaultConfig) [1] []) 5 (replicate 32 0) 0]]\<rparr>"


lemma example_consensus_weights:
  "weighted example_power 0 example_consensus" "range_order (ce_validators example_consensus) [[1], [2]]"
  "total_weight example_power example_consensus = 10" "attested_weight example_power example_consensus 5 = 7"
  by (auto simp: weighted_def range_order_def total_weight_def attested_weight_def power_of_def attestations_of_def
      example_consensus_def example_validator_def example_power_def NewConsensusEngine_def split: if_splits)

section \<open>Properties\<close>

text \<open>
  C2: Finality is exact. When the voting powers are multiples of a common unit and their sum
  fits in 53 bits, the float64 computation of \<^verbatim>\<open>IsFinalized\<close>, with its rounded sums, its rounded
  quotient and its rounded two thirds, says that a block is final exactly when the recorded
  attestations carry more than two thirds of the active voting power, in whatever order the
  map of validators is traversed; the counter of final blocks goes up by one exactly then.
\<close>

theorem IsFinalized_exact:
  assumes "weighted w c e" "range_order (ce_validators e) ks"
    and "0 < total_weight w e" "total_weight w e \<le> 2 ^ 53" "attested_weight w e num \<le> 2 ^ 53"
  shows "(fst (IsFinalized e ks m num) \<longleftrightarrow> 2 * total_weight w e < 3 * attested_weight w e num) \<and>
    snd (IsFinalized e ks m num) =
      (if 2 * total_weight w e < 3 * attested_weight w e num
       then map_option (\<lambda>x. x\<lparr>mt_BlocksFinalized := mt_BlocksFinalized x + 1\<rparr>) m else m)"
proof -
  have "snd (IsFinalized e ks m num) =
      (if fst (IsFinalized e ks m num) then map_option (\<lambda>x. x\<lparr>mt_BlocksFinalized := mt_BlocksFinalized x + 1\<rparr>) m else m)"
    by (simp add: IsFinalized_def Let_def)
  then show ?thesis using IsFinalized_weights [OF assms, of m] by simp
qed

theorem IsFinalized_exact_witness:
  "fst (IsFinalized example_consensus [[1], [2]] None 5)"
  using IsFinalized_exact [OF example_consensus_weights(1,2), where num = 5 and m = None]
  by (simp add: example_consensus_weights)

text \<open>
  C17: Registering a validator with a whole number of coins, up to \<open>2 ^ 53\<close> of them, never
  panics. Where there is a reputation manager whose records are as every run leaves them (uptime of at most
  10000 basis points, no registration in the future) and the taste score is a number that is not negative,
  its voting power is at least the stake and at most one and a half times the stake
  (rounded), whatever its XP, uptime, age and taste score; its tier is at most 4, the stake
  is stored as given, and no other validator and no attestation changes.
\<close>

theorem register_power:
  assumes "0 \<le> n" "n \<le> 2 ^ 53" "reputation_good m now" "valid_f64 ts" "fle (Fin 0) ts"
  shows "\<exists>e' m' v. RegisterValidator e (Some m) a (n * 10 ^ 18) ts now now' = Ok (e', Some m') \<and>
    e' = e\<lparr>ce_validators := (ce_validators e)(a \<mapsto> v)\<rparr> \<and> reputation_good m' now \<and>
    vi_Address v = a \<and> vi_Stake v = n * 10 ^ 18 \<and> vi_IsActive v \<and> vi_SovereigntyTier v \<le> 4 \<and>
    between 0 1 (vi_SovereigntyScore v) \<and>
    fle (Fin (of_int n)) (vi_VotePower v) \<and> fle (vi_VotePower v) (round64 (3 / 2 * of_int n))"
proof -
  obtain s t m' where c: "ComputeSovereignty m a (Fin (of_int n)) ts now = (s, t, m')" by (cases rule: prod_cases3)
  have "is_f64 (of_int n)" using assms(1,2) by (intro is_f64_of_int) simp
  then show ?thesis
    using assms(1) c rep.power_range [OF assms(3-5), of "of_int n" a "Fin (of_int n)"]
      rep.score_range [OF assms(3-5), of a "Fin (of_int n)"] rep.tier_range [of m a "Fin (of_int n)" ts now]
      rep.stays_good [OF assms(3), of a "Fin (of_int n)" ts now]
    unfolding RegisterValidator_whole [OF assms(1,2) c] by (intro exI conjI) (rule refl | simp)+
qed

theorem register_power_witness:
  "\<exists>e' m' v. RegisterValidator example_consensus (Some example_reps) [7] (32 * 10 ^ 18) (Fin (1 / 2)) 1000 0 = Ok (e', Some m') \<and>
    ce_validators e' [7] = Some v \<and> fle (Fin 32) (vi_VotePower v) \<and> fle (vi_VotePower v) (Fin 48)"
proof -
  have "reputation_good example_reps 1000"
    by (auto simp: reputation_good_def example_reps_def example_rep_def DefaultXPConfig_def)
  moreover have "valid_f64 (Fin (1 / 2))" "fle (Fin 0) (Fin (1 / 2))"
    by (simp_all add: fle_def) (rule is_f64I [where k = 1 and u = "-1"], simp_all add: power_int_minus)
  moreover have "round64 48 = Fin 48"
    using is_f64_of_int [of 48] by (intro round64_exact) simp
  ultimately show ?thesis
    using register_power [of 32 example_reps 1000 "Fin (1 / 2)" example_consensus "[7]" 0] by fastforce
qed

text \<open>
  C16: An attestation the node signs is accepted by every engine that has the node registered,
  and is refused as coming from an unknown validator by every other; without the signature
  (signing failed) it is refused as wrongly signed. An attestation that is accepted by an
  engine names a registered validator, and its signature recovers to that validator's address.
\<close>

theorem attest_verifies:
  assumes "geth_ok g" "ce_localAddr e = PubkeyToAddress g (PublicKey g (ce_privateKey e))"
  shows "VerifyAttestation g e' (fst (AttestBlock g e sh ks num h now now')) =
      (if Sign g (Keccak256Hash g (big_bytes num @ h @ ce_localAddr e)) (ce_privateKey e) = None then Some ErrInvalidSignature
       else if ce_validators e' (ce_localAddr e) = None then Some ErrUnknownValidator else None) \<and>
    (VerifyAttestation g e' att = None \<longrightarrow>
      (\<exists>v pub. ce_validators e' (at_Validator att) = Some v \<and> length (slice_bytes (at_Signature att)) = 65 \<and>
        SigToPub g (attestationHash g att) (slice_bytes (at_Signature att)) = Some pub \<and> PubkeyToAddress g pub = at_Validator att))"
proof
  let ?a = "new_attestation g e num h now"
  have a: "fst (AttestBlock g e sh ks num h now now') = ?a" by (simp add: AttestBlock_def Let_def)
  have s: "at_Signature ?a = Sign g (Keccak256Hash g (big_bytes num @ h @ ce_localAddr e)) (ce_privateKey e)"
    by (simp add: new_attestation_def signAttestation_def attestationHash_def attestation_preimage_def)
  show "VerifyAttestation g e' (fst (AttestBlock g e sh ks num h now now')) =
      (if Sign g (Keccak256Hash g (big_bytes num @ h @ ce_localAddr e)) (ce_privateKey e) = None then Some ErrInvalidSignature
       else if ce_validators e' (ce_localAddr e) = None then Some ErrUnknownValidator else None)"
  proof (cases "at_Signature ?a")
    case None
    then show ?thesis using s a by (simp add: VerifyAttestation_def slice_bytes_def)
  next
    case (Some sig)
    then show ?thesis using s a new_attestation_verifies [OF assms, of num h now e'] by simp
  qed
qed (auto simp: VerifyAttestation_def split: if_splits option.splits)

theorem attest_verifies_witness:
  "VerifyAttestation example_geth (example_consensus\<lparr>ce_validators := [fit 20 [] \<mapsto> example_validator [] 1]\<rparr>)
     (fst (AttestBlock example_geth (example_consensus\<lparr>ce_localAddr := fit 20 []\<rparr>)
       \<lparr>sh_network = example_sender, sh_rep = None, sh_metrics = None\<rparr> [] 5 (replicate 32 0) 0 0)) = None"
proof -
  have "PubkeyToAddress example_geth (PublicKey example_geth []) = fit 20 []"
    by (simp add: example_geth_def fit_def)
  then show ?thesis
    using attest_verifies [OF example_geth_ok, of "example_consensus\<lparr>ce_localAddr := fit 20 []\<rparr>"
      "example_consensus\<lparr>ce_validators := [fit 20 [] \<mapsto> example_validator [] 1]\<rparr>"]
    by (simp add: example_consensus_def NewConsensusEngine_def) (simp add: example_geth_def)
qed

text \<open>
  C20: The digest that is signed binds the attestation to its block and its validator: two
  attestations with the same digest have the same block number, block hash and validator, or
  two inputs of Keccak-256 with the same digest are known. The number is written without
  padding, but hash and address have a fixed length, so no two triples are written the same.
  The taste score and the timestamp are not bound.
\<close>

theorem attestation_binding:
  assumes "length (at_BlockHash a) = 32" "length (at_BlockHash b) = 32" "length (at_Validator a) = 20" "length (at_Validator b) = 20"
    and "attestationHash g a = attestationHash g b"
  shows "at_BlockNumber a = at_BlockNumber b \<and> at_BlockHash a = at_BlockHash b \<and> at_Validator a = at_Validator b \<or> keccak_collision g"
  using assms(5) attestation_preimage_inject [OF assms(1-4)] unfolding attestationHash_def keccak_collision_def by metis

theorem attestation_binding_witness:
  "\<exists>a b. a \<noteq> b \<and> attestationHash example_geth a = attestationHash example_geth b \<and>
     (at_BlockNumber a = at_BlockNumber b \<and> at_BlockHash a = at_BlockHash b \<and> at_Validator a = at_Validator b \<or> keccak_collision example_geth)"
proof -
  let ?a = "\<lparr>at_BlockNumber = 5, at_BlockHash = replicate 32 0, at_Validator = replicate 20 1, at_TasteScore = Fin 0,
     at_Signature = None, at_Timestamp = 0\<rparr>"
  have "attestationHash example_geth ?a = attestationHash example_geth (?a\<lparr>at_Timestamp := 1\<rparr>)"
    by (simp add: attestationHash_def attestation_preimage_def)
  then show ?thesis
    using attestation_binding [of ?a "?a\<lparr>at_Timestamp := 1\<rparr>" example_geth]
    by (intro exI [of _ ?a] exI [of _ "?a\<lparr>at_Timestamp := 1\<rparr>"]) simp
qed

definition example_ops :: "consensus_op list" where
  "example_ops =
     [CRegister None [1] (7 * 10 ^ 18) (Fin 0) 0 0,
      CAttest example_geth \<lparr>sh_network = example_sender, sh_rep = None, sh_metrics = None\<rparr> [] 5 (replicate 32 1) 0 0,
      CRegister None [2] (5 * 10 ^ 18) (Fin 0) 0 0,
      CMessage \<lparr>msg_Type = MsgAttestation, msg_From = ''peer'', msg_Payload = None\<rparr>,
      CAttest example_geth \<lparr>sh_network = example_sender, sh_rep = None, sh_metrics = None\<rparr> [] 5 (replicate 32 2) 0 0]"

lemma example_register:
  assumes "0 \<le> n" "n \<le> 2 ^ 53"
  shows "RegisterValidator e None a (n * 10 ^ 18) (Fin 0) now now' =
    Ok (e\<lparr>ce_validators := (ce_validators e)(a \<mapsto> (example_validator a (of_int n))\<lparr>vi_Stake := n * 10 ^ 18, vi_JoinedAt := now'\<rparr>)\<rparr>, None)"
proof -
  have "is_f64 (of_int n)" using assms by (intro is_f64_of_int) simp
  moreover have "round64 1 = Fin 1" using is_f64_of_int [of 1] by (intro round64_exact) simp
  ultimately show ?thesis
    using stake_float_whole [OF assms]
    by (simp add: RegisterValidator_def sovereignty_of_def example_validator_def vote_power_def round64_exact)
qed

lemma example_ops_weights:
  defines "e \<equiv> run consensus_step (NewConsensusEngine (cfg_Consensus DefaultConfig) [1] []) example_ops"
  shows "weighted example_power 0 e" "range_order (ce_validators e) [[2], [1]]"
    "total_weight example_power e = 12" "power_of example_power e [1] = 7"
proof -
  have v: "ce_validators e = [[1] \<mapsto> (example_validator [1] 7)\<lparr>vi_Stake := 7 * 10 ^ 18\<rparr>,
      [2] \<mapsto> (example_validator [2] 5)\<lparr>vi_Stake := 5 * 10 ^ 18\<rparr>]"
    unfolding e_def example_ops_def using example_register [of 7] example_register [of 5]
    by (simp add: NewConsensusEngine_def example_validator_def)
  show "weighted example_power 0 e" "range_order (ce_validators e) [[2], [1]]"
    "total_weight example_power e = 12" "power_of example_power e [1] = 7"
    by (auto simp: v weighted_def range_order_def total_weight_def power_of_def
        example_validator_def example_power_def split: if_splits)
qed

text \<open>
  C18: After any sequence of registrations, attestations and received messages, each validator
  is stored under its own address and is active, so \<^verbatim>\<open>ValidatorCount\<close> counts the registered
  addresses and never falls; each recorded attestation is one of this node's own, stored under
  its block number; and the attestations of a block are only ever added to, at the end.
\<close>

theorem consensus_run_invariant:
  fixes cfg a k xs ys ks
  defines "e \<equiv> run consensus_step (NewConsensusEngine cfg a k) xs"
  defines "e' \<equiv> run consensus_step e ys"
  assumes "range_order (ce_validators e') ks"
  shows "(\<forall>num. \<forall>att \<in> set (attestations_of e' num). at_Validator att = a \<and> at_BlockNumber att = num) \<and>
    (\<forall>b v. ce_validators e' b = Some v \<longrightarrow> vi_Address v = b \<and> vi_IsActive v) \<and>
    ValidatorCount e' ks = card (dom (ce_validators e')) \<and> dom (ce_validators e) \<subseteq> dom (ce_validators e') \<and>
    (\<forall>num. \<exists>as. attestations_of e' num = attestations_of e num @ as)"
proof -
  have t: "list_all (\<lambda>_. True) zs" for zs :: "consensus_op list" by (simp add: list_all_iff)
  have i: "consensus_inv e" and l: "ce_localAddr e = a"
    using consensus.run_inv [OF consensus_inv_new t] consensus.run_le [OF consensus_inv_new t, of cfg a k xs]
    by (simp_all add: e_def consensus_le_def NewConsensusEngine_def)
  have i': "consensus_inv e'" and le: "consensus_le e e'"
    unfolding e'_def using consensus.run_inv [OF i t] consensus.run_le [OF i t] by blast+
  have "ValidatorCount e' ks = card (dom (ce_validators e'))"
    using i' assms(3) by (intro ValidatorCount_all) (auto simp: consensus_inv_def)
  then show ?thesis using i' le l by (auto simp: consensus_inv_def consensus_le_def)
qed

theorem consensus_run_invariant_witness:
  "ValidatorCount (run consensus_step (NewConsensusEngine (cfg_Consensus DefaultConfig) [1] []) example_ops) [[2], [1]] = 2"
proof -
  have d: "dom (ce_validators (run consensus_step (NewConsensusEngine (cfg_Consensus DefaultConfig) [1] []) example_ops)) = {[1], [2]}"
    using example_ops_weights(2) by (auto simp: range_order_def)
  show ?thesis
    using consensus_run_invariant [of "cfg_Consensus DefaultConfig" "[1]" "[]" example_ops "[]" "[[2], [1]]"]
      example_ops_weights(2) d by simp
qed

text \<open>
  C19: Finality depends on this node alone. After any sequence of registrations, attestations
  and received messages, a block is final exactly when the number of calls of \<^verbatim>\<open>AttestBlock\<close> for
  its number, times the power of this node, is more than two thirds of the total: a message
  from a peer never adds an attestation, a repeated call for the same block counts again, and
  the block hash that was attested plays no role.
\<close>

theorem finality_is_local:
  assumes "weighted w c (run consensus_step (NewConsensusEngine cfg a k) ops)"
    and "range_order (ce_validators (run consensus_step (NewConsensusEngine cfg a k) ops)) ks"
    and "0 < total_weight w (run consensus_step (NewConsensusEngine cfg a k) ops)"
    and "total_weight w (run consensus_step (NewConsensusEngine cfg a k) ops) \<le> 2 ^ 53"
    and "int (length (filter (attests num) ops)) * power_of w (run consensus_step (NewConsensusEngine cfg a k) ops) a \<le> 2 ^ 53"
  shows "fst (IsFinalized (run consensus_step (NewConsensusEngine cfg a k) ops) ks m num) \<longleftrightarrow>
    2 * total_weight w (run consensus_step (NewConsensusEngine cfg a k) ops) <
      3 * (int (length (filter (attests num) ops)) * power_of w (run consensus_step (NewConsensusEngine cfg a k) ops) a)"
  using IsFinalized_weights [OF assms(1-4), of num m] assms(5) unfolding attested_weight_run by blast


theorem finality_is_local_witness:
  "fst (IsFinalized (run consensus_step (NewConsensusEngine (cfg_Consensus DefaultConfig) [1] []) example_ops) [[2], [1]] None 5)"
  using finality_is_local [OF example_ops_weights(1,2), where num = 5 and m = None]
  by (simp add: example_ops_weights) (simp add: example_ops_def)

end
