(* ===== verification/FloatText.thy ===== *)
theory FloatText
  imports JsonPrint Float64
begin

text \<open>
  How Go's \<^verbatim>\<open>encoding/json\<close> writes a float64: the decimal number with the fewest digits that
  is read back as the same float, the nearest of them if there are several, written without
  an exponent between \<open>10 powi -6\<close> and \<open>10 ^ 21\<close>. A request identifier is read into
  \<^verbatim>\<open>interface{}\<close>, so a number in it travels through float64; integers below \<open>2 ^ 53\<close> come
  out as they went in.
\<close>

section \<open>The shortest digits\<close>

text \<open>The number of digits before the decimal point; 0 or less for a number below 1/10.\<close>

definition dec_exp :: "rat \<Rightarrow> int" where
  "dec_exp x = hd (filter (\<lambda>k. x < 10 powi k) [-330..310])"

definition reads_as :: "rat \<Rightarrow> int \<Rightarrow> int \<Rightarrow> bool" where
  "reads_as x m e \<longleftrightarrow> round64 (of_int m * 10 powi e) = Fin x"

text \<open>The digits of the best decimal number with \<open>n\<close> digits, if one is read back as \<open>x\<close>.\<close>

definition digits_at :: "rat \<Rightarrow> int \<Rightarrow> int \<Rightarrow> int option" where
  "digits_at x k n =
     (let s = x * 10 powi (n - k) in
      if reads_as x (rne s) (k - n) then Some (rne s)
      else if reads_as x \<lfloor>s\<rfloor> (k - n) then Some \<lfloor>s\<rfloor>
      else if reads_as x \<lceil>s\<rceil> (k - n) then Some \<lceil>s\<rceil> else None)"

definition digit_choices :: "rat \<Rightarrow> int \<Rightarrow> int list \<Rightarrow> (int \<times> int) list" where
  "digit_choices x k ns = concat (map (\<lambda>n. case digits_at x k n of None \<Rightarrow> [] | Some m \<Rightarrow> [(m, n)]) ns)"

text \<open>Digits and exponent; 17 digits are always enough.\<close>

definition shortest :: "rat \<Rightarrow> int \<times> int" where
  "shortest x = (let k = dec_exp x in case digit_choices x k [1..17] of
     [] \<Rightarrow> (rne (x * 10 powi (17 - k)), k - 17)
   | (m, n) # _ \<Rightarrow> if m = 10 ^ nat n then (1, k) else (m, k - n))"

section \<open>The text\<close>

definition plain_text :: "int \<Rightarrow> int \<Rightarrow> string" where
  "plain_text m e =
     (if 0 \<le> e then decimal (m * 10 ^ nat e)
      else (let f = nat (- e); frac = decimal (m mod 10 ^ f)
        in decimal (m div 10 ^ f) @ CHR ''.'' # replicate (f - length frac) CHR ''0'' @ frac))"

definition exponent_text :: "int \<Rightarrow> int \<Rightarrow> string" where
  "exponent_text m e =
     (let ds = decimal m; x = e + int (length ds) - 1
      in hd ds # (if tl ds = [] then [] else CHR ''.'' # tl ds) @ CHR ''e'' # (if x < 0 then CHR ''-'' else CHR ''+'') # decimal \<bar>x\<bar>)"

definition float_text :: "rat \<Rightarrow> string" where
  "float_text q =
     (if q = 0 then ''0''
      else (case shortest \<bar>q\<bar> of (m, e) \<Rightarrow>
        (if q < 0 then ''-'' else []) @
        (if \<bar>q\<bar> < 10 powi (-6) \<or> 10 ^ 21 \<le> \<bar>q\<bar> then exponent_text m e else plain_text m e)))"

section \<open>The text is a JSON number\<close>

lemma num_run_append: "num_run n (a @ b) = (case num_run n a of None \<Rightarrow> None | Some n' \<Rightarrow> num_run n' b)"
  by (induction a arbitrary: n) (auto split: sum.split option.split)

lemma num_run_tail:
  "list_all is_digit ds \<Longrightarrow> num_run NDot0 ds = Some NDot0" "list_all is_digit ds \<Longrightarrow> num_run NE0 ds = Some NE0"
  by (induction ds) auto

lemma num_run_frac: "list_all is_digit ds \<Longrightarrow> ds \<noteq> [] \<Longrightarrow> num_run NDot ds = Some NDot0"
  by (cases ds) (auto simp: num_run_tail)

lemma num_run_exp:
  "list_all is_digit ds \<Longrightarrow> ds \<noteq> [] \<Longrightarrow> s = CHR ''-'' \<or> s = CHR ''+'' \<Longrightarrow> num_run NE (s # ds) = Some NE0"
  by (cases ds) (auto simp: num_run_tail)

definition num_ends :: "string \<Rightarrow> num_state \<Rightarrow> bool" where
  "num_ends s n \<longleftrightarrow> (case s of [] \<Rightarrow> False | c # cs \<Rightarrow> is_digit c \<and> num_run (if c = CHR ''0'' then N0 else N1) cs = Some n)"

lemma num_ends_append: "num_ends s n \<Longrightarrow> num_run n t = Some n' \<Longrightarrow> num_ends (s @ t) n'"
  by (cases s) (auto simp: num_ends_def num_run_append)

lemma num_ends_literal:
  assumes "num_ends s n" "num_final n"
  shows "num_literal s" "num_literal (CHR ''-'' # s)"
  using assms digit_other [of "hd s"]
  by (cases s; auto simp: num_ends_def num_literal_def num_start_def)+

lemma decimal_ends: "0 \<le> n \<Longrightarrow> num_ends (decimal n) (if n = 0 then N0 else N1)"
proof -
  assume n: "0 \<le> n"
  have "decimal 0 = ''0''" by (subst decimal.simps) (simp add: digit_char_def code_eq_iff)
  moreover have "is_digit CHR ''0''" by (simp add: is_digit_def)
  ultimately show ?thesis
    using n decimal_nonneg [of n] by (cases "decimal n") (auto simp: num_ends_def num_run_digits)
qed

lemma plain_text_literal: "0 \<le> m \<Longrightarrow> \<exists>n. num_ends (plain_text m e) n \<and> num_final n"
proof (cases "0 \<le> e")
  case True
  assume "0 \<le> m"
  then have "num_ends (decimal (m * 10 ^ nat e)) (if m * 10 ^ nat e = 0 then N0 else N1)" by (intro decimal_ends) simp
  then show ?thesis using True unfolding plain_text_def num_final_def by (auto split: if_splits)
next
  case False
  assume m: "0 \<le> m"
  let ?f = "nat (- e)"
  let ?frac = "decimal (m mod 10 ^ ?f)"
  have "list_all is_digit ?frac" "?frac \<noteq> []" using decimal_nonneg [of "m mod 10 ^ ?f"] by simp_all
  moreover have "is_digit CHR ''0''" by (simp add: is_digit_def)
  ultimately have r: "num_run NDot (replicate (?f - length ?frac) CHR ''0'' @ ?frac) = Some NDot0"
    by (intro num_run_frac) (auto simp: list_all_iff)
  have "num_ends (decimal (m div 10 ^ ?f)) (if m div 10 ^ ?f = 0 then N0 else N1)"
    using m by (intro decimal_ends) (simp add: pos_imp_zdiv_nonneg_iff)
  then have "num_ends (plain_text m e) NDot0"
    unfolding plain_text_def Let_def using False r by (auto intro!: num_ends_append simp: is_digit_def split: if_splits)
  then show ?thesis by (auto simp: num_final_def)
qed

lemma exponent_text_literal: "0 \<le> m \<Longrightarrow> \<exists>n. num_ends (exponent_text m e) n \<and> num_final n"
proof -
  assume m: "0 \<le> m"
  let ?x = "e + int (length (decimal m)) - 1"
  obtain c cs where d: "decimal m = c # cs" using decimal_nonneg [OF m] by (cases "decimal m") auto
  have c: "is_digit c" "list_all is_digit cs" using decimal_nonneg [OF m] d by simp_all
  have x: "list_all is_digit (decimal \<bar>?x\<bar>)" "decimal \<bar>?x\<bar> \<noteq> []" using decimal_nonneg [of "\<bar>?x\<bar>"] by simp_all
  have run: "num_run n (CHR ''e'' # s # decimal \<bar>?x\<bar>) = Some NE0"
    if "n = N0 \<or> n = N1 \<or> n = NDot0" "s = CHR ''-'' \<or> s = CHR ''+''" for n s
    using that num_run_exp [OF x that(2)] by (auto simp: is_digit_def)
  have main: "num_run n ((if cs = [] then [] else CHR ''.'' # cs) @ CHR ''e'' # (if ?x < 0 then CHR ''-'' else CHR ''+'') # decimal \<bar>?x\<bar>) = Some NE0"
    if "n = N0 \<or> n = N1" for n
  proof (cases "cs = []")
    case True
    have "num_run n (CHR ''e'' # (if ?x < 0 then CHR ''-'' else CHR ''+'') # decimal \<bar>?x\<bar>) = Some NE0"
      using that by (intro run) auto
    then show ?thesis unfolding True by (simp only: if_True append_Nil simp_thms)
  next
    case False
    have "num_run n (CHR ''.'' # cs) = Some NDot0"
      using that num_run_frac [OF c(2) False] by (auto simp: is_digit_def)
    then show ?thesis
      using False by (simp only: if_False num_run_append option.case) (rule run, auto)
  qed
  have "num_ends (exponent_text m e) NE0"
    unfolding exponent_text_def Let_def d num_ends_def list.sel list.case
    by (intro conjI c(1)) (rule main [unfolded d], simp)
  then show ?thesis by (auto simp: num_final_def)
qed

lemma scaled_nonneg:
  assumes "0 \<le> x"
  shows "0 \<le> x * 10 powi j" "0 \<le> rne (x * 10 powi j)" "0 \<le> \<lfloor>x * 10 powi j\<rfloor>" "0 \<le> \<lceil>x * 10 powi j\<rceil>"
proof -
  show s: "0 \<le> x * 10 powi j" using assms by simp
  show "0 \<le> rne (x * 10 powi j)" using rne_ge_int [of 0 "x * 10 powi j"] s by simp
  show "0 \<le> \<lfloor>x * 10 powi j\<rfloor>" using s by (simp only: zero_le_floor)
  show "0 \<le> \<lceil>x * 10 powi j\<rceil>" using s ceiling_mono [OF s] by simp
qed

lemma digits_at_nonneg: "0 \<le> x \<Longrightarrow> digits_at x k n = Some m \<Longrightarrow> 0 \<le> m"
  using scaled_nonneg [of x "n - k"] unfolding digits_at_def Let_def by (metis option.distinct(1) option.inject)

lemma shortest_nonneg: "0 \<le> x \<Longrightarrow> 0 \<le> fst (shortest x)"
proof -
  assume x: "0 \<le> x"
  have "0 \<le> m" if "(m, n) \<in> set (digit_choices x k ns)" for k m n ns
    using that digits_at_nonneg [OF x] by (auto simp: digit_choices_def split: option.splits)
  then have "0 \<le> m" if "digit_choices x k ns = (m, n) # ps" for k ns m n ps
    using that by (metis list.set_intros(1))
  then show ?thesis
    using scaled_nonneg(2) [OF x] unfolding shortest_def Let_def by (auto split: list.split)
qed

lemma num_literal_float_text [simp]: "num_literal (float_text q)"
proof (cases "q = 0")
  case True
  then show ?thesis by (simp add: float_text_def num_literal_def num_start_def num_final_def)
next
  case False
  obtain m e where s: "shortest \<bar>q\<bar> = (m, e)" by (cases "shortest \<bar>q\<bar>")
  then have m: "0 \<le> m" using shortest_nonneg [of "\<bar>q\<bar>"] by simp
  show ?thesis
    using False plain_text_literal [OF m, of e] exponent_text_literal [OF m, of e]
    by (auto simp: float_text_def s num_ends_literal)
qed

section \<open>Integers\<close>

lemma dec_exp_eq:
  assumes "10 powi (k - 1) \<le> x" "x < 10 powi k" "-330 \<le> k" "k \<le> 310"
  shows "dec_exp x = k"
proof -
  have "[-330..310] = [-330..k - 1] @ [k..310]"
    using assms(3,4) upto_split1 [of "-330" k 310] by simp
  moreover have "\<not> x < 10 powi j" if "j \<le> k - 1" for j
    using that assms(1) power_int_increasing [of j "k - 1" "10 :: rat"] by simp
  then have "filter (\<lambda>j. x < 10 powi j) [-330..k - 1] = []" by (simp add: filter_empty_conv)
  ultimately show ?thesis
    using assms(2,4) by (simp add: dec_exp_def upto_rec1 [of k])
qed

lemma round64_int_unique:
  assumes "round64 (of_int j) = Fin (of_int n)" "0 \<le> j" "n < 2 ^ 53"
  shows "j = n"
proof (cases "j \<le> 2 ^ 53")
  case True
  then have "is_f64 (of_int j)" using assms(2) by (intro is_f64_of_int) simp
  then show ?thesis using assms(1) round64_exact by simp
next
  case False
  then have "of_int (2 ^ 53) \<le> (of_int j :: rat)" by (simp only: of_int_le_iff)
  then have "fle (round64 (of_int (2 ^ 53))) (round64 (of_int j))" by (rule fle_round64_mono)
  moreover have "is_f64 (of_int (2 ^ 53))" by (intro is_f64_of_int) simp
  ultimately have "of_int (2 ^ 53) \<le> (of_int n :: rat)" using assms(1) round64_exact by (metis fle_Fin)
  then have "2 ^ 53 \<le> n" by (simp only: of_int_le_iff)
  then show ?thesis using assms(3) by simp
qed

lemma digit_choices_append: "digit_choices x k (a @ b) = digit_choices x k a @ digit_choices x k b"
  by (simp add: digit_choices_def)

lemma shortest_int:
  assumes "0 < n" "n < 2 ^ 53"
  shows "\<exists>m e. shortest (of_int n) = (m, e) \<and> 0 \<le> e \<and> m * 10 ^ nat e = n"
proof -
  obtain i where "10 ^ i \<le> nat n" "nat n < 10 ^ Suc i" using ex_power_ivl1 [of 10 "nat n"] assms(1) by (auto simp: Suc_le_eq)
  then have "int (10 ^ i) \<le> n" "n < int (10 ^ Suc i)" using assms(1) by linarith+
  then have i: "10 ^ i \<le> n" "n < 10 ^ Suc i" by simp_all
  define k where "k = int (Suc i)"
  have "(2 :: int) ^ 53 < 10 ^ 16" by simp
  then have "(10 :: int) ^ i < 10 ^ 16" using i(1) assms(2) by (meson le_less_trans less_trans)
  then have "i < 16" by (rule power_less_imp_less_exp [rotated]) simp
  then have k: "1 \<le> k" "k \<le> 16" by (simp_all add: k_def)
  have "of_int (10 ^ i) \<le> (of_int n :: rat)" "of_int n < (of_int (10 ^ Suc i) :: rat)"
    using i by (simp_all only: of_int_le_iff of_int_less_iff)
  then have d: "dec_exp (of_int n) = k"
    using k by (intro dec_exp_eq) (simp_all add: k_def power_int_def nat_add_distrib)
  have exact: "m * 10 ^ nat (k - j) = n" if "digits_at (of_int n) k j = Some m" "j \<le> k" for m j
  proof -
    have "reads_as (of_int n) m (k - j)" using that(1) by (auto simp: digits_at_def Let_def split: if_splits)
    then have "round64 (of_int (m * 10 ^ nat (k - j))) = Fin (of_int n)"
      using that(2) by (simp add: reads_as_def power_int_def)
    moreover have "0 \<le> m" using digits_at_nonneg [OF _ that(1)] assms(1) by simp
    ultimately show ?thesis using assms(2) by (intro round64_int_unique) simp_all
  qed
  have "is_f64 (of_int n)" using assms by (intro is_f64_of_int) simp
  then have "digits_at (of_int n) k k = Some n" by (simp add: digits_at_def reads_as_def round64_exact)
  then have "(n, k) \<in> set (digit_choices (of_int n) k [1..k])" using k by (auto simp: digit_choices_def intro!: bexI [of _ k])
  then obtain m j rest where c: "digit_choices (of_int n) k [1..k] = (m, j) # rest" by (cases "digit_choices (of_int n) k [1..k]") auto
  then have "(m, j) \<in> set (digit_choices (of_int n) k [1..k])" by simp
  then have mj: "digits_at (of_int n) k j = Some m" "1 \<le> j" "j \<le> k" by (auto simp: digit_choices_def split: option.splits)
  have e: "m * 10 ^ nat (k - j) = n" by (rule exact [OF mj(1,3)])
  have "m \<noteq> 10 ^ nat j"
  proof
    assume "m = 10 ^ nat j"
    then have "n = 10 ^ (nat j + nat (k - j))" using e by (simp add: power_add)
    also have "nat j + nat (k - j) = Suc i" using mj(2,3) by (simp add: k_def flip: nat_add_distrib)
    finally show False using i(2) by simp
  qed
  moreover have "[1..17] = [1..k] @ [k + 1..17]" using k upto_split2 [of 1 k 17] by simp
  ultimately have "shortest (of_int n) = (m, k - j)"
    unfolding shortest_def Let_def d by (simp only: digit_choices_append c) simp
  then show ?thesis using e mj(3) by (intro exI [of _ m] exI [of _ "k - j"]) simp
qed

lemma float_text_int: "\<bar>n\<bar> < 2 ^ 53 \<Longrightarrow> float_text (of_int n) = decimal n"
proof -
  assume n: "\<bar>n\<bar> < 2 ^ 53"
  have z: "decimal 0 = ''0''" by (subst decimal.simps) (simp add: digit_char_def code_eq_iff)
  have a: "\<bar>of_int n\<bar> = (of_int \<bar>n\<bar> :: rat)" by simp
  have "of_int \<bar>n\<bar> < (of_int (2 ^ 53) :: rat)" using n by (simp only: of_int_less_iff)
  then have b: "\<not> 10 ^ 21 \<le> (of_int \<bar>n\<bar> :: rat)" by simp
  show ?thesis
  proof (cases "n = 0")
    case False
    then have "1 \<le> (of_int \<bar>n\<bar> :: rat)" by (simp flip: of_int_abs)
    then have l: "\<not> of_int \<bar>n\<bar> < (10 powi (-6) :: rat)" by (simp add: power_int_minus)
    obtain m e where s: "shortest (of_int \<bar>n\<bar>) = (m, e)" "0 \<le> e" "m * 10 ^ nat e = \<bar>n\<bar>"
      using shortest_int [of "\<bar>n\<bar>"] False n by auto
    show ?thesis
      using False b l s decimal_neg [of n] unfolding float_text_def a by (simp add: plain_text_def)
  qed (simp add: float_text_def z)
qed

end
