(* ===== verification/Rpc.thy ===== *)
theory Rpc
  imports Consensus Staking FloatText
begin

text \<open>
  The JSON-RPC server, \<^verbatim>\<open>internal/rpc/server.go\<close>: the requests it answers over the state of the
  other components. A request is a method and a body, a response a status and a body, as
  bytes of text; the sockets, headers and timeouts of \<^verbatim>\<open>net/http\<close> are not modelled. Go values are
  written as \<^verbatim>\<open>encoding/json\<close> writes them, with the tags of their structs. What depends on the
  environment is a record \<open>Texts\<close>: the text of a time (its zone), of an address
  (go-ethereum), of a transport error and of the URL of a redirect. The order in which a map is traversed is a record
  \<open>Orders\<close>.
\<close>

section \<open>Writing Go values\<close>

record Texts =
  tx_time :: "go_time \<Rightarrow> string"
  tx_address :: "address \<Rightarrow> string"
  tx_cause :: string
  tx_location :: "string \<Rightarrow> string"

definition json_big :: "big_int \<Rightarrow> json" where
  "json_big n = JNum (decimal n)"

text \<open>NaN and the infinities have no JSON form: the encoder reports an error.\<close>

definition enc_float :: "float64 \<Rightarrow> json option" where
  "enc_float f = (case f of Fin q \<Rightarrow> Some (JNum (float_text q)) | _ \<Rightarrow> None)"

definition enc_ValidatorInfo :: "Texts \<Rightarrow> ValidatorInfo \<Rightarrow> json option" where
  "enc_ValidatorInfo tx v =
     enc_float (vi_TasteScore v) \<bind> (\<lambda>taste. enc_float (vi_VotePower v) \<bind> (\<lambda>pow. enc_float (vi_SovereigntyScore v) \<bind> (\<lambda>score.
     Some (JObj [(''address'', JStr (tx_address tx (vi_Address v))), (''stake'', json_big (vi_Stake v)), (''tasteScore'', taste),
       (''votePower'', pow), (''sovereigntyScore'', score), (''sovereigntyTier'', JNum (decimal (uint (vi_SovereigntyTier v)))),
       (''isActive'', JBool (vi_IsActive v)), (''slashCount'', json_int (vi_SlashCount v)),
       (''joinedAt'', JStr (tx_time tx (vi_JoinedAt v)))]))))"

definition enc_Peer :: "Peer \<Rightarrow> json" where
  "enc_Peer p = JObj [(''id'', JStr (peer_ID p)), (''address'', JStr (peer_Address p)), (''version'', JStr (peer_Version p)),
     (''isActive'', JBool (peer_IsActive p)), (''latencyMs'', json_int (peer_Latency p))]"

definition enc_Stake :: "Texts \<Rightarrow> Stake \<Rightarrow> json" where
  "enc_Stake tx s = JObj [(''validator'', JStr (tx_address tx (st_Validator s))), (''amount'', json_big (st_Amount s)),
     (''stakedAt'', JStr (tx_time tx (st_StakedAt s))), (''isActive'', JBool (st_IsActive s)), (''rewards'', json_big (st_Rewards s)),
     (''slashCount'', json_int (st_SlashCount s))]"

definition error_text :: "string \<Rightarrow> verify_error \<Rightarrow> string" where
  "error_text cause e = (case e of
     NoError \<Rightarrow> []
   | InvalidBlockNumber \<Rightarrow> ''invalid block number''
   | StateRootMismatch a b \<Rightarrow> ''state root mismatch: got '' @ a @ '', expected '' @ b
   | LaneStatsFailed \<Rightarrow> ''failed to fetch lane stats: '' @ cause
   | LaneCountMismatch a b \<Rightarrow> ''lane count mismatch: total='' @ decimal (sint a) @ '' but fast+std+slow='' @ decimal (sint b)
   | ReceiptFailed \<Rightarrow> ''failed to fetch receipt: '' @ cause
   | ReceiptNotFound \<Rightarrow> ''receipt not found''
   | ReceiptHashMismatch a b \<Rightarrow> ''receipt hash mismatch: got '' @ a @ '', recomputed '' @ b
   | ReceiptUnverified \<Rightarrow> ''sequencer reports receipt as unverified''
   | GasLimitOutside a b c \<Rightarrow> ''gas limit '' @ decimal (uint a) @ '' outside bounds ['' @ decimal (uint b) @ '', '' @ decimal (uint c) @ '']''
   | TxCountExceeds a b \<Rightarrow> ''tx count '' @ decimal (sint a) @ '' exceeds max '' @ decimal (sint b)
   | GasUsedExceeds a b \<Rightarrow> ''gas used '' @ decimal (uint a) @ '' exceeds gas limit '' @ decimal (uint b))"

text \<open>A field with \<^verbatim>\<open>omitempty\<close>.\<close>

definition error_field :: "Texts \<Rightarrow> verify_error \<Rightarrow> (string \<times> json) list" where
  "error_field tx e = (let s = error_text (tx_cause tx) e in if s = [] then [] else [(''error'', JStr s)])"

definition enc_VerifyResult :: "Texts \<Rightarrow> VerifyResult \<Rightarrow> json" where
  "enc_VerifyResult tx r = JObj ([(''blockNumber'', json_uint64 (vr_BlockNumber r)), (''valid'', JBool (vr_Valid r))] @
     error_field tx (vr_Error r) @ [(''stateRoot'', JStr (vr_StateRoot r))])"

definition enc_LaneResult :: "Texts \<Rightarrow> LaneVerificationResult \<Rightarrow> json" where
  "enc_LaneResult tx r = JObj ([(''blockNumber'', json_uint64 (lv_BlockNumber r)), (''lanesEnabled'', JBool (lv_LanesEnabled r)),
     (''fastCount'', json_int (lv_FastCount r)), (''standardCount'', json_int (lv_StandardCount r)),
     (''slowCount'', json_int (lv_SlowCount r)), (''valid'', JBool (lv_Valid r))] @ error_field tx (lv_Error r))"

definition enc_ReceiptResult :: "Texts \<Rightarrow> ReceiptVerificationResult \<Rightarrow> json" where
  "enc_ReceiptResult tx r = JObj ([(''txHash'', JStr (rv_TxHash r)), (''blockNumber'', json_uint64 (rv_BlockNumber r)),
     (''valid'', JBool (rv_Valid r))] @ error_field tx (rv_Error r) @
     [(''receiptHash'', JStr (rv_ReceiptHash r)), (''verified'', JBool (rv_Verified r))])"

definition enc_AdaptiveResult :: "Texts \<Rightarrow> AdaptiveVerificationResult \<Rightarrow> json" where
  "enc_AdaptiveResult tx r = JObj ([(''blockNumber'', json_uint64 (av_BlockNumber r)), (''gasUsed'', json_uint64 (av_GasUsed r)),
     (''gasLimit'', json_uint64 (av_GasLimit r)), (''gasLimitValid'', JBool (av_GasLimitValid r)),
     (''txCountValid'', JBool (av_TxCountValid r)), (''valid'', JBool (av_Valid r))] @ error_field tx (av_Error r))"

definition enc_Reputation :: "Texts \<Rightarrow> ValidatorReputation \<Rightarrow> json option" where
  "enc_Reputation tx r = enc_float (vr_SovereigntyScore r) \<bind> (\<lambda>score.
     Some (JObj [(''address'', JStr (tx_address tx (vr_Address r))), (''xp'', json_uint64 (vr_XP r)),
       (''uptimeBps'', JNum (decimal (uint (vr_UptimeBps r)))), (''blocksAttested'', json_uint64 (vr_BlocksAttested r)),
       (''blocksMissed'', json_uint64 (vr_BlocksMissed r)), (''slashCount'', json_uint64 (vr_SlashCount r)),
       (''sovereigntyScore'', score), (''tier'', JNum (decimal (uint (vr_Tier r)))),
       (''lastActive'', JStr (tx_time tx (vr_LastActive r))), (''joinedAt'', JStr (tx_time tx (vr_JoinedAt r)))]))"

definition enc_list :: "('a \<Rightarrow> json option) \<Rightarrow> 'a list \<Rightarrow> json option" where
  "enc_list enc xs = map_option JArr (dec_list enc xs)"

section \<open>Requests\<close>

record Request =
  rq_Method :: string
  rq_Body :: bytes
  rq_Failed :: bool

record Call =
  cl_JSONRPC :: string
  cl_Method :: string
  cl_Params :: "json option"
  cl_ID :: json

text \<open>
  A value read into \<^verbatim>\<open>interface{}\<close> and written again: numbers travel as float64, an object is
  a map (the last of equal keys counts, the keys come out in order).
\<close>

fun key_less :: "string \<Rightarrow> string \<Rightarrow> bool" where
  "key_less a [] \<longleftrightarrow> False"
| "key_less [] (d # b) \<longleftrightarrow> True"
| "key_less (c # a) (d # b) \<longleftrightarrow> code c < code d \<or> c = d \<and> key_less a b"

fun put_key :: "string \<Rightarrow> json \<Rightarrow> (string \<times> json) list \<Rightarrow> (string \<times> json) list" where
  "put_key k v [] = [(k, v)]"
| "put_key k v ((k', v') # kvs) =
     (if k = k' then (k, v) # kvs else if key_less k k' then (k, v) # (k', v') # kvs else (k', v') # put_key k v kvs)"

fun any_value :: "json \<Rightarrow> json option"
  and any_values :: "json list \<Rightarrow> json list option"
  and any_members :: "(string \<times> json) list \<Rightarrow> (string \<times> json) list \<Rightarrow> (string \<times> json) list option" where
  "any_value (JNum s) = (let x = round64 (literal_value s) in
     if x = Fin 0 \<and> take 1 s = ''-'' then Some (JNum ''-0'') else enc_float x)"
| "any_value (JArr vs) = map_option JArr (any_values vs)"
| "any_value (JObj kvs) = map_option JObj (any_members kvs [])"
| "any_value v = Some v"
| "any_values [] = Some []"
| "any_values (v # vs) = any_value v \<bind> (\<lambda>x. any_values vs \<bind> (\<lambda>xs. Some (x # xs)))"
| "any_members [] acc = Some acc"
| "any_members ((k, v) # kvs) acc = any_value v \<bind> (\<lambda>x. any_members kvs (put_key k x acc))"

definition dec_any :: "json \<Rightarrow> json \<Rightarrow> json option" where
  "dec_any old v = any_value v"

definition fields_Call :: "(string \<times> json) list \<Rightarrow> Call option" where
  "fields_Call kvs =
     struct_field dec_string ''jsonrpc'' [] kvs \<bind> (\<lambda>ver. struct_field dec_string ''method'' [] kvs \<bind> (\<lambda>meth.
     struct_field dec_raw ''params'' None kvs \<bind> (\<lambda>params. struct_field dec_any ''id'' JNull kvs \<bind> (\<lambda>ident.
     Some \<lparr>cl_JSONRPC = ver, cl_Method = meth, cl_Params = params, cl_ID = ident\<rparr>))))"

definition body_limit :: nat where
  "body_limit = 2 ^ 20"

text \<open>The body is cut after 1 MiB; a transport error before that is an error.\<close>

definition read_call :: "Request \<Rightarrow> Call option" where
  "read_call r =
     (if rq_Failed r \<and> length (rq_Body r) < body_limit then None else unmarshal fields_Call (take body_limit (rq_Body r)))"

section \<open>Parameters\<close>

datatype param_error = ParamsNotArray | MissingParam nat | InvalidUint64 nat | InvalidString nat

text \<open>The elements of the \<^verbatim>\<open>params\<close> array; \<^verbatim>\<open>null\<close> is the nil slice.\<close>

definition params_array :: "json option \<Rightarrow> json list option" where
  "params_array params = (case params of Some (JArr vs) \<Rightarrow> Some vs | Some JNull \<Rightarrow> Some [] | _ \<Rightarrow> None)"

text \<open>\<^verbatim>\<open>big.Int.SetString\<close> in base 16: an optional sign and one digit or more.\<close>

definition set_string16 :: "string \<Rightarrow> int option" where
  "set_string16 s =
     (let neg = (s \<noteq> [] \<and> hd s = CHR ''-'');
          ds = (if s \<noteq> [] \<and> (hd s = CHR ''-'' \<or> hd s = CHR ''+'') then tl s else s)
      in if ds \<noteq> [] \<and> list_all (\<lambda>c. hex_val c \<noteq> None) ds
         then Some (if neg then - hex_value ds else hex_value ds) else None)"

definition trim_0x :: "string \<Rightarrow> string" where
  "trim_0x s = (if take 2 s = ''0x'' then drop 2 s else s)"

text \<open>
  \<^verbatim>\<open>big.Int.Uint64\<close>: its documentation leaves the result open when the number does not fit; the
  implementation of the standard library returns the low 64 bits of the magnitude.
\<close>

definition big_uint64 :: "int \<Rightarrow> uint64" where
  "big_uint64 n = word_of_int \<bar>n\<bar>"

definition parseUint64Param :: "json option \<Rightarrow> nat \<Rightarrow> param_error + uint64" where
  "parseUint64Param params idx = (case params_array params of
     None \<Rightarrow> Inl ParamsNotArray
   | Some arr \<Rightarrow>
       if length arr \<le> idx then Inl (MissingParam idx)
       else (case dec_uint64 0 (arr ! idx) of
           Some val \<Rightarrow> Inr val
         | None \<Rightarrow> (case dec_string [] (arr ! idx) \<bind> (\<lambda>hexStr. set_string16 (trim_0x hexStr)) of
             Some n \<Rightarrow> Inr (big_uint64 n)
           | None \<Rightarrow> Inl (InvalidUint64 idx))))"

definition parseStringParam :: "json option \<Rightarrow> nat \<Rightarrow> param_error + string" where
  "parseStringParam params idx = (case params_array params of
     None \<Rightarrow> Inl ParamsNotArray
   | Some arr \<Rightarrow>
       if length arr \<le> idx then Inl (MissingParam idx)
       else (case dec_string [] (arr ! idx) of Some val \<Rightarrow> Inr val | None \<Rightarrow> Inl (InvalidString idx)))"

definition param_error_text :: "param_error \<Rightarrow> string" where
  "param_error_text e = (case e of
     ParamsNotArray \<Rightarrow> ''params must be an array''
   | MissingParam i \<Rightarrow> ''missing parameter at index '' @ decimal (int i)
   | InvalidUint64 i \<Rightarrow> ''invalid uint64 at index '' @ decimal (int i)
   | InvalidString i \<Rightarrow> ''invalid string at index '' @ decimal (int i))"

section \<open>The server\<close>

record Server =
  srv_consensus :: ConsensusEngine
  srv_sync :: SyncEngine
  srv_verification :: VerifyEngine
  srv_staking :: StakingManager
  srv_reputation :: "ReputationManager option"
  srv_network :: Network
  srv_cfg :: ValidatorConfig
  srv_seqCfg :: "SequencerConfig option"
  srv_metrics :: "Metrics option"
  srv_httpServer :: "bool option"

definition NewServer ::
    "ValidatorConfig \<Rightarrow> ConsensusEngine \<Rightarrow> SyncEngine \<Rightarrow> VerifyEngine \<Rightarrow> StakingManager \<Rightarrow> Network \<Rightarrow> Server" where
  "NewServer cfg consensus sync verification staking network =
     \<lparr>srv_consensus = consensus, srv_sync = sync, srv_verification = verification, srv_staking = staking,
      srv_reputation = None, srv_network = network, srv_cfg = cfg, srv_seqCfg = None, srv_metrics = None, srv_httpServer = None\<rparr>"

definition SetReputation :: "Server \<Rightarrow> ReputationManager \<Rightarrow> Server" where
  "SetReputation s r = s\<lparr>srv_reputation := Some r\<rparr>"

definition SetSequencerConfig :: "Server \<Rightarrow> SequencerConfig \<Rightarrow> Server" where
  "SetSequencerConfig s cfg = s\<lparr>srv_seqCfg := Some cfg\<rparr>"

definition SetMetrics :: "Server \<Rightarrow> Metrics \<Rightarrow> Server" where
  "SetMetrics s m = s\<lparr>srv_metrics := Some m\<rparr>"

definition sequencerURL :: "Server \<Rightarrow> string" where
  "sequencerURL s = (case srv_seqCfg s of
     Some cfg \<Rightarrow> if seq_RPCURL cfg \<noteq> [] then seq_RPCURL cfg else ''http://localhost:8545''
   | None \<Rightarrow> ''http://localhost:8545'')"

record Orders =
  ord_validators :: "address list"
  ord_peers :: "string list"
  ord_stakes :: "address list"
  ord_reps :: "address list"

text \<open>The environment of a request: go-ethereum, the sequencer as seen by the sync engine and by the verifier.\<close>

record Env =
  env_geth :: Geth
  env_texts :: Texts
  env_post :: http_post
  env_rpcPost :: url_post

record Response =
  rs_Status :: nat
  rs_Body :: string

definition encode_json :: "nat \<Rightarrow> json \<Rightarrow> Response" where
  "encode_json status v = \<lparr>rs_Status = status, rs_Body = json_print v @ [newline]\<rparr>"

text \<open>Maps are written in the order of their keys.\<close>

definition writeError :: "json \<Rightarrow> int \<Rightarrow> string \<Rightarrow> Response" where
  "writeError ident errcode msg = encode_json 200
     (JObj [(''error'', JObj [(''code'', JNum (decimal errcode)), (''message'', JStr msg)]), (''id'', ident), (''jsonrpc'', JStr ''2.0'')])"

text \<open>The outcome of one method: an error code and message, or the encoded result (\<open>None\<close>: not encodable), and the verification engine.\<close>

type_synonym outcome = "((int \<times> string) + json option) \<times> VerifyEngine"

definition status_map :: "Env \<Rightarrow> Server \<Rightarrow> Orders \<Rightarrow> json" where
  "status_map env s o' = JObj
     [(''latestBlock'', json_uint64 (LatestBlock (srv_sync s))),
      (''peerCount'', JNum (decimal (int (PeerCount (srv_network s) (ord_peers o'))))),
      (''synced'', JBool (IsSynced (env_post env) (srv_sync s))),
      (''totalStaked'', JStr (decimal (TotalStaked (srv_staking s) (ord_stakes o')))),
      (''validatorCount'', JNum (decimal (int (ValidatorCount (srv_consensus s) (ord_validators o')))))]"

definition sync_map :: "Env \<Rightarrow> Server \<Rightarrow> json" where
  "sync_map env s = JObj
     [(''latestBlock'', json_uint64 (LatestBlock (srv_sync s))), (''synced'', JBool (IsSynced (env_post env) (srv_sync s)))]"

text \<open>The block a request asks for.\<close>

definition with_block :: "Server \<Rightarrow> Call \<Rightarrow> (L2Block \<Rightarrow> outcome) \<Rightarrow> outcome" where
  "with_block s c f = (case parseUint64Param (cl_Params c) 0 of
     Inl e \<Rightarrow> (Inl (-32602, ''invalid block number: '' @ param_error_text e), srv_verification s)
   | Inr num \<Rightarrow> (case GetBlock (srv_sync s) num of
       None \<Rightarrow> (Inl (-32602, ''block not found''), srv_verification s)
     | Some block \<Rightarrow> f block))"

definition dispatch :: "Env \<Rightarrow> Server \<Rightarrow> Orders \<Rightarrow> Call \<Rightarrow> outcome" where
  "dispatch env s o' c =
     (let tx = env_texts env; keep = (\<lambda>r. (r, srv_verification s)) in
      if cl_Method c = ''inso_validatorStatus'' then keep (Inr (Some (status_map env s o')))
      else if cl_Method c = ''inso_getValidators'' then
        keep (Inr (enc_list (enc_ValidatorInfo tx) (Validators (srv_consensus s) (ord_validators o'))))
      else if cl_Method c = ''inso_getPeers'' then keep (Inr (Some (JArr (map enc_Peer (Peers (srv_network s) (ord_peers o'))))))
      else if cl_Method c = ''inso_getActiveStakes'' then
        (let active = ActiveValidators (srv_staking s) (ord_stakes o')
         in keep (Inr (Some (if active = [] then JNull else JArr (map (enc_Stake tx) active)))))
      else if cl_Method c = ''inso_verifyBlock'' then
        with_block s c (\<lambda>block. case VerifyBlock (env_geth env) (srv_verification s) block of
          (e, r) \<Rightarrow> (Inr (Some (enc_VerifyResult tx r)), e))
      else if cl_Method c = ''inso_getLaneVerification'' then
        keep (Inr (Some (enc_LaneResult tx (VerifyLaneAllocation (env_rpcPost env) (sequencerURL s)))))
      else if cl_Method c = ''inso_getReceiptVerification'' then
        (case parseStringParam (cl_Params c) 0 of
           Inl e \<Rightarrow> keep (Inl (-32602, ''invalid txHash: '' @ param_error_text e))
         | Inr txHash \<Rightarrow>
             keep (Inr (Some (enc_ReceiptResult tx (VerifyComputeReceipt (env_geth env) (env_rpcPost env) (sequencerURL s) txHash)))))
      else if cl_Method c = ''inso_getAdaptiveVerification'' then
        with_block s c (\<lambda>block. keep (Inr (Some (enc_AdaptiveResult tx (VerifyAdaptiveBlock block DefaultAdaptiveBounds)))))
      else if cl_Method c = ''inso_getReputationScores'' then
        (case srv_reputation s of
           None \<Rightarrow> keep (Inl (-32603, ''reputation manager not available''))
         | Some m \<Rightarrow> keep (Inr (enc_list (enc_Reputation tx) (AllReputations m (ord_reps o')))))
      else if cl_Method c = ''inso_getReputation'' then
        (case srv_reputation s of
           None \<Rightarrow> keep (Inl (-32603, ''reputation manager not available''))
         | Some m \<Rightarrow> (case parseStringParam (cl_Params c) 0 of
             Inl e \<Rightarrow> keep (Inl (-32602, ''invalid address: '' @ param_error_text e))
           | Inr addrStr \<Rightarrow> (case GetReputation m (HexToAddress (env_geth env) addrStr) of
               None \<Rightarrow> keep (Inl (-32602, ''validator not found''))
             | Some rep \<Rightarrow> keep (Inr (enc_Reputation tx rep)))))
      else if cl_Method c = ''inso_getSyncStatus'' then keep (Inr (Some (sync_map env s)))
      else keep (Inl (-32601, ''method not found'')))"

text \<open>The counter of requests goes up first; a result that cannot be encoded is sent as \<^verbatim>\<open>null\<close>.\<close>

definition count_request :: "Server \<Rightarrow> Server" where
  "count_request s = s\<lparr>srv_metrics := map_option (\<lambda>m. m\<lparr>mt_RPCRequests := mt_RPCRequests m + 1\<rparr>) (srv_metrics s)\<rparr>"

definition handle :: "Env \<Rightarrow> Server \<Rightarrow> Orders \<Rightarrow> Request \<Rightarrow> Response \<times> Server" where
  "handle env s o' r =
     (let s1 = count_request s in
      if rq_Method r \<noteq> ''POST'' then (\<lparr>rs_Status = 405, rs_Body = ''method not allowed'' @ [newline]\<rparr>, s1)
      else (case read_call r of
          None \<Rightarrow> (writeError JNull (-32700) ''parse error'', s1)
        | Some c \<Rightarrow> (case dispatch env s1 o' c of
            (Inl (errcode, msg), e) \<Rightarrow> (writeError (cl_ID c) errcode msg, s1\<lparr>srv_verification := e\<rparr>)
          | (Inr result, e) \<Rightarrow>
              (encode_json 200 (JObj [(''id'', cl_ID c), (''jsonrpc'', JStr ''2.0''),
                 (''result'', case result of None \<Rightarrow> JNull | Some v \<Rightarrow> v)]), s1\<lparr>srv_verification := e\<rparr>))))"

definition rpc_handleHealth :: "Env \<Rightarrow> Server \<Rightarrow> Orders \<Rightarrow> Response" where
  "rpc_handleHealth env s o' = encode_json 200 (JObj
     [(''peers'', JNum (decimal (int (PeerCount (srv_network s) (ord_peers o'))))), (''service'', JStr ''inso-validator''),
      (''status'', JStr ''ok''), (''synced'', JBool (IsSynced (env_post env) (srv_sync s))),
      (''validatorCount'', JNum (decimal (int (ValidatorCount (srv_consensus s) (ord_validators o'))))), (''version'', JStr ''phase5'')])"

definition handleReady :: "Env \<Rightarrow> Server \<Rightarrow> Orders \<Rightarrow> Response" where
  "handleReady env s o' =
     (let synced = IsSynced (env_post env) (srv_sync s);
          peers = JNum (decimal (int (PeerCount (srv_network s) (ord_peers o'))))
      in if \<not> synced then encode_json 503 (JObj
           [(''peers'', peers), (''reason'', JStr ''not synced''), (''service'', JStr ''inso-validator''),
            (''status'', JStr ''not_ready''), (''synced'', JBool False)])
         else encode_json 200 (JObj
           [(''peers'', peers), (''service'', JStr ''inso-validator''), (''status'', JStr ''ready''), (''synced'', JBool True)]))"

text \<open>The handlers registered by \<^verbatim>\<open>Start\<close>.\<close>

datatype rpc_handler = ToHealth | ToReady | ToHandle

definition rpc_mux :: "string \<Rightarrow> string \<Rightarrow> rpc_handler mux_result" where
  "rpc_mux = ServeMux [''health'' \<mapsto> ToHealth, ''ready'' \<mapsto> ToReady] (Some ToHandle)"

definition route :: "Env \<Rightarrow> Server \<Rightarrow> Orders \<Rightarrow> string \<Rightarrow> Request \<Rightarrow> Response \<times> Server" where
  "route env s o' path r = (case rpc_mux (rq_Method r) path of
     Handler ToHealth \<Rightarrow> (rpc_handleHealth env s o', s)
   | Handler ToReady \<Rightarrow> (handleReady env s o', s)
   | Handler ToHandle \<Rightarrow> handle env s o' r
   | Moved p \<Rightarrow> (\<lparr>rs_Status = 301, rs_Body = moved_page (tx_location (env_texts env) p) (rq_Method r)\<rparr>, s)
   | Missing \<Rightarrow> (\<lparr>rs_Status = 404, rs_Body = missing_page\<rparr>, s)
   | OptionsStar \<Rightarrow> (\<lparr>rs_Status = 200, rs_Body = []\<rparr>, s)
   | BadStar \<Rightarrow> (\<lparr>rs_Status = 400, rs_Body = []\<rparr>, s))"

text \<open>The HTTP server is nil before \<^verbatim>\<open>Start\<close>; after it, the flag says whether it takes new requests.\<close>

definition StartServer :: "Server \<Rightarrow> Server" where
  "StartServer s = s\<lparr>srv_httpServer := Some True\<rparr>"

text \<open>
  One round of \<^verbatim>\<open>http.Server.Shutdown\<close>, which \<^verbatim>\<open>Stop\<close> calls: no new request is taken; it returns when no
  request is in flight, or with an error when the deadline of its context has passed, and else waits.
\<close>

datatype stop_result = Stopped | DeadlineExceeded | StillWaiting

definition StopServer :: "Server \<Rightarrow> nat \<Rightarrow> bool \<Rightarrow> stop_result \<times> Server" where
  "StopServer s inFlight expired = (case srv_httpServer s of
     None \<Rightarrow> (Stopped, s)
   | Some _ \<Rightarrow> (if inFlight = 0 then Stopped else if expired then DeadlineExceeded else StillWaiting,
       s\<lparr>srv_httpServer := Some False\<rparr>))"

section \<open>Parameters in decimal and in hexadecimal\<close>

lemma set_string16_hex: "0 \<le> n \<Longrightarrow> set_string16 (hex_string n) = Some n"
proof -
  assume "0 \<le> n"
  note h = hex_string_spec [OF this]
  have "hex_val CHR ''-'' = None" "hex_val CHR ''+'' = None" by (simp_all add: hex_val_def is_digit_def)
  moreover have "hex_val c \<noteq> None" if "c \<in> set (hex_string n)" for c
    using that h by (auto simp: list_all_iff)
  ultimately have "c \<noteq> CHR ''-'' \<and> c \<noteq> CHR ''+'' \<and> hex_val c \<noteq> None" if "c \<in> set (hex_string n)" for c
    using that by metis
  then have "hd (hex_string n) \<noteq> CHR ''-'' \<and> hd (hex_string n) \<noteq> CHR ''+''" "list_all (\<lambda>c. hex_val c \<noteq> None) (hex_string n)"
    using h by (simp_all add: list_all_iff)
  then show ?thesis using h by (simp add: set_string16_def)
qed

section \<open>The identifier of a request\<close>

lemma literal_value_decimal: "literal_value (decimal n) = of_int n"
proof -
  have nn: "literal_value (decimal k) = of_int k \<and> literal_value (CHR ''-'' # decimal k) = - of_int k" if "0 \<le> k" for k
  proof -
    note d = decimal_nonneg [OF that]
    have "takeWhile is_digit (decimal k) = decimal k" "dropWhile is_digit (decimal k) = []"
      using d by (simp_all add: list_all_iff takeWhile_eq_all_conv)
    moreover have "hd (decimal k) \<noteq> CHR ''-''" using d digit_other [of "hd (decimal k)"] by (cases "decimal k") auto
    ultimately show ?thesis using d by (simp add: literal_value_def del: takeWhile_eq_all_conv dropWhile_eq_Nil_conv)
  qed
  show ?thesis
  proof (cases "n < 0")
    case True
    then show ?thesis using nn [of "- n"] unfolding decimal_neg [OF True] by simp
  next
    case False
    then show ?thesis using nn [of n] by simp
  qed
qed

text \<open>The identifiers JSON-RPC allows, integers up to 53 bits.\<close>

definition echo_id :: "json \<Rightarrow> bool" where
  "echo_id v \<longleftrightarrow> v = JNull \<or> (\<exists>s. valid_utf8 s \<and> v = JStr s) \<or> (\<exists>n. \<bar>n\<bar> < 2 ^ 53 \<and> v = JNum (decimal n))"

lemma any_value_echo: "echo_id v \<Longrightarrow> any_value v = Some v"
proof -
  have "any_value (JNum (decimal n)) = Some (JNum (decimal n))" if "\<bar>n\<bar> < 2 ^ 53" for n
  proof -
    have "is_f64 (of_int n)" using that by (intro is_f64_of_int) simp
    moreover have "take 1 (decimal 0) \<noteq> ''-''" by code_simp
    ultimately show ?thesis using float_text_int [OF that] by (auto simp: literal_value_decimal round64_exact enc_float_def Let_def)
  qed
  then show "echo_id v \<Longrightarrow> any_value v = Some v" by (auto simp: echo_id_def)
qed

lemma printable_echo: "echo_id v \<Longrightarrow> printable v \<and> json_depth v = 0"
  by (auto simp: echo_id_def)

definition client_request :: "string \<Rightarrow> json list \<Rightarrow> json \<Rightarrow> Request" where
  "client_request meth params ident = \<lparr>rq_Method = ''POST'', rq_Body = EncodePayload (JObj
     [(''jsonrpc'', JStr ''2.0''), (''method'', JStr meth), (''params'', JArr params), (''id'', ident)]), rq_Failed = False\<rparr>"

lemma fold_call_tags [simp]:
  "fold_name ''jsonrpc'' = ''JSONRPC''" "fold_name ''method'' = ''METHOD''" "fold_name ''params'' = ''PARAMS''" "fold_name ''id'' = ''ID''"
  by code_simp+

lemma read_client_request:
  assumes "valid_utf8 meth" "list_all printable params" "json_depth (JArr params) < max_nesting" "echo_id ident"
    and "length (rq_Body (client_request meth params ident)) \<le> body_limit"
  shows "read_call (client_request meth params ident) =
    Some \<lparr>cl_JSONRPC = ''2.0'', cl_Method = meth, cl_Params = Some (JArr params), cl_ID = ident\<rparr>"
proof -
  let ?kvs = "[(''jsonrpc'', JStr ''2.0''), (''method'', JStr meth), (''params'', JArr params), (''id'', ident)]"
  have "unmarshal fields_Call (EncodePayload (JObj ?kvs)) = fields_Call ?kvs"
    using assms printable_echo [OF assms(4)]
    by (intro unmarshal_EncodePayload) (simp_all add: valid_utf8_ascii)
  also have "fields_Call ?kvs = Some \<lparr>cl_JSONRPC = ''2.0'', cl_Method = meth, cl_Params = Some (JArr params), cl_ID = ident\<rparr>"
    using any_value_echo [OF assms(4)] by (simp add: fields_Call_def struct_field_Cons dec_raw_def dec_any_def)
  finally show ?thesis using assms(5) by (simp add: read_call_def client_request_def)
qed

section \<open>The methods\<close>

definition rpc_methods :: "string list" where
  "rpc_methods = [''inso_validatorStatus'', ''inso_getValidators'', ''inso_getPeers'', ''inso_getActiveStakes'', ''inso_verifyBlock'',
     ''inso_getLaneVerification'', ''inso_getReceiptVerification'', ''inso_getAdaptiveVerification'', ''inso_getReputationScores'',
     ''inso_getReputation'', ''inso_getSyncStatus'']"

lemma dispatch_unknown:
  "cl_Method c \<notin> set rpc_methods \<Longrightarrow> dispatch env s o' c = (Inl (-32601, ''method not found''), srv_verification s)"
  by (simp add: dispatch_def rpc_methods_def)

lemma dispatch_known:
  "cl_Method c \<in> set rpc_methods \<Longrightarrow> fst (dispatch env s o' c) = Inl (errcode, msg) \<Longrightarrow> errcode = -32602 \<or> errcode = -32603"
  unfolding rpc_methods_def
  by (auto simp: dispatch_def with_block_def Let_def split: option.splits sum.splits prod.splits)

lemma dispatch_frame:
  "cl_Method c \<noteq> ''inso_verifyBlock'' \<Longrightarrow> snd (dispatch env s o' c) = srv_verification s"
  by (simp add: dispatch_def with_block_def Let_def split: option.split sum.split)

lemma handle_call:
  assumes "rq_Method r = ''POST''" "read_call r = Some c"
  shows "snd (handle env s o' r) = (count_request s)\<lparr>srv_verification := snd (dispatch env (count_request s) o' c)\<rparr>"
    "fst (handle env s o' r) = (case fst (dispatch env (count_request s) o' c) of
       Inl (errcode, msg) \<Rightarrow> writeError (cl_ID c) errcode msg
     | Inr result \<Rightarrow> encode_json 200 (JObj [(''id'', cl_ID c), (''jsonrpc'', JStr ''2.0''),
         (''result'', case result of None \<Rightarrow> JNull | Some v \<Rightarrow> v)]))"
  using assms by (simp_all add: handle_def Let_def split: prod.split sum.split)

lemma count_request_frame [simp]:
  "srv_verification (count_request s) = srv_verification s" "srv_sync (count_request s) = srv_sync s"
  by (simp_all add: count_request_def)

section \<open>Readiness\<close>

lemma handleReady_status:
  "rs_Status (handleReady env s o') = (if IsSynced (env_post env) (srv_sync s) then 200 else 503)"
  by (simp add: handleReady_def encode_json_def Let_def)

section \<open>Example\<close>

definition example_env :: Env where
  "example_env = \<lparr>env_geth = example_geth, env_texts = \<lparr>tx_time = (\<lambda>_. []), tx_address = (\<lambda>_. []), tx_cause = [], tx_location = (\<lambda>p. p)\<rparr>,
     env_post = (\<lambda>_. None), env_rpcPost = (\<lambda>_ _. None)\<rparr>"

definition example_server :: Server where
  "example_server = NewServer (cfg_Validator DefaultConfig) example_consensus
     ((NewSyncEngine (cfg_Sequencer DefaultConfig))\<lparr>latestBlock := 1, sblocks := [1 \<mapsto> example_block 1]\<rparr>) NewVerifyEngine example_staking example_sender"

definition example_orders :: Orders where
  "example_orders = \<lparr>ord_validators = [[1], [2]], ord_peers = [], ord_stakes = [], ord_reps = []\<rparr>"

lemma decimal_digit: "decimal 1 = ''1''" "decimal 7 = ''7''"
  by (subst decimal.simps, simp add: digit_char_def code_eq_iff)+

lemma example_request_length:
  assumes "list_all plain meth" "length meth < 100" "length (json_print v) < 100"
  shows "length (rq_Body (client_request meth [v] JNull)) \<le> body_limit"
  using assms by (simp add: client_request_def EncodePayload_def bytes_of_string_def quote_plain plain_def body_limit_def)

section \<open>Properties\<close>

text \<open>
  C11: Every well-formed call of at most 1 MiB is answered with status 200, the protocol version
  and the identifier of the request, which comes back as it was sent (null, any valid string,
  any integer below \<open>2 ^ 53\<close> in size). An unknown method is answered with code -32601; a known
  one with a result, or with code -32602 or -32603. Of the state of the node, only the counter
  of requests changes, and with \<^verbatim>\<open>inso_verifyBlock\<close> the verification engine.
\<close>

theorem rpc_call_answered:
  assumes "valid_utf8 meth" "list_all printable params" "json_depth (JArr params) < max_nesting" "echo_id ident"
    and "length (rq_Body (client_request meth params ident)) \<le> body_limit"
  shows "\<exists>res e. handle env s o' (client_request meth params ident) = (res, (count_request s)\<lparr>srv_verification := e\<rparr>) \<and>
    (meth = ''inso_verifyBlock'' \<or> e = srv_verification s) \<and>
    (if meth \<in> set rpc_methods
     then (\<exists>v. res = encode_json 200 (JObj [(''id'', ident), (''jsonrpc'', JStr ''2.0''), (''result'', v)])) \<or>
       (\<exists>errcode msg. res = writeError ident errcode msg \<and> errcode \<in> {-32602, -32603})
     else res = writeError ident (-32601) ''method not found'')"
proof -
  let ?c = "\<lparr>cl_JSONRPC = ''2.0'', cl_Method = meth, cl_Params = Some (JArr params), cl_ID = ident\<rparr>"
  have p: "rq_Method (client_request meth params ident) = ''POST''" by (simp add: client_request_def)
  note h = handle_call [OF p read_client_request [OF assms], of env s o']
  have f: "meth = ''inso_verifyBlock'' \<or> snd (dispatch env (count_request s) o' ?c) = srv_verification s"
    using dispatch_frame [of ?c env "count_request s" o'] by auto
  have k: "(\<exists>v. fst (handle env s o' (client_request meth params ident)) =
        encode_json 200 (JObj [(''id'', ident), (''jsonrpc'', JStr ''2.0''), (''result'', v)])) \<or>
      (\<exists>errcode msg. fst (handle env s o' (client_request meth params ident)) = writeError ident errcode msg \<and> errcode \<in> {-32602, -32603})"
    if "meth \<in> set rpc_methods"
    using that dispatch_known [of ?c env "count_request s" o'] unfolding h(2)
    by (cases "fst (dispatch env (count_request s) o' ?c)") auto
  have u: "fst (handle env s o' (client_request meth params ident)) = writeError ident (-32601) ''method not found''"
    if "meth \<notin> set rpc_methods"
    using that dispatch_unknown [of ?c env "count_request s" o'] unfolding h(2) by simp
  show ?thesis
    using f k u h(1)
    by (intro exI [of _ "fst (handle env s o' (client_request meth params ident))"]
        exI [of _ "snd (dispatch env (count_request s) o' ?c)"]) (simp add: prod_eq_iff)
qed

theorem rpc_call_answered_witness:
  "fst (handle example_env example_server example_orders (client_request ''eth_call'' [JNum ''7''] JNull)) =
     writeError JNull (-32601) ''method not found''"
proof -
  have "length (rq_Body (client_request ''eth_call'' [JNum ''7''] JNull)) \<le> body_limit"
    by (rule example_request_length) (simp_all add: plain_def)
  moreover have "num_literal ''7''" using num_literal_decimal [of 7] by (simp add: decimal_digit)
  ultimately show ?thesis
    using rpc_call_answered [of "''eth_call''" "[JNum ''7'']" JNull example_env example_server example_orders]
    by (auto simp: valid_utf8_ascii echo_id_def max_nesting_def rpc_methods_def)
qed

text \<open>
  C33: A block number is accepted as a JSON number and as a hexadecimal string, with or without
  the prefix 0x: either form of a 64-bit number is read as that number. A longer hexadecimal
  number is not refused but cut to its low 64 bits (as the library implements \<^verbatim>\<open>big.Int.Uint64\<close>); a
  missing parameter, and parameters that are missing or of any JSON type but an array, are errors.
\<close>

theorem block_param_roundtrip:
  assumes "0 \<le> n" "k < length ps" "ps ! k = JStr (''0x'' @ hex_string n) \<or> ps ! k = JStr (hex_string n)"
  shows "parseUint64Param (Some (JArr ps)) k = Inr (word_of_int n) \<and>
    parseUint64Param (Some (JArr (ps[k := json_uint64 w]))) k = Inr w \<and>
    parseUint64Param (Some (JArr (take k ps))) k = Inl (MissingParam k) \<and>
    (\<forall>v. v \<noteq> JNull \<longrightarrow> (\<forall>vs. v \<noteq> JArr vs) \<longrightarrow> parseUint64Param (Some v) k = Inl ParamsNotArray) \<and>
    parseUint64Param (Some JNull) k = Inl (MissingParam k) \<and> parseUint64Param None k = Inl ParamsNotArray"
proof -
  have "take 2 (hex_string n) \<noteq> ''0x''"
  proof
    assume "take 2 (hex_string n) = ''0x''"
    then have "CHR ''x'' \<in> set (hex_string n)" by (metis in_set_takeD list.set_intros(1,2))
    then obtain d where "d < 16" "CHR ''x'' = hex_digit d" using hex_string_spec [OF assms(1)] by (auto simp: list_all_iff)
    then have "hex_val CHR ''x'' = Some d" by simp
    then show False by (simp add: hex_val_def is_digit_def)
  qed
  then show ?thesis
    using assms by (auto simp: parseUint64Param_def params_array_def dec_uint64_def dec_string_def trim_0x_def
        set_string16_hex big_uint64_def json_uint64_def split: json.split)
qed

theorem block_param_roundtrip_witness:
  "parseUint64Param (Some (JArr [JStr (''0x'' @ hex_string (2 ^ 64 + 5))])) 0 = Inr 5"
  using block_param_roundtrip [of "2 ^ 64 + 5" 0 "[JStr (''0x'' @ hex_string (2 ^ 64 + 5))]"] by (simp add: word_of_int_eq_iff)

text \<open>
  C34: A client can throw the verifier off the chain. Asking for the verification of a stored
  block without a claimed root moves the root of the node's own verification engine; the next
  block of the sequencer, which claims its right root, is then refused as a mismatch (when its
  root after the moved root is not by chance the same).
\<close>

theorem verify_request_moves_root:
  assumes "geth_ok (env_geth env)" "rq_Method r = ''POST''" "read_call r = Some c" "cl_Method c = ''inso_verifyBlock''"
    and "parseUint64Param (cl_Params c) 0 = Inr num" "GetBlock (srv_sync s) num = Some b" "bl_Number b \<noteq> 0" "bl_StateRoot b = []"
    and "bl_Number b' \<noteq> 0" "bl_StateRoot b' = HashHex (env_geth env) (next_root (stateRoot (srv_verification s)) b')" "bl_StateRoot b' \<noteq> []"
    and "next_root (next_root (stateRoot (srv_verification s)) b) b' \<noteq> next_root (stateRoot (srv_verification s)) b'"
  shows "vr_Valid (snd (VerifyBlock (env_geth env) (srv_verification s) b')) \<and>
    stateRoot (srv_verification (snd (handle env s o' r))) = next_root (stateRoot (srv_verification s)) b \<and>
    (\<exists>x. vr_Error (snd (VerifyBlock (env_geth env) (srv_verification (snd (handle env s o' r))) b')) = StateRootMismatch (bl_StateRoot b') x)"
proof -
  let ?g = "env_geth env" and ?r0 = "stateRoot (srv_verification s)"
  let ?r1 = "next_root ?r0 b" and ?e = "srv_verification (snd (handle env s o' r))"
  have e: "stateRoot ?e = ?r1"
    using assms(4-8) unfolding handle_call(1) [OF assms(2,3)]
    by (simp add: dispatch_def Let_def with_block_def VerifyBlock_def computeExpectedStateRoot_def next_root_def)
  have "\<not> vr_Valid (snd (VerifyBlock ?g ?e b'))" using other_root_refused [OF assms(1,10,11), of ?e] e assms(12) by metis
  moreover have "vr_Valid (snd (VerifyBlock ?g (srv_verification s) b'))" using assms(9,10) by (simp add: VerifyBlock_valid)
  ultimately show ?thesis
    using e assms(9,11) by (auto simp: VerifyBlock_def Let_def split: if_splits)
qed

text \<open>The second block with the root a sequencer claims for it that has not seen the first.\<close>

definition example_honest_block :: L2Block where
  "example_honest_block = (example_block 2)\<lparr>bl_StateRoot := HashHex example_geth (next_root (stateRoot NewVerifyEngine) (example_block 2))\<rparr>"

theorem verify_request_moves_root_witness:
  "stateRoot (srv_verification (snd (handle example_env example_server example_orders (client_request ''inso_verifyBlock'' [JNum ''1''] JNull)))) =
     next_root (stateRoot NewVerifyEngine) (example_block 1) \<and>
   (\<exists>x y. vr_Error (snd (VerifyBlock example_geth (srv_verification (snd (handle example_env example_server example_orders
       (client_request ''inso_verifyBlock'' [JNum ''1''] JNull)))) example_honest_block)) = StateRootMismatch x y)"
proof -
  have "length (rq_Body (client_request ''inso_verifyBlock'' [JNum ''1''] JNull)) \<le> body_limit"
    by (rule example_request_length) (simp_all add: plain_def)
  moreover have "num_literal ''1''" using num_literal_decimal [of 1] by (simp add: decimal_digit)
  ultimately have c: "read_call (client_request ''inso_verifyBlock'' [JNum ''1''] JNull) =
      Some \<lparr>cl_JSONRPC = ''2.0'', cl_Method = ''inso_verifyBlock'', cl_Params = Some (JArr [JNum ''1'']), cl_ID = JNull\<rparr>"
    by (intro read_client_request) (simp_all add: valid_utf8_ascii echo_id_def max_nesting_def)
  have "parseUint64Param (Some (JArr [JNum ''1''])) 0 = Inr 1"
    using parse_uint64_decimal [of 1] by (simp add: parseUint64Param_def params_array_def dec_uint64_def decimal_digit)
  then have n: "parseUint64Param (cl_Params \<lparr>cl_JSONRPC = ''2.0'', cl_Method = ''inso_verifyBlock'', cl_Params = Some (JArr [JNum ''1'']), cl_ID = JNull\<rparr>) 0 = Inr 1"
    by simp
  have s: "srv_verification example_server = NewVerifyEngine" "GetBlock (srv_sync example_server) 1 = Some (example_block 1)"
    by (simp_all add: example_server_def NewServer_def GetBlock_def)
  have g: "geth_ok (env_geth example_env)" by (simp add: example_env_def example_geth_ok)
  have b: "bl_StateRoot example_honest_block = HashHex (env_geth example_env) (next_root (stateRoot (srv_verification example_server)) example_honest_block)"
      "bl_StateRoot example_honest_block \<noteq> []"
    by (simp_all add: s example_env_def example_honest_block_def next_root_def root_preimage_def) (simp add: example_geth_def)
  have "next_root p example_honest_block = next_root p (example_block 2)" for p
    by (simp add: next_root_def root_preimage_def example_honest_block_def)
  then have d: "next_root (next_root (stateRoot (srv_verification example_server)) (example_block 1)) example_honest_block \<noteq>
      next_root (stateRoot (srv_verification example_server)) example_honest_block"
    using example_roots_differ by (simp add: s(1))
  have x: "env_geth example_env = example_geth" "bl_Number (example_block 1) = 1" "bl_StateRoot (example_block 1) = []" "bl_Number example_honest_block = 2"
    "rq_Method (client_request ''inso_verifyBlock'' [JNum ''1''] JNull) = ''POST''"
    by (simp_all add: example_env_def example_block_def example_honest_block_def client_request_def)
  show ?thesis
    using verify_request_moves_root [OF g x(5) c _ n s(2) _ x(3) _ b d, of example_orders] x by (auto simp: s(1))
qed

end
