(* ===== verification/RpcResponse.thy ===== *)
theory RpcResponse
  imports Rpc
begin

text \<open>
  Every answer of the RPC server is a JSON text: the values the handlers encode have number
  literals and few levels, and an identifier is echoed at the depth at which it was read.
\<close>

section \<open>Responses are JSON\<close>

text \<open>A value the encoder writes within a number of levels.\<close>

definition encodable :: "nat \<Rightarrow> json \<Rightarrow> bool" where
  "encodable n v \<longleftrightarrow> writable v \<and> json_depth v \<le> n"

lemma encodable_JArr [simp]: "encodable (Suc n) (JArr vs) \<longleftrightarrow> list_all (encodable n) vs"
  by (auto simp: encodable_def json_depth_le list_all_iff simp del: json_depth.simps)

lemma encodable_JObj [simp]: "encodable (Suc n) (JObj kvs) \<longleftrightarrow> list_all (\<lambda>(k, v). encodable n v) kvs"
  by (auto simp: encodable_def json_depth_le list_all_iff simp del: json_depth.simps)

lemma encodable_mono: "encodable m v \<Longrightarrow> m \<le> n \<Longrightarrow> encodable n v"
  by (simp add: encodable_def)

lemma encodable_flat [simp]:
  "encodable n JNull" "encodable n (JBool b)" "encodable n (JStr s)" "encodable n (JNum (decimal i))"
  "encodable n (json_uint64 w)" "encodable n (json_int j)" "encodable n (json_big k)"
  by (simp_all add: encodable_def json_uint64_def json_int_def json_big_def)

lemma encodable_minus_zero: "encodable n (JNum ''-0'')"
proof -
  have "num_literal ''-0''" by code_simp
  then show ?thesis by (simp add: encodable_def)
qed

lemma enc_float_encodable: "enc_float f = Some v \<Longrightarrow> encodable n v"
  by (auto simp: enc_float_def encodable_def split: float64.splits)

lemma put_key_set: "set (put_key k v kvs) \<subseteq> insert (k, v) (set kvs)"
  by (induction k v kvs rule: put_key.induct) auto

lemma any_value_encodable:
  "any_value v = Some w \<Longrightarrow> json_depth v \<le> n \<Longrightarrow> encodable n w"
  "any_values vs = Some ws \<Longrightarrow> \<forall>v \<in> set vs. json_depth v \<le> n \<Longrightarrow> list_all (encodable n) ws"
  "any_members kvs acc = Some kws \<Longrightarrow> \<forall>(k, v) \<in> set kvs. json_depth v \<le> n \<Longrightarrow>
    list_all (\<lambda>(k, v). encodable n v) acc \<Longrightarrow> list_all (\<lambda>(k, v). encodable n v) kws"
proof (induction v and vs and kvs acc arbitrary: n w and n ws and n kws rule: any_value_any_values_any_members.induct)
  case (2 vs)
  then obtain m where "n = Suc m" by (cases n) auto
  then show ?case using 2 by (auto simp: json_depth_le simp del: json_depth.simps)
next
  case (3 kvs)
  then obtain m where "n = Suc m" by (cases n) auto
  then show ?case using 3 by (auto simp: json_depth_le simp del: json_depth.simps)
next
  case (6 v vs)
  then show ?case by (auto split: bind_splits)
next
  case (8 k v kvs acc)
  from 8(3) obtain x where x: "any_value v = Some x" "any_members kvs (put_key k x acc) = Some kws" by (auto split: bind_splits)
  then have "list_all (\<lambda>(k, v). encodable n v) (put_key k x acc)"
    using 8(1) [OF x(1), of n] 8(4,5) put_key_set [of k x acc] by (fastforce simp: list_all_iff)
  then show ?case using 8(2) [OF x(1,2)] 8(4) by simp
qed (auto simp: Let_def intro: enc_float_encodable encodable_minus_zero split: if_splits)

lemma struct_field_invariant:
  assumes "struct_field dec name z kvs = Some x" "P z" "\<And>k v old y. (k, v) \<in> set kvs \<Longrightarrow> dec old v = Some y \<Longrightarrow> P y"
  shows "P x"
  using assms
proof (induction kvs arbitrary: z)
  case (Cons kv kvs)
  obtain k v where kv: "kv = (k, v)" by (cases kv)
  have rest: "\<And>z. struct_field dec name z kvs = Some x \<Longrightarrow> P z \<Longrightarrow> P x"
    using Cons.IH Cons.prems(3) by (metis list.set_intros(2))
  show ?case
    using Cons.prems(1,2) Cons.prems(3) [of k v z] rest unfolding kv by (auto simp: struct_field_Cons split: if_splits option.splits)
qed simp

text \<open>The scanner leaves room for the object around the identifier.\<close>

lemma call_id_encodable:
  assumes "read_call r = Some c"
  shows "encodable 9999 (cl_ID c)"
proof -
  obtain v kvs where v: "json_parse (string_of_bytes (take body_limit (rq_Body r))) = Some v" "object_of v = Some kvs"
    "fields_Call kvs = Some c"
    using assms by (auto simp: read_call_def unmarshal_def split: if_splits option.splits)
  have "\<forall>(k, v) \<in> set kvs. json_depth v \<le> 9999"
    using json_parse_depth [OF v(1)] v(2) json_depth_le(2) [of kvs 9999]
    by (auto simp: object_of_def max_nesting_def simp del: json_depth.simps split: json.splits)
  moreover obtain ident where "struct_field dec_any ''id'' JNull kvs = Some ident" "cl_ID c = ident"
    using v(3) by (auto simp: fields_Call_def split: bind_splits)
  ultimately show ?thesis
    using struct_field_invariant [of dec_any "''id''" JNull kvs "cl_ID c" "encodable 9999"] any_value_encodable(1)
    by (fastforce simp: dec_any_def)
qed

lemma enc_list_encodable:
  "enc_list enc xs = Some v \<Longrightarrow> (\<And>x w. enc x = Some w \<Longrightarrow> encodable n w) \<Longrightarrow> encodable (Suc n) v"
proof -
  have "list_all (encodable n) ws" if "dec_list enc xs = Some ws" "\<And>x w. enc x = Some w \<Longrightarrow> encodable n w" for ws
    using that by (induction xs arbitrary: ws) (auto split: option.splits)
  then show "enc_list enc xs = Some v \<Longrightarrow> (\<And>x w. enc x = Some w \<Longrightarrow> encodable n w) \<Longrightarrow> encodable (Suc n) v"
    by (auto simp: enc_list_def)
qed

lemma error_field_encodable [simp]: "list_all (\<lambda>(k, v). encodable n v) (error_field tx e)"
  by (simp add: error_field_def Let_def)

lemma enc_encodable [simp]:
  "encodable (Suc n) (enc_Peer p)" "encodable (Suc n) (enc_Stake tx st)" "encodable (Suc n) (enc_VerifyResult tx vr)"
  "encodable (Suc n) (enc_LaneResult tx lr)" "encodable (Suc n) (enc_ReceiptResult tx rr)" "encodable (Suc n) (enc_AdaptiveResult tx ar)"
  "encodable (Suc n) (status_map env s o')" "encodable (Suc n) (sync_map env s)"
  by (simp_all add: enc_Peer_def enc_Stake_def enc_VerifyResult_def enc_LaneResult_def enc_ReceiptResult_def enc_AdaptiveResult_def
      status_map_def sync_map_def)

lemma enc_option_encodable:
  "enc_ValidatorInfo tx vi = Some v \<Longrightarrow> encodable (Suc n) v"
  "enc_Reputation tx rep = Some w \<Longrightarrow> encodable (Suc n) w"
  by (auto simp: enc_ValidatorInfo_def enc_Reputation_def enc_float_encodable split: bind_splits)

lemma dispatch_encodable:
  assumes "fst (dispatch env s o' c) = Inr (Some v)"
  shows "encodable 2 v"
proof -
  have n2: "(2 :: nat) = Suc (Suc 0)" by simp
  have l: "encodable 2 w" if "enc_list (enc_ValidatorInfo tx) xs = Some w \<or> enc_list (enc_Reputation tx) ys = Some w" for tx xs ys w
    using that enc_list_encodable [where enc = "enc_ValidatorInfo tx"] enc_list_encodable [where enc = "enc_Reputation tx"]
      enc_option_encodable unfolding n2 by metis
  show ?thesis
    using assms l enc_option_encodable(2) [of _ _ v 1]
    by (auto simp: n2 dispatch_def with_block_def Let_def list_all_iff simp del: One_nat_def split: option.splits sum.splits prod.splits if_splits)
qed

text \<open>The object of a JSON-RPC response: a result, or an error with one of the standard codes.\<close>

definition rpc_envelope :: "json \<Rightarrow> (string \<times> json) list \<Rightarrow> bool" where
  "rpc_envelope ident kvs \<longleftrightarrow>
     (\<exists>v. kvs = [(''id'', ident), (''jsonrpc'', JStr ''2.0''), (''result'', v)]) \<or>
     (\<exists>errcode msg. errcode \<in> {-32700, -32601, -32602, -32603} \<and>
        kvs = [(''error'', JObj [(''code'', JNum (decimal errcode)), (''message'', JStr msg)]), (''id'', ident), (''jsonrpc'', JStr ''2.0'')])"

lemma parse_encoded:
  assumes "list_all (\<lambda>(k, v). encodable 9999 v) kvs"
  shows "json_parse (rs_Body (encode_json status (JObj kvs))) = Some (json_read (JObj kvs))"
proof -
  have "is_space newline" by (simp add: is_space_def newline_def)
  moreover have "encodable (Suc 9999) (JObj kvs)" using assms by (simp only: encodable_JObj)
  then have "writable (JObj kvs)" "json_depth (JObj kvs) \<le> max_nesting" by (simp_all add: encodable_def max_nesting_def)
  ultimately show ?thesis using json_parse_writable(2) [of "JObj kvs" newline] by (simp add: encode_json_def)
qed

lemma valid_tags [simp]:
  "valid_text ''id'' = ''id''" "valid_text ''jsonrpc'' = ''jsonrpc''" "valid_text ''result'' = ''result''" "valid_text ''2.0'' = ''2.0''"
  "valid_text ''error'' = ''error''" "valid_text ''code'' = ''code''" "valid_text ''message'' = ''message''"
  by (simp_all add: valid_text_id valid_utf8_ascii)

lemma dispatch_code:
  "fst (dispatch env s o' c) = Inl (errcode, msg) \<Longrightarrow> errcode \<in> {-32601, -32602, -32603}"
  using dispatch_known [of c env s o' errcode msg] dispatch_unknown [of c env s o']
  by (cases "cl_Method c \<in> set rpc_methods") auto

lemma parse_error_response:
  assumes "encodable 9999 ident" "errcode \<in> {-32700, -32601, -32602, -32603}"
  shows "\<exists>kvs. json_parse (rs_Body (writeError ident errcode msg)) = Some (JObj kvs) \<and> rpc_envelope (json_read ident) kvs"
proof -
  have "encodable (Suc 0) (JObj [(''code'', JNum (decimal errcode)), (''message'', JStr msg)])" by simp
  then have "encodable 9999 (JObj [(''code'', JNum (decimal errcode)), (''message'', JStr msg)])" by (rule encodable_mono) simp
  then have "json_parse (rs_Body (writeError ident errcode msg)) = Some (JObj [(''error'',
      JObj [(''code'', JNum (decimal errcode)), (''message'', JStr (valid_text msg))]), (''id'', json_read ident), (''jsonrpc'', JStr ''2.0'')])"
    unfolding writeError_def using assms(1) by (subst parse_encoded) simp_all
  then show ?thesis using assms(2) unfolding rpc_envelope_def by blast
qed

lemma parse_result_response:
  assumes "encodable 9999 ident" "encodable 2 v"
  shows "json_parse (rs_Body (encode_json 200 (JObj [(''id'', ident), (''jsonrpc'', JStr ''2.0''), (''result'', v)]))) =
    Some (JObj [(''id'', json_read ident), (''jsonrpc'', JStr ''2.0''), (''result'', json_read v)])"
proof -
  have "encodable 9999 v" using assms(2) by (rule encodable_mono) simp
  then show ?thesis using assms(1) by (subst parse_encoded) simp_all
qed

lemma handle_response:
  assumes "rq_Method r = ''POST''"
  shows "rs_Status (fst (handle env s o' r)) = 200 \<and> (\<exists>kvs. json_parse (rs_Body (fst (handle env s o' r))) = Some (JObj kvs) \<and>
    rpc_envelope (case read_call r of None \<Rightarrow> JNull | Some c \<Rightarrow> json_read (cl_ID c)) kvs)"
proof (cases "read_call r")
  case None
  then have "fst (handle env s o' r) = writeError JNull (-32700) ''parse error''" using assms by (simp add: handle_def Let_def)
  then show ?thesis using parse_error_response [of JNull "-32700" "''parse error''"] None by (simp add: writeError_def encode_json_def)
next
  case (Some c)
  note h = handle_call(2) [OF assms Some, of env s o'] and e = call_id_encodable [OF Some]
  show ?thesis
  proof (cases "fst (dispatch env (count_request s) o' c)")
    case (Inl em)
    obtain errcode msg where em: "em = (errcode, msg)" by (cases em)
    have r: "fst (handle env s o' r) = writeError (cl_ID c) errcode msg" using h Inl em by simp
    have "errcode \<in> {-32700, -32601, -32602, -32603}" using dispatch_code [of env "count_request s" o' c errcode msg] Inl em by blast
    from parse_error_response [OF e this, of msg] show ?thesis using r Some by (simp add: writeError_def encode_json_def)
  next
    case (Inr result)
    define v where "v = (case result of None \<Rightarrow> JNull | Some v \<Rightarrow> v)"
    have "encodable 2 v" using dispatch_encodable Inr unfolding v_def by (cases result) auto
    moreover have "fst (handle env s o' r) = encode_json 200 (JObj [(''id'', cl_ID c), (''jsonrpc'', JStr ''2.0''), (''result'', v)])"
      using h Inr by (simp add: v_def)
    ultimately show ?thesis using parse_result_response [OF e, of v] Some by (simp add: rpc_envelope_def) (simp add: encode_json_def)
  qed
qed

lemma moved_mux: "rpc_mux meth path = Moved p \<Longrightarrow> \<exists>h. rpc_mux meth p = Handler h"
  using cleanPath_star [of path] by (auto simp: rpc_mux_def ServeMux_def Let_def split: if_splits list.splits option.splits)

text \<open>
  C12: Whatever a client sends, the answer is well formed. A POST request of any bytes to the RPC
  endpoint (the root, and every clean path but the two pages) is answered with status 200 and a text
  that any JSON reader accepts, an object with the protocol version, the identifier of the request (null
  when the request cannot be read) and either a result or an error with a standard code; another method
  is answered with status 405, the health and readiness pages with JSON objects and status 200 or 503.
  No request makes the server nest its answer deeper than a reader allows. A path that is not
  clean is redirected, to one that has a handler; what remains are requests for \<^verbatim>\<open>*\<close> and a
  CONNECT without a path.
\<close>

theorem response_is_json:
  "rpc_mux (rq_Method r) ''/'' = Handler ToHandle \<and>
   (let res = fst (route env s o' path r) in case rpc_mux (rq_Method r) path of
      Handler ToHandle \<Rightarrow>
        if rq_Method r = ''POST''
        then rs_Status res = 200 \<and> (\<exists>kvs. json_parse (rs_Body res) = Some (JObj kvs) \<and>
          rpc_envelope (case read_call r of None \<Rightarrow> JNull | Some c \<Rightarrow> json_read (cl_ID c)) kvs)
        else rs_Status res = 405
    | Handler _ \<Rightarrow> rs_Status res \<in> {200, 503} \<and> (\<exists>kvs. json_parse (rs_Body res) = Some (JObj kvs))
    | Moved p \<Rightarrow> rs_Status res = 301 \<and> cleanPath p = p \<and> (\<exists>h. rpc_mux (rq_Method r) p = Handler h)
    | Missing \<Rightarrow> rs_Status res = 404 \<and> rq_Method r = ''CONNECT'' \<and> path = []
    | _ \<Rightarrow> path = ''*'' \<and> rs_Status res \<in> {200, 400} \<and> rs_Body res = [])"
proof -
  have j: "\<exists>kvs. json_parse (rs_Body (rpc_handleHealth env s o')) = Some (JObj kvs)"
    "\<exists>kvs. json_parse (rs_Body (handleReady env s o')) = Some (JObj kvs)"
    unfolding rpc_handleHealth_def handleReady_def Let_def by (simp_all add: parse_encoded del: json_read.simps) (simp_all add: json_read.simps)
  have h: "rs_Status (rpc_handleHealth env s o') = 200" by (simp add: rpc_handleHealth_def encode_json_def)
  have 405: "rq_Method r \<noteq> ''POST'' \<Longrightarrow> rs_Status (fst (handle env s o' r)) = 405" by (simp add: handle_def Let_def)
  have root: "rpc_mux (rq_Method r) ''/'' = Handler ToHandle"
    by (simp add: rpc_mux_def ServeMux_def cleanPath_def path_Clean_def clean_step_def join_path_def pathUnescape_def)
  show ?thesis
  proof (cases "rpc_mux (rq_Method r) path")
    case (Handler x)
    then show ?thesis using j h 405 root handle_response [of r env s o'] by (cases x) (auto simp: route_def handleReady_status)
  next
    case (Moved p)
    moreover have "cleanPath p = p" using Moved by (auto simp: rpc_mux_def ServeMux_def Let_def split: if_splits list.splits option.splits)
    ultimately show ?thesis using moved_mux root by (auto simp: route_def)
  qed (use root in \<open>auto simp: route_def\<close>, auto simp: rpc_mux_def ServeMux_def Let_def cleanPath_star split: if_splits list.splits option.splits)
qed

end
