(* ===== verification/Node.thy ===== *)
theory Node
  imports Rpc
begin

text \<open>
  The validator, \<^verbatim>\<open>cmd/validator/main.go\<close>: how the components are built from the configuration,
  the statements of \<^verbatim>\<open>main\<close> one by one, from the start of the services to the end of the
  process, and what happens to a block the sync engine has stored. A goroutine is a program
  counter in the state; theory Goroutines interleaves them.
\<close>

section \<open>The state\<close>

text \<open>
  A stored block on its way through the callback, which runs outside the lock of the sync
  engine: before the gauges of the sync engine, before \<^verbatim>\<open>VerifyBlock\<close> reads the state root,
  before it writes the new one, before the attestation.
\<close>

datatype callback =
    Stored L2Block
  | Gauged L2Block
  | Matched L2Block hash
  | Verified L2Block

fun cb_block :: "callback \<Rightarrow> L2Block" where
  "cb_block (Stored b) = b"
| "cb_block (Gauged b) = b"
| "cb_block (Matched b r) = b"
| "cb_block (Verified b) = b"

text \<open>The gossip listener, and the poll loop with the next number and the last one of its round.\<close>

datatype listener = ListenerOff | ListenerIdle | ListenerBusy callback

datatype poller = PollerOff | PollerIdle | PollerRound uint64 uint64 "callback option"

text \<open>
  An RPC request in flight: received and not yet handled, or about to write the state root it
  has computed.
\<close>

datatype in_flight = Received string Request | RootRead hash

text \<open>The next statement of \<^verbatim>\<open>main\<close>.\<close>

datatype main_pc =
    StartNet | StartSync | StartConsensus | StartRpc | ServeMetrics
  | WireSync | WireVerify | WireConsensus | WireRpc | SeedPeers | SeedStake
  | WaitSignal | CancelAll | StopNet | StopSync | StopConsensus | StopRpc | Exited

record Node =
  nd_cfg :: Config
  nd_network :: Network
  nd_sync :: SyncEngine
  nd_verification :: VerifyEngine
  nd_consensus :: ConsensusEngine
  nd_staking :: StakingManager
  nd_rep :: ReputationManager
  nd_metrics :: "Metrics option"
  nd_rpcMetrics :: bool
  nd_httpServer :: "bool option"
  nd_bounds :: AdaptiveBlockBounds
  nd_listener :: listener
  nd_poller :: poller
  nd_loop :: bool
  nd_pending :: "in_flight list"
  nd_cancelled :: bool
  nd_main :: main_pc

section \<open>Start-up\<close>

datatype startup_error = ConfigFailed config_error | BadKeyHex | BadKey | StakeFailed staking_error

definition default_key :: string where
  "default_key = ''7c852118294e51e653712a81e05800f419141751be58f605c371e15141b007a6''"

text \<open>\<^verbatim>\<open>hex.DecodeString\<close>.\<close>

fun hex_decode :: "string \<Rightarrow> bytes option" where
  "hex_decode [] = Some []"
| "hex_decode [a] = None"
| "hex_decode (a # b # s) = hex_val a \<bind> (\<lambda>x. hex_val b \<bind> (\<lambda>y. hex_decode s \<bind> (\<lambda>bs.
     Some (word_of_nat (16 * x + y) # bs))))"

definition key_bytes :: "string \<Rightarrow> bytes option" where
  "key_bytes env = hex_decode (trim_0x (if env = [] then default_key else env))"

definition rep_config :: "Config \<Rightarrow> XPConfig" where
  "rep_config cfg = (let s = cfg_Sovereignty cfg in
     \<lparr>MaxXP = 100000, BlockAttestationXP = sov_AttestationXP s, UptimeBonusXP = sov_UptimeBonusXP s,
      SlashPenaltyXP = sov_SlashPenaltyXP s, DecayRatePerDay = sov_XPDecayRate s\<rparr>)"

definition adaptive_bounds :: "Config \<Rightarrow> AdaptiveBlockBounds" where
  "adaptive_bounds cfg = (let a = cfg_AdaptiveBlock cfg in
     if ab_Enabled a then \<lparr>bd_MinGasLimit = ab_MinGasLimit a, bd_MaxGasLimit = ab_MaxGasLimit a,
       bd_MinMaxTx = ab_MinMaxTx a, bd_MaxMaxTx = ab_MaxMaxTx a\<rparr> else DefaultAdaptiveBounds)"

text \<open>\<^verbatim>\<open>int64\<close> of the configured minimum, in whole coins.\<close>

definition initial_stake :: "Config \<Rightarrow> big_int" where
  "initial_stake cfg = sint (MinStake (cfg_Validator cfg)) * 10 ^ 18"

text \<open>
  Everything before the services start. \<^verbatim>\<open>crypto.ToECDSA\<close> is a parameter; \<open>clock\<close> gives the
  successive readings of the time. \<^verbatim>\<open>RegisterValidator\<close> has no error result, so its error
  branch is never taken.
\<close>

definition new_node ::
    "Geth \<Rightarrow> (bytes \<Rightarrow> bytes option) \<Rightarrow> Config \<Rightarrow> string \<Rightarrow> (nat \<Rightarrow> Conn) \<Rightarrow> (nat \<Rightarrow> go_time) \<Rightarrow> (startup_error, Node) go_result" where
  "new_node g toECDSA cfg envKey conns clock = (case key_bytes envKey of
     None \<Rightarrow> Err BadKeyHex
   | Some kb \<Rightarrow> (case toECDSA kb of
       None \<Rightarrow> Err BadKey
     | Some key \<Rightarrow>
         (let addr = PubkeyToAddress g (PublicKey g key);
              rep = RegisterReputation (NewReputationManager (Some (rep_config cfg))) addr (clock 0) (clock 1);
              consensus = NewConsensusEngine (cfg_Consensus cfg) addr key
          in case RegisterStake (NewStakingManager (MinStake (cfg_Validator cfg))) addr (initial_stake cfg) (clock 2) of
               Err e \<Rightarrow> Err (StakeFailed e)
             | Panic p \<Rightarrow> Panic p
             | Ok staking \<Rightarrow>
                 (case RegisterValidator consensus (Some rep) addr (initial_stake cfg) (round64 (8 / 10)) (clock 3) (clock 4) of
                    Panic p \<Rightarrow> Panic p
                  | Err e \<Rightarrow> Err BadKey
                  | Ok (consensus', rep') \<Rightarrow> Ok
                      \<lparr>nd_cfg = cfg, nd_network = NewNetwork (cfg_Validator cfg) conns, nd_sync = OnNewBlock (NewSyncEngine (cfg_Sequencer cfg)),
                       nd_verification = NewVerifyEngine, nd_consensus = consensus', nd_staking = staking,
                       nd_rep = (case rep' of None \<Rightarrow> rep | Some m \<Rightarrow> m), nd_metrics = None, nd_rpcMetrics = False,
                       nd_httpServer = None, nd_bounds = adaptive_bounds cfg, nd_listener = ListenerOff, nd_poller = PollerOff,
                       nd_loop = False, nd_pending = [], nd_cancelled = False, nd_main = StartNet\<rparr>))))"

text \<open>Everything before the services: the configuration file, the key of the environment, the components.\<close>

definition boot ::
    "(string \<Rightarrow> string option) \<Rightarrow> (string \<Rightarrow> string) \<Rightarrow> (string \<Rightarrow> Config \<Rightarrow> Config option) \<Rightarrow> string \<Rightarrow>
      Geth \<Rightarrow> (bytes \<Rightarrow> bytes option) \<Rightarrow> (nat \<Rightarrow> Conn) \<Rightarrow> (nat \<Rightarrow> go_time) \<Rightarrow> (startup_error, Node) go_result" where
  "boot fs env yaml path g toECDSA conns clock = (case Load fs env yaml path of
     Err e \<Rightarrow> Err (ConfigFailed e)
   | Panic p \<Rightarrow> Panic p
   | Ok cfg \<Rightarrow> new_node g toECDSA cfg (env ''INSO_VALIDATOR_KEY'') conns clock)"

section \<open>The services\<close>

definition server_of :: "Node \<Rightarrow> Server" where
  "server_of n = (SetSequencerConfig (SetReputation
     (NewServer (cfg_Validator (nd_cfg n)) (nd_consensus n) (nd_sync n) (nd_verification n) (nd_staking n) (nd_network n))
     (nd_rep n)) (cfg_Sequencer (nd_cfg n)))
     \<lparr>srv_metrics := (if nd_rpcMetrics n then nd_metrics n else None), srv_httpServer := nd_httpServer n\<rparr>"

text \<open>The collector after a component that may hold it has changed it.\<close>

definition put_metrics :: "Metrics option \<Rightarrow> Node \<Rightarrow> Node" where
  "put_metrics m n = (case m of None \<Rightarrow> n | Some x \<Rightarrow> n\<lparr>nd_metrics := Some x\<rparr>)"

text \<open>
  One statement of \<^verbatim>\<open>main\<close>. When the network cannot listen (\<open>bound\<close>), the process exits. \<open>WaitSignal\<close> is
  left when the signal arrives. Cancelling the context of \<^verbatim>\<open>main\<close> ends the contexts derived from it.
  The last statement stops the RPC server and waits for the requests in flight, until the
  deadline of ten seconds has passed (\<open>expired\<close>); whether it fails is only logged.
\<close>

definition main_step :: "bool \<Rightarrow> bool \<Rightarrow> string list \<Rightarrow> Node \<Rightarrow> Node" where
  "main_step bound expired ks n = (case nd_main n of
     StartNet \<Rightarrow> (case StartNetwork (nd_network n) bound of
         Ok w \<Rightarrow> n\<lparr>nd_network := w, nd_main := StartSync\<rparr>
       | _ \<Rightarrow> n\<lparr>nd_main := Exited\<rparr>)
   | StartSync \<Rightarrow> n\<lparr>nd_sync := StartSyncEngine (nd_sync n), nd_listener := ListenerIdle, nd_poller := PollerIdle,
       nd_main := StartConsensus\<rparr>
   | StartConsensus \<Rightarrow> n\<lparr>nd_consensus := StartConsensusEngine (nd_consensus n), nd_loop := True, nd_main := StartRpc\<rparr>
   | StartRpc \<Rightarrow> n\<lparr>nd_httpServer := srv_httpServer (StartServer (server_of n)), nd_main := ServeMetrics\<rparr>
   | ServeMetrics \<Rightarrow> n\<lparr>nd_metrics := Some NewMetrics, nd_main := WireSync\<rparr>
   | WireSync \<Rightarrow> n\<lparr>nd_sync := SetSyncMetrics (nd_sync n), nd_main := WireVerify\<rparr>
   | WireVerify \<Rightarrow> n\<lparr>nd_verification := SetVerifyMetrics (nd_verification n), nd_main := WireConsensus\<rparr>
   | WireConsensus \<Rightarrow> n\<lparr>nd_consensus := SetConsensusMetrics (nd_consensus n), nd_main := WireRpc\<rparr>
   | WireRpc \<Rightarrow> n\<lparr>nd_rpcMetrics := True, nd_main := SeedPeers\<rparr>
   | SeedPeers \<Rightarrow> n\<lparr>nd_metrics := map_option (\<lambda>m. m\<lparr>mt_PeerCount := word_of_nat (PeerCount (nd_network n) ks)\<rparr>) (nd_metrics n),
       nd_main := SeedStake\<rparr>
   | SeedStake \<Rightarrow> n\<lparr>nd_metrics := map_option (\<lambda>m. m\<lparr>mt_StakedAmountWei := MinStake (cfg_Validator (nd_cfg n))\<rparr>) (nd_metrics n),
       nd_main := WaitSignal\<rparr>
   | WaitSignal \<Rightarrow> n\<lparr>nd_main := CancelAll\<rparr>
   | CancelAll \<Rightarrow> n\<lparr>nd_cancelled := True, nd_network := (nd_network n)\<lparr>net_cancelled := True\<rparr>, nd_main := StopNet\<rparr>
   | StopNet \<Rightarrow> n\<lparr>nd_network := StopNetwork (nd_network n) ks, nd_main := StopSync\<rparr>
   | StopSync \<Rightarrow> n\<lparr>nd_sync := StopSyncEngine (nd_sync n), nd_main := StopConsensus\<rparr>
   | StopConsensus \<Rightarrow> n\<lparr>nd_consensus := StopConsensusEngine (nd_consensus n), nd_main := StopRpc\<rparr>
   | StopRpc \<Rightarrow> (case StopServer (server_of n) (length (nd_pending n)) expired of
       (res, s) \<Rightarrow> n\<lparr>nd_httpServer := srv_httpServer s, nd_main := (if res = StillWaiting then StopRpc else Exited)\<rparr>)
   | Exited \<Rightarrow> n)"

text \<open>The context of an engine is done when \<^verbatim>\<open>main\<close> or the engine has cancelled it.\<close>

definition ctx_done :: "Node \<Rightarrow> bool option \<Rightarrow> bool" where
  "ctx_done n cancel \<longleftrightarrow> nd_cancelled n \<or> cancel = Some True"

section \<open>The callback\<close>

definition gauge_block :: "http_post \<Rightarrow> L2Block \<Rightarrow> Node \<Rightarrow> Node" where
  "gauge_block post b n =
     put_metrics (sync_metrics post (nd_sync n) b (if se_metrics (nd_sync n) then nd_metrics n else None)) n"

definition attest_block :: "Geth \<Rightarrow> string list \<Rightarrow> go_time \<Rightarrow> go_time \<Rightarrow> L2Block \<Rightarrow> Node \<Rightarrow> Node" where
  "attest_block g ks now now' b n =
     (let sh = \<lparr>sh_network = nd_network n, sh_rep = Some (nd_rep n), sh_metrics = (if ce_metrics (nd_consensus n) then nd_metrics n else None)\<rparr>
      in case AttestBlock g (nd_consensus n) sh ks (bl_Number b) (HexToHash g (bl_Hash b)) now now' of (att, c, sh') \<Rightarrow>
        put_metrics (sh_metrics sh') (n\<lparr>nd_consensus := c, nd_network := sh_network sh',
          nd_rep := (case sh_rep sh' of None \<Rightarrow> nd_rep n | Some m \<Rightarrow> m)\<rparr>))"

text \<open>The callback as one piece: the bounds of adaptive blocks are checked, but only logged.\<close>

definition on_new_block ::
    "Geth \<Rightarrow> Node \<Rightarrow> string list \<Rightarrow> go_time \<Rightarrow> go_time \<Rightarrow> L2Block \<Rightarrow> Node \<times> log_event list" where
  "on_new_block g n ks now now' block = (case VerifyBlock g (nd_verification n) block of (v, result) \<Rightarrow>
     if \<not> vr_Valid result then
       (n\<lparr>nd_verification := v\<rparr>, [LogWarn ''Block verification failed'' (error_text [] (vr_Error result))])
     else
       (let adaptive = VerifyAdaptiveBlock block (nd_bounds n)
        in (attest_block g ks now now' block (n\<lparr>nd_verification := v\<rparr>),
            if av_Valid adaptive then [] else [LogWarn ''Adaptive block check failed'' (error_text [] (av_Error adaptive))])))"

text \<open>
  The callback in its steps: \<^verbatim>\<open>VerifyBlock\<close> has no lock, so the reading of the state root and the
  writing of the new one are two; \<^verbatim>\<open>AttestBlock\<close> holds the lock of the consensus engine and is one.
  The result is the node and what is left of the callback.
\<close>

definition callback_step ::
    "Geth \<Rightarrow> http_post \<Rightarrow> string list \<Rightarrow> go_time \<Rightarrow> go_time \<Rightarrow> callback \<Rightarrow> Node \<Rightarrow> Node \<times> callback option" where
  "callback_step g post ks now now' cb n = (case cb of
     Stored b \<Rightarrow> (gauge_block post b n, if se_onNewBlock (nd_sync n) then Some (Gauged b) else None)
   | Gauged b \<Rightarrow> (case VerifyBlock g (nd_verification n) b of
       (v, result) \<Rightarrow> (n, if vr_Valid result then Some (Matched b (stateRoot v)) else None))
   | Matched b r \<Rightarrow> (n\<lparr>nd_verification := (nd_verification n)\<lparr>stateRoot := r\<rparr>\<rparr>, Some (Verified b))
   | Verified b \<Rightarrow> (attest_block g ks now now' b n, None))"

text \<open>What follows the storing of a block, undisturbed: the gauges, then the callback.\<close>

definition run_callback ::
    "Geth \<Rightarrow> http_post \<Rightarrow> string list \<Rightarrow> go_time \<Rightarrow> go_time \<Rightarrow> L2Block \<Rightarrow> Node \<Rightarrow> Node" where
  "run_callback g post ks now now' block n = fst (on_new_block g (gauge_block post block n) ks now now' block)"

section \<open>The parts of a node a step leaves alone\<close>

lemma put_metrics_frame [simp]:
  "nd_cfg (put_metrics m n) = nd_cfg n" "nd_network (put_metrics m n) = nd_network n" "nd_sync (put_metrics m n) = nd_sync n"
  "nd_verification (put_metrics m n) = nd_verification n" "nd_consensus (put_metrics m n) = nd_consensus n"
  "nd_bounds (put_metrics m n) = nd_bounds n" "nd_listener (put_metrics m n) = nd_listener n" "nd_poller (put_metrics m n) = nd_poller n"
  "nd_loop (put_metrics m n) = nd_loop n" "nd_httpServer (put_metrics m n) = nd_httpServer n" "nd_pending (put_metrics m n) = nd_pending n"
  "nd_cancelled (put_metrics m n) = nd_cancelled n" "nd_main (put_metrics m n) = nd_main n"
  by (simp_all add: put_metrics_def split: option.split)

lemma gauge_block_frame [simp]:
  "nd_network (gauge_block post b n) = nd_network n" "nd_sync (gauge_block post b n) = nd_sync n"
  "nd_verification (gauge_block post b n) = nd_verification n" "nd_consensus (gauge_block post b n) = nd_consensus n"
  "nd_bounds (gauge_block post b n) = nd_bounds n" "nd_listener (gauge_block post b n) = nd_listener n"
  "nd_poller (gauge_block post b n) = nd_poller n" "nd_loop (gauge_block post b n) = nd_loop n"
  "nd_pending (gauge_block post b n) = nd_pending n" "nd_cancelled (gauge_block post b n) = nd_cancelled n"
  "nd_main (gauge_block post b n) = nd_main n" "nd_httpServer (gauge_block post b n) = nd_httpServer n"
  by (simp_all add: gauge_block_def)

lemma attest_block_frame [simp]:
  "nd_sync (attest_block g ks now now' b n) = nd_sync n" "nd_verification (attest_block g ks now now' b n) = nd_verification n"
  "nd_listener (attest_block g ks now now' b n) = nd_listener n" "nd_poller (attest_block g ks now now' b n) = nd_poller n"
  "nd_loop (attest_block g ks now now' b n) = nd_loop n" "nd_pending (attest_block g ks now now' b n) = nd_pending n"
  "nd_cancelled (attest_block g ks now now' b n) = nd_cancelled n" "nd_main (attest_block g ks now now' b n) = nd_main n"
  "nd_httpServer (attest_block g ks now now' b n) = nd_httpServer n"
  "ce_validators (nd_consensus (attest_block g ks now now' b n)) = ce_validators (nd_consensus n)"
  "ce_localAddr (nd_consensus (attest_block g ks now now' b n)) = ce_localAddr (nd_consensus n)"
  by (simp_all add: attest_block_def AttestBlock_def Let_def)

lemma attest_block_attestations:
  "attestations_of (nd_consensus (attest_block g ks now now' b n)) k = attestations_of (nd_consensus n) k @
     (if k = bl_Number b then [new_attestation g (nd_consensus n) k (HexToHash g (bl_Hash b)) now] else [])"
  by (auto simp: attest_block_def AttestBlock_def Let_def attestations_of_def)

lemma attest_block_peers:
  "net_peers (nd_network (attest_block g ks now now' b n)) = net_peers (fst (Broadcast (nd_network n) ks MsgAttestation
     (at_Signature (new_attestation g (nd_consensus n) (bl_Number b) (HexToHash g (bl_Hash b)) now))))"
  by (simp add: attest_block_def AttestBlock_def Let_def)

text \<open>The steps of a callback no one else disturbs are the callback.\<close>

lemma callback_steps:
  assumes "se_onNewBlock (nd_sync n)" "callback_step g post ks now now' (Stored b) n = (n1, cb1)"
  shows "cb1 = Some (Gauged b)"
    and "\<not> vr_Valid (snd (VerifyBlock g (nd_verification n) b)) \<Longrightarrow>
      callback_step g post ks now now' (Gauged b) n1 = (run_callback g post ks now now' b n, None)"
    and "vr_Valid (snd (VerifyBlock g (nd_verification n) b)) \<Longrightarrow>
      callback_step g post ks now now' (Gauged b) n1 = (n1, Some (Matched b (next_root (stateRoot (nd_verification n)) b)))"
    and "vr_Valid (snd (VerifyBlock g (nd_verification n) b)) \<Longrightarrow>
      callback_step g post ks now now' (Verified b) (fst (callback_step g post ks now now' (Matched b (next_root (stateRoot (nd_verification n)) b)) n1)) =
        (run_callback g post ks now now' b n, None)"
  using assms VerifyBlock_state [of g "nd_verification n" b]
  by (auto simp: callback_step_def run_callback_def on_new_block_def Let_def split: prod.splits)

section \<open>The built node\<close>

lemma sint_uint_less: "uint (w :: uint64) < 2 ^ 63 \<Longrightarrow> sint w = uint w"
  using uint_ge_0 [of w] unfolding sint_uint by (subst signed_take_bit_int_eq_self_iff) (auto intro: order_trans [of _ 0])

lemma sint_neg:
  assumes "2 ^ 63 \<le> uint (w :: uint64)"
  shows "sint w < 0"
proof -
  have "sint w \<le> uint w - 2 ^ Suc 63"
    using signed_take_bit_int_less_eq [of 63 "uint w"] assms sint_uint [of w] by simp
  then show ?thesis using uint_bounded [of w] by simp
qed

lemma new_node_Ok:
  fixes g
  assumes "key_bytes envKey = Some kb" "toECDSA kb = Some key" "uint (MinStake (cfg_Validator cfg)) < 2 ^ 63"
  defines "addr \<equiv> PubkeyToAddress g (PublicKey g key)"
  shows "\<exists>n v. new_node g toECDSA cfg envKey conns clock = Ok n \<and> ce_validators (nd_consensus n) = [addr \<mapsto> v] \<and>
    ce_localAddr (nd_consensus n) = addr \<and> ce_attestations (nd_consensus n) = Map.empty \<and> ce_privateKey (nd_consensus n) = key \<and>
    nd_sync n = OnNewBlock (NewSyncEngine (cfg_Sequencer cfg)) \<and> nd_verification n = NewVerifyEngine \<and> nd_listener n = ListenerOff \<and>
    nd_poller n = PollerOff \<and> nd_loop n = False \<and> nd_pending n = [] \<and> nd_main n = StartNet \<and> nd_metrics n = None \<and> nd_network n = NewNetwork (cfg_Validator cfg) conns \<and> vi_IsActive v \<and> vi_Stake v = initial_stake cfg \<and>
    stakes (nd_staking n) = [addr \<mapsto> \<lparr>st_Validator = addr, st_Amount = initial_stake cfg, st_StakedAt = clock 2, st_IsActive = True,
      st_Rewards = 0, st_SlashCount = 0\<rparr>]"
  using assms(1,2) sint_uint_less [OF assms(3)]
  by (auto simp: new_node_def RegisterStake_def NewStakingManager_def initial_stake_def RegisterValidator_def stake_float_eq
      NewConsensusEngine_def addr_def Let_def split: prod.split)

lemma new_node_refused:
  assumes "key_bytes envKey = Some kb" "toECDSA kb = Some key" "2 ^ 63 \<le> uint (MinStake (cfg_Validator cfg))"
  shows "new_node g toECDSA cfg envKey conns clock =
    Err (StakeFailed (BelowMinimum (initial_stake cfg) (uint (MinStake (cfg_Validator cfg)) * 10 ^ 18)))"
  using assms(1,2) sint_neg [OF assms(3)] assms(3)
  by (simp add: new_node_def RegisterStake_def NewStakingManager_def initial_stake_def Let_def)

lemma taste_score: "valid_f64 (round64 (8 / 10))" "fle (Fin 0) (round64 (8 / 10))"
proof -
  have r: "round64 (8 / 10) = Fin (7205759403792794 / 9007199254740992)"
    using round64_eval [of "-1" "8 / 10" 7205759403792794] by (simp add: power_int_minus)
  have "is_f64 (7205759403792794 / 9007199254740992)"
    by (rule is_f64I [where k = 7205759403792794 and u = "-53"]) (simp_all add: power_int_minus)
  then show "valid_f64 (round64 (8 / 10))" "fle (Fin 0) (round64 (8 / 10))" unfolding r by simp_all
qed

lemma finite_power:
  assumes "1 \<le> (s :: rat)" "s \<le> 2 ^ 53" "fle (Fin s) v" "fle v (round64 (3 / 2 * s))"
  shows "\<exists>p. v = Fin p \<and> 1 \<le> p \<and> p \<le> 2 ^ 54"
proof -
  have "is_f64 (2 ^ 54)" by (rule is_f64I [where k = 1 and u = 54]) simp_all
  moreover have "3 / 2 * s \<le> 2 ^ 54" using assms(2) by simp
  ultimately have "between 0 (2 ^ 54) (round64 (3 / 2 * s))" using assms(1) by (intro round64_between) simp_all
  then obtain q where "round64 (3 / 2 * s) = Fin q" "q \<le> 2 ^ 54" by (auto elim: betweenE)
  then show ?thesis using assms(1,3,4) by (cases v) (auto simp: fle_def feq_def)
qed

lemma new_node_power:
  fixes g toECDSA cfg envKey conns clock n
  assumes "new_node g toECDSA cfg envKey conns clock = Ok n" "key_bytes envKey = Some kb" "toECDSA kb = Some key"
    and "0 < uint (MinStake (cfg_Validator cfg))" "uint (MinStake (cfg_Validator cfg)) \<le> 2 ^ 53"
    and "clock 0 \<le> clock 3" "clock 1 \<le> clock 3"
  shows "\<exists>v p. ce_validators (nd_consensus n) = [ce_localAddr (nd_consensus n) \<mapsto> v] \<and> vi_IsActive v \<and>
    vi_VotePower v = Fin p \<and> 1 \<le> p \<and> p \<le> 2 ^ 54"
proof -
  let ?w = "MinStake (cfg_Validator cfg)" and ?a = "PubkeyToAddress g (PublicKey g key)"
  let ?m = "RegisterReputation (NewReputationManager (Some (rep_config cfg))) ?a (clock 0) (clock 1)"
  have u: "sint ?w = uint ?w" using assms(5) by (intro sint_uint_less) simp
  have good: "reputation_good ?m (clock 3)"
    using assms(6,7) by (auto simp: reputation_good_def RegisterReputation_def NewReputationManager_def rep_config_def Let_def)
  obtain s t m' where c: "ComputeSovereignty ?m ?a (Fin (of_int (uint ?w))) (round64 (8 / 10)) (clock 3) = (s, t, m')"
    by (cases rule: prod_cases3)
  have i: "is_f64 (of_int (uint ?w))" using assms(5) by (intro is_f64_of_int) simp
  have b: "1 \<le> (of_int (uint ?w) :: rat)" "(of_int (uint ?w) :: rat) \<le> 2 ^ 53"
  proof -
    have "of_int 1 \<le> (of_int (uint ?w) :: rat)" "of_int (uint ?w) \<le> (of_int (2 ^ 53) :: rat)"
      using assms(4,5) by (simp_all only: of_int_le_iff)
    then show "1 \<le> (of_int (uint ?w) :: rat)" "(of_int (uint ?w) :: rat) \<le> 2 ^ 53" by simp_all
  qed
  obtain p where p: "vote_power (Fin (of_int (uint ?w))) s = Fin p" "1 \<le> p" "p \<le> 2 ^ 54"
    using rep.power_range [OF good taste_score i, of ?a "Fin (of_int (uint ?w))"] finite_power [OF b] c b(1) by auto
  have "ce_validators (nd_consensus n) = [ce_localAddr (nd_consensus n) \<mapsto>
     \<lparr>vi_Address = ?a, vi_Stake = uint ?w * 10 ^ 18, vi_TasteScore = round64 (8 / 10), vi_VotePower = Fin p,
      vi_SovereigntyScore = s, vi_SovereigntyTier = t, vi_IsActive = True, vi_SlashCount = 0, vi_JoinedAt = clock 4\<rparr>]"
    using assms(1-3) RegisterValidator_whole [OF _ assms(5) c] p(1) u
    by (auto simp: new_node_def initial_stake_def NewConsensusEngine_def Let_def split: go_result.splits)
  then show ?thesis using p by auto
qed

lemma IsFinalized_single:
  assumes "ce_validators e = [a \<mapsto> v]" "vi_IsActive v" "vi_VotePower v = Fin p" "1 \<le> p" "p \<le> 2 ^ 54"
    and "attestations_of e num = [att]" "at_Validator att = a"
  shows "fst (IsFinalized e [a] m num)"
proof -
  have "is_f64 (2 ^ 54)" by (rule is_f64I [where k = 1 and u = 54]) simp_all
  then have "between 1 (2 ^ 54) (round64 p)" using assms(4,5) by (intro round64_between) simp_all
  then obtain q where q: "round64 p = Fin q" "1 \<le> q" by (auto elim: betweenE)
  have "round64 1 = Fin 1" by (rule round64_exact) simp
  then show ?thesis
    using assms q by (simp add: IsFinalized_def total_power_def attested_power_def Let_def feq_def two_thirds)
qed

section \<open>Example\<close>

lemma example_key: "key_bytes [] \<noteq> None"
  by code_simp

definition example_start :: "(startup_error, Node) go_result" where
  "example_start = new_node example_geth Some DefaultConfig [] (\<lambda>_. example_conn) (\<lambda>_. 0)"

section \<open>Properties\<close>

text \<open>
  C27: Start-up. With a readable key the node starts exactly when the configured minimum stake is
  below \<open>2 ^ 63\<close> coins: a larger one is turned into a negative number and refused as too small.
  Then this node is the only registered validator, active and with the minimum as its stake, in
  the consensus engine and in the staking manager alike, and nothing is synced or attested.
\<close>

theorem startup:
  assumes "key_bytes envKey = Some kb" "toECDSA kb = Some key"
  shows "if uint (MinStake (cfg_Validator cfg)) < 2 ^ 63
    then \<exists>n v s. new_node g toECDSA cfg envKey conns clock = Ok n \<and> initial_stake cfg = uint (MinStake (cfg_Validator cfg)) * 10 ^ 18 \<and>
      ce_validators (nd_consensus n) = [PubkeyToAddress g (PublicKey g key) \<mapsto> v] \<and> vi_IsActive v \<and> vi_Stake v = initial_stake cfg \<and>
      stakes (nd_staking n) = [PubkeyToAddress g (PublicKey g key) \<mapsto> s] \<and> st_IsActive s \<and> st_Amount s = initial_stake cfg \<and>
      latestBlock (nd_sync n) = 0 \<and> ce_attestations (nd_consensus n) = Map.empty
    else \<exists>least. new_node g toECDSA cfg envKey conns clock = Err (StakeFailed (BelowMinimum (initial_stake cfg) least)) \<and> initial_stake cfg < 0"
proof (cases "uint (MinStake (cfg_Validator cfg)) < 2 ^ 63")
  case True
  then show ?thesis
    using new_node_Ok [where toECDSA = toECDSA, OF assms True, of g conns clock] sint_uint_less [OF True]
    by (fastforce simp: initial_stake_def NewSyncEngine_def OnNewBlock_def)
next
  case False
  then have "2 ^ 63 \<le> uint (MinStake (cfg_Validator cfg))" by simp
  then show ?thesis
    using False new_node_refused [where toECDSA = toECDSA, OF assms, of cfg g conns clock] sint_neg [of "MinStake (cfg_Validator cfg)"] by (simp add: initial_stake_def)
qed

theorem startup_witness:
  "\<exists>n. example_start = Ok n \<and> latestBlock (nd_sync n) = 0 \<and> initial_stake DefaultConfig = 10000 * 10 ^ 18"
proof -
  obtain kb where "key_bytes [] = Some kb" using example_key by blast
  then show ?thesis
    using startup [where toECDSA = Some, OF _ refl, of "[]" kb DefaultConfig example_geth "\<lambda>_. example_conn" "\<lambda>_. 0"]
    unfolding example_start_def by (auto simp: DefaultConfig_def)
qed

end
