(* ===== verification/Goroutines.thy ===== *)
theory Goroutines
  imports Node
begin

text \<open>
  The running process: an interleaving of \<^verbatim>\<open>main\<close>, the gossip listener, the poll loop, the
  consensus loop, the goroutines of the network and the RPC requests. Each rule is one step of
  one of them, up to the next point at which another goroutine can run: what is done under a
  lock is one step, the unlocked reading and writing of the state root are two. A goroutine
  whose context is done may still take what is ready, or end; when \<^verbatim>\<open>main\<close> returns, nothing moves.
\<close>

section \<open>Steps\<close>

text \<open>The listener's part of \<^verbatim>\<open>processBlock\<close> under the lock.\<close>

definition gossip_take :: "Message \<Rightarrow> Network \<Rightarrow> Node \<Rightarrow> Node" where
  "gossip_take msg w n =
     (if msg_Type msg = MsgNewBlock then
        (case DecodeBlockAnnounce (slice_bytes (msg_Payload msg)) of
           Ok a \<Rightarrow> (case commit_block (nd_sync n) (block_of_announce a) of
             (e, stored) \<Rightarrow> n\<lparr>nd_network := w, nd_sync := e,
                nd_listener := (if stored then ListenerBusy (Stored (block_of_announce a)) else ListenerIdle)\<rparr>)
         | _ \<Rightarrow> n\<lparr>nd_network := w\<rparr>)
      else n\<lparr>nd_network := w\<rparr>)"

definition poll_take :: "uint64 \<Rightarrow> uint64 \<Rightarrow> L2Block \<Rightarrow> Node \<Rightarrow> Node" where
  "poll_take num remote b n = (case commit_block (nd_sync n) b of
     (e, stored) \<Rightarrow> n\<lparr>nd_sync := e, nd_poller := PollerRound (num + 1) remote (if stored then Some (Stored b) else None)\<rparr>)"

definition listener_next :: "callback option \<Rightarrow> listener" where
  "listener_next cb = (case cb of None \<Rightarrow> ListenerIdle | Some c \<Rightarrow> ListenerBusy c)"

text \<open>Whether a request gets to the statement of \<^verbatim>\<open>VerifyBlock\<close> that writes the state root.\<close>

definition writes_root :: "Env \<Rightarrow> string \<Rightarrow> Request \<Rightarrow> Node \<Rightarrow> bool" where
  "writes_root env path r n \<longleftrightarrow> rpc_mux (rq_Method r) path = Handler ToHandle \<and> rq_Method r = ''POST'' \<and>
     (case read_call r of None \<Rightarrow> False | Some c \<Rightarrow> cl_Method c = ''inso_verifyBlock'' \<and>
       (case parseUint64Param (cl_Params c) 0 of Inl _ \<Rightarrow> False | Inr num \<Rightarrow>
         (case GetBlock (nd_sync n) num of None \<Rightarrow> False | Some b \<Rightarrow> vr_Valid (snd (VerifyBlock (env_geth env) (nd_verification n) b)))))"

text \<open>A request up to the writing of the state root, which stays pending.\<close>

definition take_request :: "Env \<Rightarrow> Orders \<Rightarrow> string \<Rightarrow> Request \<Rightarrow> Node \<Rightarrow> Node" where
  "take_request env o' path r n = (case route env (server_of n) o' path r of
     (_, s) \<Rightarrow> put_metrics (srv_metrics s)
       (n\<lparr>nd_pending := (if writes_root env path r n then [RootRead (stateRoot (srv_verification s))] else []) @ nd_pending n\<rparr>))"

definition live :: "Node \<Rightarrow> bool" where
  "live n \<longleftrightarrow> nd_main n \<noteq> Exited"

text \<open>
  The poll loop inside a round, with a sequencer that answers as \<open>post\<close> says: it fetches and stores
  the next block, runs a statement of its callback, or ends the round.
\<close>

inductive poll_step :: "Geth \<Rightarrow> http_post \<Rightarrow> Node \<Rightarrow> Node \<Rightarrow> bool" for g post where
  fetch: "live n \<Longrightarrow> nd_poller n = PollerRound num remote None \<Longrightarrow> num \<le> remote \<Longrightarrow> fetchBlock post num = Ok b \<Longrightarrow>
    poll_step g post n (poll_take num remote b n)"
| callback: "live n \<Longrightarrow> nd_poller n = PollerRound num remote (Some cb) \<Longrightarrow> range_order (net_peers (nd_network n)) ks \<Longrightarrow>
    callback_step g post ks now now' cb n = (n', rest) \<Longrightarrow> poll_step g post n (n'\<lparr>nd_poller := PollerRound num remote rest\<rparr>)"
| stop: "live n \<Longrightarrow> nd_poller n = PollerRound num remote None \<Longrightarrow> \<not> num \<le> remote \<or> (\<forall>b. fetchBlock post num \<noteq> Ok b) \<Longrightarrow>
    poll_step g post n (n\<lparr>nd_poller := PollerIdle\<rparr>)"

inductive node_step :: "Geth \<Rightarrow> Node \<Rightarrow> Node \<Rightarrow> bool" for g where
  main: "live n \<Longrightarrow> range_order (net_peers (nd_network n)) ks \<Longrightarrow> node_step g n (main_step bound expired ks n)"
| network: "live n \<Longrightarrow> nd_main n \<noteq> StartNet \<Longrightarrow> net_run (nd_network n) w \<Longrightarrow> node_step g n (n\<lparr>nd_network := w\<rparr>)"
| consensus: "live n \<Longrightarrow> nd_loop n \<Longrightarrow> processMessages_step (nd_consensus n) (nd_network n) = (c, logs, w) \<Longrightarrow>
    node_step g n (n\<lparr>nd_consensus := c, nd_network := w\<rparr>)"
| consensus_exit: "live n \<Longrightarrow> nd_loop n \<Longrightarrow> ctx_done n (ce_cancel (nd_consensus n)) \<Longrightarrow> node_step g n (n\<lparr>nd_loop := False\<rparr>)"
| gossip: "live n \<Longrightarrow> nd_listener n = ListenerIdle \<Longrightarrow> receive (nd_network n) = Some (msg, w) \<Longrightarrow> node_step g n (gossip_take msg w n)"
| gossip_callback: "live n \<Longrightarrow> nd_listener n = ListenerBusy cb \<Longrightarrow> range_order (net_peers (nd_network n)) ks \<Longrightarrow>
    callback_step g post ks now now' cb n = (n', rest) \<Longrightarrow> node_step g n (n'\<lparr>nd_listener := listener_next rest\<rparr>)"
| gossip_exit: "live n \<Longrightarrow> nd_listener n = ListenerIdle \<Longrightarrow> ctx_done n (se_cancel (nd_sync n)) \<Longrightarrow>
    node_step g n (n\<lparr>nd_listener := ListenerOff\<rparr>)"
| poll_start: "live n \<Longrightarrow> nd_poller n = PollerIdle \<Longrightarrow> fetchLatestBlockNumber post = Ok remote \<Longrightarrow> LatestBlock (nd_sync n) < remote \<Longrightarrow>
    node_step g n (n\<lparr>nd_poller := PollerRound (LatestBlock (nd_sync n) + 1) remote None\<rparr>)"
| poll: "poll_step g post n n' \<Longrightarrow> node_step g n n'"
| poll_exit: "live n \<Longrightarrow> nd_poller n = PollerIdle \<Longrightarrow> ctx_done n (se_cancel (nd_sync n)) \<Longrightarrow>
    node_step g n (n\<lparr>nd_poller := PollerOff\<rparr>)"
| accept: "live n \<Longrightarrow> nd_httpServer n = Some True \<Longrightarrow> node_step g n (n\<lparr>nd_pending := Received path r # nd_pending n\<rparr>)"
| request: "live n \<Longrightarrow> nd_pending n = xs @ Received path r # ys \<Longrightarrow> env_geth env = g \<Longrightarrow>
    node_step g n (take_request env o' path r (n\<lparr>nd_pending := xs @ ys\<rparr>))"
| request_write: "live n \<Longrightarrow> nd_pending n = xs @ RootRead r # ys \<Longrightarrow>
    node_step g n (n\<lparr>nd_verification := (nd_verification n)\<lparr>stateRoot := r\<rparr>, nd_pending := xs @ ys\<rparr>)"

inductive_cases poll_stepE: "poll_step g post n n'"
inductive_cases node_stepE: "node_step g n n'"

section \<open>What the steps keep\<close>

text \<open>The blocks under way, and the books of the node: what is stored and what is attested, by whom.\<close>

definition gossip_block :: "Node \<Rightarrow> L2Block option" where
  "gossip_block n = (case nd_listener n of ListenerBusy cb \<Rightarrow> Some (cb_block cb) | _ \<Rightarrow> None)"

definition poll_block :: "Node \<Rightarrow> L2Block option" where
  "poll_block n = (case nd_poller n of PollerRound num remote cb \<Rightarrow> map_option cb_block cb | _ \<Rightarrow> None)"

definition same_books :: "Node \<Rightarrow> Node \<Rightarrow> bool" where
  "same_books n n' \<longleftrightarrow> latestBlock (nd_sync n') = latestBlock (nd_sync n) \<and> sblocks (nd_sync n') = sblocks (nd_sync n) \<and> ce_attestations (nd_consensus n') = ce_attestations (nd_consensus n) \<and>
     ce_localAddr (nd_consensus n') = ce_localAddr (nd_consensus n) \<and> ce_validators (nd_consensus n') = ce_validators (nd_consensus n)"

lemma main_step_books: "same_books n (main_step bound expired ks n)"
  by (simp add: same_books_def main_step_def StartSyncEngine_def StopSyncEngine_def SetSyncMetrics_def StartConsensusEngine_def
      StopConsensusEngine_def SetConsensusMetrics_def split: main_pc.split go_result.split prod.split)

lemma main_step_blocks:
  "gossip_block (main_step bound expired ks n) = gossip_block n \<or> gossip_block (main_step bound expired ks n) = None"
  "poll_block (main_step bound expired ks n) = poll_block n \<or> poll_block (main_step bound expired ks n) = None"
  by (simp_all add: main_step_def gossip_block_def poll_block_def split: main_pc.split go_result.split prod.split)

lemma take_request_frame [simp]:
  "nd_sync (take_request env o' path r n) = nd_sync n" "nd_listener (take_request env o' path r n) = nd_listener n"
  "nd_poller (take_request env o' path r n) = nd_poller n" "nd_consensus (take_request env o' path r n) = nd_consensus n"
  by (simp_all add: take_request_def split: prod.split)

lemma processMessages_step_consensus:
  assumes "processMessages_step c w = (c', logs, w')"
  shows "c' = c"
proof (cases "receive w")
  case (Some p)
  obtain msg w1 where p: "p = (msg, w1)" by (cases p)
  show ?thesis
    using assms processMessage_id [of c msg] Some p by (cases "processMessage c msg") (simp add: processMessages_step_def)
qed (use assms in \<open>simp add: processMessages_step_def\<close>)

text \<open>A step of a callback attests its block, at the last point, or leaves the books alone.\<close>

lemma callback_step_cases:
  assumes "callback_step g post ks now now' cb n = (n', rest)"
  obtains (attest) b where "cb = Verified b" "n' = attest_block g ks now now' b n" "rest = None"
  | (other) "same_books n n'" "nd_listener n' = nd_listener n" "nd_poller n' = nd_poller n" "rest = None \<or> map_option cb_block rest = Some (cb_block cb)"
proof (cases cb)
  case (Verified b)
  then show ?thesis using attest assms by (simp add: callback_step_def)
qed (use assms other in \<open>auto simp: callback_step_def same_books_def split: prod.splits if_splits\<close>)

text \<open>A request whose write comes at once is the request as theory Rpc has it.\<close>

lemma writes_root_route:
  assumes "srv_verification (snd (route env (server_of n) o' path r)) \<noteq> nd_verification n"
  shows "writes_root env path r n \<and> (\<exists>root'. srv_verification (snd (route env (server_of n) o' path r)) = (nd_verification n)\<lparr>stateRoot := root'\<rparr>)"
proof -
  have v: "srv_verification (count_request (server_of n)) = nd_verification n" "srv_sync (count_request (server_of n)) = nd_sync n"
    by (simp_all add: server_of_def SetSequencerConfig_def SetReputation_def NewServer_def)
  then have u: "srv_verification (server_of n) = nd_verification n" by simp
  have p: "rpc_mux (rq_Method r) path = Handler ToHandle" "rq_Method r = ''POST''"
    using assms u v by (auto simp: route_def handle_def Let_def split: if_splits mux_result.splits rpc_handler.splits)
  obtain c where c: "read_call r = Some c"
    using assms v p by (cases "read_call r") (auto simp: route_def handle_def Let_def)
  have d: "srv_verification (snd (route env (server_of n) o' path r)) = snd (dispatch env (count_request (server_of n)) o' c)"
    using p handle_call(1) [OF p(2) c, of env "server_of n" o'] by (simp add: route_def)
  then have m: "cl_Method c = ''inso_verifyBlock''" using assms dispatch_frame [of c env "count_request (server_of n)" o'] v by auto
  then obtain num b where b: "parseUint64Param (cl_Params c) 0 = Inr num" "GetBlock (nd_sync n) num = Some b"
      "snd (dispatch env (count_request (server_of n)) o' c) = fst (VerifyBlock (env_geth env) (nd_verification n) b)"
    using assms d v by (auto simp: dispatch_def with_block_def Let_def split: sum.splits option.splits prod.splits)
  then have "vr_Valid (snd (VerifyBlock (env_geth env) (nd_verification n) b))"
    using assms d VerifyBlock_state [of "env_geth env" "nd_verification n" b] by (auto split: if_splits)
  then show ?thesis using p c m b d VerifyBlock_state [of "env_geth env" "nd_verification n" b] by (auto simp: writes_root_def)
qed

lemma request_at_once:
  assumes "live n" "nd_httpServer n = Some True"
  shows "(node_step (env_geth env))\<^sup>*\<^sup>* n (put_metrics (srv_metrics (snd (route env (server_of n) o' path r)))
    (n\<lparr>nd_verification := srv_verification (snd (route env (server_of n) o' path r))\<rparr>))"
proof -
  let ?s = "snd (route env (server_of n) o' path r)" and ?n = "take_request env o' path r n"
  let ?a = "n\<lparr>nd_pending := [] @ Received path r # nd_pending n\<rparr>"
  have "node_step (env_geth env) n ?a" using node_step.accept [OF assms, of "env_geth env" path r] by simp
  moreover have "node_step (env_geth env) ?a (take_request env o' path r (?a\<lparr>nd_pending := [] @ nd_pending n\<rparr>))"
    by (rule node_step.request [of ?a "[]"]) (use assms(1) in \<open>simp_all add: live_def\<close>)
  moreover have "?a\<lparr>nd_pending := [] @ nd_pending n\<rparr> = n" by simp
  ultimately have run: "(node_step (env_geth env))\<^sup>*\<^sup>* n ?n" by (metis converse_rtranclp_into_rtranclp r_into_rtranclp)
  show ?thesis
  proof (cases "writes_root env path r n")
    case True
    have t: "?n = put_metrics (srv_metrics ?s) (n\<lparr>nd_pending := [] @ RootRead (stateRoot (srv_verification ?s)) # nd_pending n\<rparr>)"
      using True by (simp add: take_request_def split_beta)
    have "srv_verification ?s = (nd_verification n)\<lparr>stateRoot := stateRoot (srv_verification ?s)\<rparr>"
      using writes_root_route [of env n o' path r] by (cases "srv_verification ?s = nd_verification n") auto
    then have e: "?n\<lparr>nd_verification := (nd_verification ?n)\<lparr>stateRoot := stateRoot (srv_verification ?s)\<rparr>, nd_pending := [] @ nd_pending n\<rparr> =
        put_metrics (srv_metrics ?s) (n\<lparr>nd_verification := srv_verification ?s\<rparr>)"
      unfolding t by (simp add: put_metrics_def split: option.split)
    have "live ?n" "nd_pending ?n = [] @ RootRead (stateRoot (srv_verification ?s)) # nd_pending n" using assms(1) by (simp_all add: t live_def)
    then have "node_step (env_geth env) ?n (put_metrics (srv_metrics ?s) (n\<lparr>nd_verification := srv_verification ?s\<rparr>))"
      unfolding e [symmetric] by (rule node_step.request_write)
    then show ?thesis using run by simp
  next
    case False
    then have "srv_verification ?s = nd_verification n" using writes_root_route by blast
    then have "?n = put_metrics (srv_metrics ?s) (n\<lparr>nd_verification := srv_verification ?s\<rparr>)"
      using False by (simp add: take_request_def split_beta put_metrics_def split: option.split)
    then show ?thesis using run by simp
  qed
qed

lemmas block_defs = gossip_block_def poll_block_def listener_next_def

lemma commit_stored:
  "commit_block e b = (e', True) \<Longrightarrow> sblocks e (bl_Number b) = None \<and> sblocks e' = (sblocks e)(bl_Number b \<mapsto> b)"
  "commit_block e b = (e', False) \<Longrightarrow> e' = e"
  by (auto simp: commit_block_def split: if_splits)

lemma gossip_take_cases:
  assumes "nd_listener n = ListenerIdle"
  obtains (stored) e a where "commit_block (nd_sync n) (block_of_announce a) = (e, True)"
      "gossip_take msg w n = n\<lparr>nd_network := w, nd_sync := e, nd_listener := ListenerBusy (Stored (block_of_announce a))\<rparr>"
  | (kept) "same_books n (gossip_take msg w n)" "gossip_block (gossip_take msg w n) = None" "nd_poller (gossip_take msg w n) = nd_poller n"
proof (cases "\<exists>a. msg_Type msg = MsgNewBlock \<and> DecodeBlockAnnounce (slice_bytes (msg_Payload msg)) = Ok a")
  case True
  then obtain a where a: "msg_Type msg = MsgNewBlock" "DecodeBlockAnnounce (slice_bytes (msg_Payload msg)) = Ok a" by blast
  obtain e st where c: "commit_block (nd_sync n) (block_of_announce a) = (e, st)" by (cases "commit_block (nd_sync n) (block_of_announce a)")
  show ?thesis
  proof (cases st)
    case True
    then show ?thesis using that(1) a c by (simp add: gossip_take_def)
  next
    case False
    then have "e = nd_sync n" using c commit_stored(2) [of "nd_sync n" "block_of_announce a" e] by simp
    then show ?thesis using that(2) a c False by (simp add: gossip_take_def same_books_def gossip_block_def)
  qed
next
  case False
  then have "gossip_take msg w n = n\<lparr>nd_network := w\<rparr>"
    by (simp add: gossip_take_def split: go_result.split)
  then show ?thesis using that(2) assms by (simp add: same_books_def gossip_block_def)
qed

text \<open>
  What a step means for the books: nothing (a block under way may be dropped), one more stored
  block, which is then under way, or one more attestation, of a block that was under way.
\<close>

lemma node_step_cases:
  assumes "node_step g n n'"
  obtains (quiet) "same_books n n'" "gossip_block n' = gossip_block n \<or> gossip_block n' = None"
      "poll_block n' = poll_block n \<or> poll_block n' = None"
  | (store) b where "commit_block (nd_sync n) b = (nd_sync n', True)" "nd_consensus n' = nd_consensus n"
      "gossip_block n' = Some b \<and> poll_block n' = poll_block n \<or> gossip_block n' = gossip_block n \<and> poll_block n' = Some b"
  | (attest) b now where "nd_sync n' = nd_sync n" "ce_validators (nd_consensus n') = ce_validators (nd_consensus n)"
      "ce_localAddr (nd_consensus n') = ce_localAddr (nd_consensus n)"
      "\<And>k. attestations_of (nd_consensus n') k = attestations_of (nd_consensus n) k @
        (if k = bl_Number b then [new_attestation g (nd_consensus n) k (HexToHash g (bl_Hash b)) now] else [])"
      "gossip_block n' = None \<and> poll_block n' = poll_block n \<and> gossip_block n = Some b \<or>
        gossip_block n' = gossip_block n \<and> poll_block n' = None \<and> poll_block n = Some b"
  using assms
proof cases
  case (main ks bound expired)
  then show ?thesis using quiet main_step_books main_step_blocks by simp
next
  case (gossip msg w)
  show ?thesis
    using store quiet gossip by (cases rule: gossip_take_cases [OF gossip(3), of msg w]) (auto simp: block_defs)
next
  case (gossip_callback cb ks post now now' m rest)
  from gossip_callback(5) show ?thesis
  proof (cases rule: callback_step_cases)
    case (attest b)
    then show ?thesis using that(3) [of b now] gossip_callback(1,3) by (simp add: block_defs attest_block_attestations)
  qed (use quiet gossip_callback(1,3) in \<open>auto simp: block_defs same_books_def\<close>)
next
  case (poll post)
  then show ?thesis
  proof cases
    case (fetch num remote b)
    obtain e st where c: "commit_block (nd_sync n) b = (e, st)" by (cases "commit_block (nd_sync n) b")
    show ?thesis
      using store [of b] quiet fetch(1) c commit_stored(2) [of "nd_sync n" b e]
      by (cases st) (auto simp: poll_take_def block_defs same_books_def)
  next
    case (callback num remote cb ks now now' m rest)
    from callback(5) show ?thesis
    proof (cases rule: callback_step_cases)
      case (attest b)
      then show ?thesis using that(3) [of b now] callback(1,3) by (simp add: block_defs attest_block_attestations)
    qed (use quiet callback(1,3) in \<open>auto simp: block_defs same_books_def\<close>)
  qed (use quiet in \<open>auto simp: block_defs same_books_def\<close>)
next
  case (consensus c logs w)
  then show ?thesis using quiet processMessages_step_consensus [OF consensus(4)] by (simp add: block_defs same_books_def)
qed (use quiet in \<open>auto simp: block_defs same_books_def\<close>)

section \<open>One attestation for each block\<close>

text \<open>A stored block that has not been attested.\<close>

definition waiting :: "Node \<Rightarrow> L2Block \<Rightarrow> bool" where
  "waiting n b \<longleftrightarrow> sblocks (nd_sync n) (bl_Number b) = Some b \<and> attestations_of (nd_consensus n) (bl_Number b) = []"

definition attested_ok :: "Geth \<Rightarrow> Node \<Rightarrow> uint64 \<Rightarrow> bool" where
  "attested_ok g n k \<longleftrightarrow> attestations_of (nd_consensus n) k = [] \<or>
     (\<exists>b now e. sblocks (nd_sync n) k = Some b \<and> attestations_of (nd_consensus n) k = [new_attestation g e k (HexToHash g (bl_Hash b)) now] \<and>
       ce_localAddr e = ce_localAddr (nd_consensus n))"

definition node_inv :: "Geth \<Rightarrow> Node \<Rightarrow> bool" where
  "node_inv g n \<longleftrightarrow> (\<forall>k b. sblocks (nd_sync n) k = Some b \<longrightarrow> bl_Number b = k) \<and>
     (\<forall>b. gossip_block n = Some b \<longrightarrow> waiting n b) \<and> (\<forall>b. poll_block n = Some b \<longrightarrow> waiting n b) \<and>
     (\<forall>b b'. gossip_block n = Some b \<longrightarrow> poll_block n = Some b' \<longrightarrow> bl_Number b \<noteq> bl_Number b') \<and> (\<forall>k. attested_ok g n k)"

lemma node_invI:
  assumes "\<And>k b. sblocks (nd_sync n) k = Some b \<Longrightarrow> bl_Number b = k"
    and "\<And>b. gossip_block n = Some b \<Longrightarrow> waiting n b" "\<And>b. poll_block n = Some b \<Longrightarrow> waiting n b"
    and "\<And>b b'. gossip_block n = Some b \<Longrightarrow> poll_block n = Some b' \<Longrightarrow> bl_Number b \<noteq> bl_Number b'" "\<And>k. attested_ok g n k"
  shows "node_inv g n"
  using assms by (simp add: node_inv_def)

lemma node_invD:
  assumes "node_inv g n"
  shows "sblocks (nd_sync n) k = Some b \<Longrightarrow> bl_Number b = k" "gossip_block n = Some b \<Longrightarrow> waiting n b"
    "poll_block n = Some b \<Longrightarrow> waiting n b" "gossip_block n = Some b \<Longrightarrow> poll_block n = Some b' \<Longrightarrow> bl_Number b \<noteq> bl_Number b'"
    "attested_ok g n k"
  using assms by (simp_all add: node_inv_def)

text \<open>A step that neither stores nor attests keeps the invariant, also when it drops a block that was under way.\<close>

lemma node_inv_cong:
  assumes "node_inv g n" "same_books n n'"
    and "gossip_block n' = gossip_block n \<or> gossip_block n' = None" "poll_block n' = poll_block n \<or> poll_block n' = None"
  shows "node_inv g n'"
proof -
  have "waiting n' b \<longleftrightarrow> waiting n b" "attested_ok g n' k \<longleftrightarrow> attested_ok g n k" for b k
    using assms(2) by (simp_all only: waiting_def attested_ok_def same_books_def attestations_of_def)
  moreover have "sblocks (nd_sync n') = sblocks (nd_sync n)" using assms(2) by (simp add: same_books_def)
  ultimately show ?thesis using assms(3,4) node_invD [OF assms(1)] by (intro node_invI) auto
qed

lemma node_inv_attest:
  assumes "node_inv g n" "waiting n b" "sblocks (nd_sync n') = sblocks (nd_sync n)"
    and "\<And>k. attestations_of (nd_consensus n') k = attestations_of (nd_consensus n) k @
      (if k = bl_Number b then [new_attestation g (nd_consensus n) k (HexToHash g (bl_Hash b)) now] else [])"
    and "ce_localAddr (nd_consensus n') = ce_localAddr (nd_consensus n)"
    and "gossip_block n' = None \<and> poll_block n' = poll_block n \<and> gossip_block n = Some b \<or>
      gossip_block n' = gossip_block n \<and> poll_block n' = None \<and> poll_block n = Some b"
  shows "node_inv g n'"
proof (rule node_invI)
  have w: "waiting n' b'" if "waiting n b'" "bl_Number b' \<noteq> bl_Number b" for b'
    using that by (simp add: waiting_def assms(3,4))
  show "attested_ok g n' k" for k
    using node_invD(5) [OF assms(1), of k] assms(2) by (auto simp: attested_ok_def waiting_def assms(3-5))
  show "waiting n' b'" if "gossip_block n' = Some b'" for b'
    using that assms(6) w [of b'] node_invD(2,4) [OF assms(1), of b'] by auto
  show "waiting n' b'" if "poll_block n' = Some b'" for b'
    using that assms(6) w [of b'] node_invD(3) [OF assms(1), of b'] node_invD(4) [OF assms(1), of b b'] by auto
qed (use assms(3,6) node_invD(1) [OF assms(1)] in auto)

lemma node_inv_store:
  assumes "node_inv g n" "sblocks (nd_sync n) (bl_Number b) = None" "sblocks (nd_sync n') = (sblocks (nd_sync n))(bl_Number b \<mapsto> b)"
    and "nd_consensus n' = nd_consensus n"
    and "gossip_block n' = Some b \<and> poll_block n' = poll_block n \<or> gossip_block n' = gossip_block n \<and> poll_block n' = Some b"
  shows "node_inv g n'"
proof -
  have e: "attestations_of (nd_consensus n) (bl_Number b) = []"
    using node_invD(5) [OF assms(1), of "bl_Number b"] assms(2) by (auto simp: attested_ok_def)
  have d: "bl_Number b' \<noteq> bl_Number b" if "waiting n b'" for b' using that assms(2) by (auto simp: waiting_def)
  then have w: "waiting n' b'" if "waiting n b' \<or> b' = b" for b'
    using that e by (auto simp: waiting_def assms(3,4))
  have "attested_ok g n' k" for k
    using node_invD(5) [OF assms(1), of k] e by (auto simp: attested_ok_def assms(3,4))
  moreover have "bl_Number b' = k" if "sblocks (nd_sync n') k = Some b'" for k b'
    using that node_invD(1) [OF assms(1)] by (auto simp: assms(3) split: if_splits)
  moreover have "gossip_block n' = Some b' \<Longrightarrow> waiting n b' \<or> b' = b" "poll_block n' = Some b' \<Longrightarrow> waiting n b' \<or> b' = b" for b'
    using assms(5) node_invD(2,3) [OF assms(1)] by auto
  moreover have "bl_Number b1 \<noteq> bl_Number b2" if "gossip_block n' = Some b1" "poll_block n' = Some b2" for b1 b2
    using that assms(5) node_invD(2-4) [OF assms(1)] d by (metis option.inject)
  ultimately show ?thesis using w by (intro node_invI) blast+
qed

lemma node_step_inv:
  assumes "node_step g n n'" "node_inv g n"
  shows "node_inv g n'"
  using assms(1)
proof (cases rule: node_step_cases)
  case quiet
  then show ?thesis by (rule node_inv_cong [OF assms(2)])
next
  case (store b)
  then show ?thesis using commit_stored(1) [OF store(1)] by (intro node_inv_store [OF assms(2), of b]) auto
next
  case (attest b now)
  have "waiting n b" using attest(5) node_invD(2,3) [OF assms(2)] by blast
  then show ?thesis using attest by (intro node_inv_attest [OF assms(2), of b]) auto
qed

lemma node_step_validators:
  assumes "node_step g n n'"
  shows "ce_validators (nd_consensus n') = ce_validators (nd_consensus n) \<and> ce_localAddr (nd_consensus n') = ce_localAddr (nd_consensus n)"
  using assms by (cases rule: node_step_cases) (simp_all add: same_books_def)

lemma node_steps_validators:
  "(node_step g)\<^sup>*\<^sup>* n n' \<Longrightarrow>
    ce_validators (nd_consensus n') = ce_validators (nd_consensus n) \<and> ce_localAddr (nd_consensus n') = ce_localAddr (nd_consensus n)"
  by (induction rule: rtranclp_induct) (auto simp: node_step_validators)

section \<open>The node as a ledger\<close>

text \<open>
  The abstract node: a map from numbers to blocks, each with a mark that says whether it is
  attested. A block is added under a free number, above 1 only after the block before it; a mark
  is set on a block that is there. Nothing else happens.
\<close>

type_synonym ledger = "uint64 \<rightharpoonup> L2Block \<times> bool"

inductive ledger_step :: "ledger \<Rightarrow> ledger \<Rightarrow> bool" where
  add: "L (bl_Number b) = None \<Longrightarrow> bl_Number b \<le> 1 \<or> L (bl_Number b - 1) \<noteq> None \<Longrightarrow> ledger_step L (L(bl_Number b \<mapsto> (b, False)))"
| mark: "L k = Some (b, False) \<Longrightarrow> ledger_step L (L(k \<mapsto> (b, True)))"

definition ledger_of :: "Node \<Rightarrow> ledger" where
  "ledger_of n = (\<lambda>k. map_option (\<lambda>b. (b, attestations_of (nd_consensus n) k \<noteq> [])) (sblocks (nd_sync n) k))"

definition ledger_inv :: "Geth \<Rightarrow> Node \<Rightarrow> bool" where
  "ledger_inv g n \<longleftrightarrow> node_inv g n \<and> (latestBlock (nd_sync n) = 0 \<or> sblocks (nd_sync n) (latestBlock (nd_sync n)) \<noteq> None)"

lemma commit_above:
  assumes "commit_block e b = (e', True)"
  shows "bl_Number b \<le> 1 \<or> bl_Number b - 1 = latestBlock e" "latestBlock e' = bl_Number b"
  using assms by (auto simp: commit_block_def split: if_splits)

lemma word_above_1: "\<not> x \<le> 1 \<Longrightarrow> x - 1 \<noteq> (0 :: uint64)"
  by auto

lemma ledger_inv_step:
  assumes "ledger_inv g n" "node_step g n n'"
  shows "ledger_inv g n'"
proof -
  have i: "node_inv g n'" using assms node_step_inv by (simp add: ledger_inv_def)
  from assms(2) show ?thesis
  proof (cases rule: node_step_cases)
    case (store b)
    then show ?thesis using i commit_stored(1) [OF store(1)] commit_above(2) [OF store(1)] by (simp add: ledger_inv_def)
  qed (use assms(1) i in \<open>simp_all add: ledger_inv_def same_books_def\<close>)
qed

lemma ledger_simulates:
  assumes "ledger_inv g n" "node_step g n n'"
  shows "ledger_of n' = ledger_of n \<or> ledger_step (ledger_of n) (ledger_of n')"
proof -
  note i = assms(1) [unfolded ledger_inv_def, THEN conjunct1]
  from assms(2) show ?thesis
  proof (cases rule: node_step_cases)
    case quiet
    then have "ledger_of n' = ledger_of n" by (simp add: ledger_of_def same_books_def attestations_of_def)
    then show ?thesis by simp
  next
    case (store b)
    note c = commit_stored(1) [OF store(1)] commit_above(1) [OF store(1)]
    have "attestations_of (nd_consensus n) (bl_Number b) = []"
      using node_invD(5) [OF i, of "bl_Number b"] c(1) by (auto simp: attested_ok_def)
    then have "ledger_of n' = (ledger_of n)(bl_Number b \<mapsto> (b, False))" using c(1) store(2) by (auto simp: ledger_of_def)
    moreover have "ledger_of n (bl_Number b) = None" using c(1) by (simp add: ledger_of_def)
    moreover have "ledger_of n (bl_Number b - 1) \<noteq> None" if "\<not> bl_Number b \<le> 1"
      using that c(2) assms(1) word_above_1 [OF that] by (auto simp: ledger_inv_def ledger_of_def)
    ultimately show ?thesis using ledger_step.add [of "ledger_of n" b] by auto
  next
    case (attest b now)
    have w: "waiting n b" using attest(5) node_invD(2,3) [OF i] by blast
    then have "ledger_of n (bl_Number b) = Some (b, False)" by (simp add: ledger_of_def waiting_def)
    moreover have "ledger_of n' = (ledger_of n)(bl_Number b \<mapsto> (b, True))"
      using w attest(1,4) by (auto simp: ledger_of_def waiting_def)
    ultimately show ?thesis using ledger_step.mark by auto
  qed
qed

interpretation ledger: simulation "node_step g" ledger_step ledger_of "ledger_inv g" for g
  by unfold_locales (fact ledger_inv_step ledger_simulates)+

text \<open>What a ledger keeps: blocks stay, marks stay, and there is no gap between 1 and a block.\<close>

definition ledger_ok :: "ledger \<Rightarrow> bool" where
  "ledger_ok L \<longleftrightarrow> (\<forall>k b m. L k = Some (b, m) \<longrightarrow> bl_Number b = k \<and> (1 < k \<longrightarrow> L (k - 1) \<noteq> None))"

definition ledger_le :: "ledger \<Rightarrow> ledger \<Rightarrow> bool" where
  "ledger_le L L' \<longleftrightarrow> (\<forall>k b m. L k = Some (b, m) \<longrightarrow> (\<exists>m'. L' k = Some (b, m') \<and> (m \<longrightarrow> m')))"

lemma ledger_step_ok: "ledger_step L L' \<Longrightarrow> ledger_ok L \<Longrightarrow> ledger_ok L' \<and> ledger_le L L'"
proof (induction rule: ledger_step.induct)
  case (mark L k b)
  then have "bl_Number b = k \<and> (1 < k \<longrightarrow> L (k - 1) \<noteq> None)" unfolding ledger_ok_def by blast
  then show ?case using mark by (auto simp: ledger_ok_def ledger_le_def split: if_splits)
qed (auto simp: ledger_ok_def ledger_le_def split: if_splits)

lemma ledger_steps_ok: "ledger_step\<^sup>*\<^sup>* L L' \<Longrightarrow> ledger_ok L \<Longrightarrow> ledger_ok L' \<and> ledger_le L L'"
proof (induction rule: rtranclp_induct)
  case (step L1 L2)
  then have "ledger_ok L2 \<and> ledger_le L1 L2" "ledger_le L L1" using ledger_step_ok by blast+
  then show ?case unfolding ledger_le_def by metis
qed (simp add: ledger_le_def)

section \<open>From start-up\<close>

lemma started_inv:
  assumes "key_bytes envKey = Some kb" "toECDSA kb = Some key"
    and "new_node g toECDSA cfg envKey conns clock = Ok n0" "(node_step g)\<^sup>*\<^sup>* n0 n"
  shows "ledger_inv g n" "ce_localAddr (nd_consensus n) = PubkeyToAddress g (PublicKey g key)"
    "ledger_inv g n0" "ledger_of n0 = Map.empty" "ce_localAddr (nd_consensus n0) = PubkeyToAddress g (PublicKey g key)" "ce_validators (nd_consensus n) = ce_validators (nd_consensus n0)"
proof -
  have m: "uint (MinStake (cfg_Validator cfg)) < 2 ^ 63"
    using new_node_refused [where toECDSA = toECDSA, OF assms(1,2), of cfg g conns clock] assms(3)
    by (cases "uint (MinStake (cfg_Validator cfg)) < 2 ^ 63") auto
  have n0: "ce_localAddr (nd_consensus n0) = PubkeyToAddress g (PublicKey g key)" "ce_attestations (nd_consensus n0) = Map.empty"
      "nd_sync n0 = OnNewBlock (NewSyncEngine (cfg_Sequencer cfg))" "nd_listener n0 = ListenerOff" "nd_poller n0 = PollerOff"
    using new_node_Ok [where toECDSA = toECDSA, OF assms(1,2) m, of g conns clock] assms(3) by auto
  have "node_inv g n0"
    using n0 by (intro node_invI) (simp_all add: OnNewBlock_def NewSyncEngine_def block_defs attested_ok_def attestations_of_def)
  then show i: "ledger_inv g n0" using n0(3) by (simp add: ledger_inv_def OnNewBlock_def NewSyncEngine_def)
  show "ledger_inv g n" by (rule ledger.run_inv [OF assms(4) i])
  show "ledger_of n0 = Map.empty" using n0(3) by (simp add: ledger_of_def OnNewBlock_def NewSyncEngine_def fun_eq_iff)
  show "ce_localAddr (nd_consensus n) = PubkeyToAddress g (PublicKey g key)" "ce_validators (nd_consensus n) = ce_validators (nd_consensus n0)"
    "ce_localAddr (nd_consensus n0) = PubkeyToAddress g (PublicKey g key)"
    using node_steps_validators [OF assms(4)] n0(1) by simp_all
qed

lemma boot_parts:
  assumes "boot fs env yaml path g toECDSA conns clock = Ok n0"
  obtains cfg kb key where "new_node g toECDSA cfg (env ''INSO_VALIDATOR_KEY'') conns clock = Ok n0"
    "key_bytes (env ''INSO_VALIDATOR_KEY'') = Some kb" "toECDSA kb = Some key"
  using assms by (auto simp: boot_def new_node_def split: go_result.splits option.splits)

lemma reachable_final:
  assumes "key_bytes envKey = Some kb" "toECDSA kb = Some key" "new_node g toECDSA cfg envKey conns clock = Ok n0"
    and "(node_step g)\<^sup>*\<^sup>* n0 n"
    and "0 < uint (MinStake (cfg_Validator cfg))" "uint (MinStake (cfg_Validator cfg)) \<le> 2 ^ 53" "clock 0 \<le> clock 3" "clock 1 \<le> clock 3"
  shows "fst (IsFinalized (nd_consensus n) [PubkeyToAddress g (PublicKey g key)] m num) \<longleftrightarrow> attestations_of (nd_consensus n) num \<noteq> []"
proof -
  note s = started_inv [where toECDSA = toECDSA, OF assms(1-4)]
  obtain v p where v: "ce_validators (nd_consensus n) = [PubkeyToAddress g (PublicKey g key) \<mapsto> v]" "vi_IsActive v"
      "vi_VotePower v = Fin p" "1 \<le> p" "p \<le> 2 ^ 54" "ce_localAddr (nd_consensus n) = PubkeyToAddress g (PublicKey g key)"
    using new_node_power [where toECDSA = toECDSA, OF assms(3,1,2,5-8)] s(2,5,6) by auto
  show ?thesis
  proof (cases "attestations_of (nd_consensus n) num = []")
    case False
    then obtain att where "attestations_of (nd_consensus n) num = [att]" "at_Validator att = PubkeyToAddress g (PublicKey g key)"
      using node_invD(5) [OF s(1) [unfolded ledger_inv_def, THEN conjunct1], of num] v(6) by (auto simp: attested_ok_def)
    then show ?thesis using IsFinalized_single [OF v(1-5)] by simp
  qed (simp add: IsFinalized_def)
qed

section \<open>Blocks that were passed over\<close>

definition passed_over :: "Node \<Rightarrow> uint64 \<Rightarrow> bool" where
  "passed_over n k \<longleftrightarrow> sblocks (nd_sync n) k \<noteq> None \<and> attestations_of (nd_consensus n) k = [] \<and>
     (\<forall>b. gossip_block n = Some b \<or> poll_block n = Some b \<longrightarrow> bl_Number b \<noteq> k)"

lemma commit_passed:
  assumes "commit_block e b = (e', stored)" "sblocks e k \<noteq> None"
  shows "sblocks e' k \<noteq> None \<and> (stored \<longrightarrow> bl_Number b \<noteq> k)"
  using assms commit_stored [of e b e'] by (cases stored) auto

lemma passed_over_step:
  assumes "node_step g n n'" "passed_over n k"
  shows "passed_over n' k"
  using assms(1)
proof (cases rule: node_step_cases)
  case quiet
  then show ?thesis using assms(2) unfolding passed_over_def same_books_def attestations_of_def by (metis option.distinct(1))
next
  case (store b)
  then show ?thesis using assms(2) commit_passed [OF store(1), of k] unfolding passed_over_def by (metis option.inject)
next
  case (attest b now)
  then have "bl_Number b \<noteq> k" using assms(2) by (auto simp: passed_over_def)
  then have "attestations_of (nd_consensus n') k = attestations_of (nd_consensus n) k" using attest(4) [of k] by simp
  then show ?thesis using assms(2) attest(1,5) unfolding passed_over_def by (metis option.distinct(1))
qed

lemma passed_over_steps: "(node_step g)\<^sup>*\<^sup>* n n' \<Longrightarrow> passed_over n k \<Longrightarrow> passed_over n' k"
  by (induction rule: rtranclp_induct) (auto intro: passed_over_step)

section \<open>The callback stays registered\<close>

lemma main_step_callback: "se_onNewBlock (nd_sync (main_step bound expired ks n)) = se_onNewBlock (nd_sync n)"
  by (simp add: main_step_def StartSyncEngine_def StopSyncEngine_def SetSyncMetrics_def split: main_pc.split go_result.split prod.split)

lemma commit_callback: "commit_block e b = (e', stored) \<Longrightarrow> se_onNewBlock e' = se_onNewBlock e"
  by (auto simp: commit_block_def split: if_splits)

lemma callback_step_sync: "callback_step g post ks now now' cb n = (n', rest) \<Longrightarrow> nd_sync n' = nd_sync n"
  by (auto simp: callback_step_def split: callback.splits prod.splits)

lemma node_step_callback:
  assumes "node_step g n n'"
  shows "se_onNewBlock (nd_sync n') = se_onNewBlock (nd_sync n)"
  using assms
proof cases
  case (poll post)
  then show ?thesis by cases (auto simp: poll_take_def callback_step_sync commit_callback split: prod.split)
qed (auto simp: main_step_callback gossip_take_def callback_step_sync commit_callback split: go_result.split prod.split)

lemma reachable_callback:
  assumes "boot fs env yaml path g toECDSA conns clock = Ok n0" "(node_step g)\<^sup>*\<^sup>* n0 n"
  shows "se_onNewBlock (nd_sync n)"
  using assms(2)
proof (induction rule: rtranclp_induct)
  case base
  show ?case using assms(1) by (auto simp: boot_def new_node_def OnNewBlock_def Let_def split: go_result.splits option.splits prod.splits)
qed (simp add: node_step_callback)

end
