(* ===== verification/PollRound.thy ===== *)
theory PollRound
  imports Goroutines
begin

text \<open>
  One poll of the sequencer as steps of its goroutine, when no other goroutine runs: the
  callback, the round, and the agreement of the round with the sequential program of theory Sync.
\<close>

section \<open>Undisturbed runs\<close>

lemma live_update [simp]:
  "live (n\<lparr>nd_poller := p\<rparr>) = live n" "live (n\<lparr>nd_sync := e\<rparr>) = live n" "live (n\<lparr>nd_verification := v\<rparr>) = live n"
  "live (gauge_block post b n) = live n" "live (attest_block g ks now now' b n) = live n"
  by (simp_all add: live_def)

lemma poller_update:
  "attest_block g ks now now' b (n\<lparr>nd_poller := p\<rparr>) = (attest_block g ks now now' b n)\<lparr>nd_poller := p\<rparr>"
  "gauge_block post b (n\<lparr>nd_poller := p\<rparr>) = (gauge_block post b n)\<lparr>nd_poller := p\<rparr>"
  by (simp_all add: attest_block_def gauge_block_def put_metrics_def Let_def split: prod.split option.split)

text \<open>The callback of the poll loop, when no other goroutine runs.\<close>

lemma poll_callback_run:
  assumes "live n" "nd_poller n = PollerRound num remote (Some (Stored b))" "range_order (net_peers (nd_network n)) ks"
    and "se_onNewBlock (nd_sync n)"
  shows "(poll_step g post)\<^sup>*\<^sup>* n ((run_callback g post ks now now' b n)\<lparr>nd_poller := PollerRound num remote None\<rparr>)"
proof -
  let ?p = "\<lambda>cb. PollerRound num remote cb" and ?r = "next_root (stateRoot (nd_verification n)) b"
  define n1 where "n1 = (gauge_block post b n)\<lparr>nd_poller := ?p (Some (Gauged b))\<rparr>"
  have s1: "poll_step g post n n1"
    unfolding n1_def by (rule poll_step.callback [OF assms(1-3)]) (simp add: callback_step_def assms(4))
  have f: "live n1" "nd_poller n1 = ?p (Some (Gauged b))" "range_order (net_peers (nd_network n1)) ks" "nd_verification n1 = nd_verification n"
    using assms(1,3) by (simp_all add: n1_def)
  show ?thesis
  proof (cases "vr_Valid (snd (VerifyBlock g (nd_verification n) b))")
    case False
    have "poll_step g post n1 (n1\<lparr>nd_poller := ?p None\<rparr>)"
      by (rule poll_step.callback [OF f(1-3)]) (use False f(4) in \<open>simp add: callback_step_def split_beta\<close>)
    moreover have "n1\<lparr>nd_poller := ?p None\<rparr> = (run_callback g post ks now now' b n)\<lparr>nd_poller := ?p None\<rparr>"
      using False VerifyBlock_state [of g "nd_verification n" b] by (simp add: n1_def run_callback_def on_new_block_def split_beta)
    ultimately show ?thesis using s1 converse_rtranclp_into_rtranclp [OF s1 r_into_rtranclp [of "poll_step g post"]] by simp
  next
    case True
    define n2 where "n2 = n1\<lparr>nd_poller := ?p (Some (Matched b ?r))\<rparr>"
    define n3 where "n3 = n2\<lparr>nd_verification := (nd_verification n)\<lparr>stateRoot := ?r\<rparr>, nd_poller := ?p (Some (Verified b))\<rparr>"
    have s2: "poll_step g post n1 n2"
      unfolding n2_def using True VerifyBlock_state [of g "nd_verification n" b]
      by (intro poll_step.callback [OF f(1-3)]) (simp add: callback_step_def split_beta f(4))
    have s3: "poll_step g post n2 n3"
    proof -
      have e: "n3 = (n2\<lparr>nd_verification := (nd_verification n)\<lparr>stateRoot := ?r\<rparr>\<rparr>)\<lparr>nd_poller := ?p (Some (Verified b))\<rparr>" by (simp add: n3_def)
      show ?thesis unfolding e by (rule poll_step.callback [of n2 num remote "Matched b ?r" ks]) (use f in \<open>simp_all add: n2_def callback_step_def\<close>)
    qed
    have s4: "poll_step g post n3 ((attest_block g ks now now' b n3)\<lparr>nd_poller := ?p None\<rparr>)"
      by (rule poll_step.callback [of n3 num remote "Verified b" ks]) (use f in \<open>simp_all add: n3_def n2_def callback_step_def\<close>)
    have v: "fst (VerifyBlock g (nd_verification n) b) = (nd_verification n)\<lparr>stateRoot := ?r\<rparr>"
      using True VerifyBlock_state [of g "nd_verification n" b] by simp
    have e3: "n3 = ((gauge_block post b n)\<lparr>nd_verification := (nd_verification n)\<lparr>stateRoot := ?r\<rparr>\<rparr>)\<lparr>nd_poller := ?p (Some (Verified b))\<rparr>"
      by (simp add: n3_def n2_def n1_def)
    have "(attest_block g ks now now' b n3)\<lparr>nd_poller := ?p None\<rparr> = (run_callback g post ks now now' b n)\<lparr>nd_poller := ?p None\<rparr>"
      unfolding e3 poller_update using True v by (simp add: run_callback_def on_new_block_def split_beta Let_def)
    then show ?thesis
      using converse_rtranclp_into_rtranclp [OF s1 converse_rtranclp_into_rtranclp [OF s2
            converse_rtranclp_into_rtranclp [OF s3 r_into_rtranclp [of "poll_step g post", OF s4]]]] by simp
  qed
qed

lemma run_callback_frame:
  "nd_sync (run_callback g post ks now now' b n) = nd_sync n" "live (run_callback g post ks now now' b n) = live n"
  "nd_listener (run_callback g post ks now now' b n) = nd_listener n"
  "nd_verification (run_callback g post ks now now' b n) = fst (VerifyBlock g (nd_verification n) b)"
  "attestations_of (nd_consensus (run_callback g post ks now now' b n)) k = attestations_of (nd_consensus n) k @
     (if k = bl_Number b \<and> vr_Valid (snd (VerifyBlock g (nd_verification n) b))
      then [new_attestation g (nd_consensus n) k (HexToHash g (bl_Hash b)) now] else [])"
  by (simp_all add: run_callback_def on_new_block_def Let_def split_beta attest_block_attestations)

lemma run_callback_peers:
  "dom (net_peers (nd_network (run_callback g post ks now now' b n))) = dom (net_peers (nd_network n))"
proof -
  have "dom (net_peers (fst (Broadcast w ks t q))) = dom (net_peers w)" for w t q
    using shape_broadcast [of w ks t q] by (intro same_shape_dom) simp
  then show ?thesis by (simp add: run_callback_def on_new_block_def Let_def split_beta attest_block_peers)
qed

text \<open>
  What the callbacks are for: the verification engine, and for each number the hashes attested
  under it. \<open>verify_attest\<close> is the callback of one block as a function of these.
\<close>

definition hashes :: "ConsensusEngine \<Rightarrow> uint64 \<Rightarrow> hash list" where
  "hashes e k = map at_BlockHash (attestations_of e k)"

definition attest_hash :: "Geth \<Rightarrow> L2Block \<Rightarrow> (uint64 \<Rightarrow> hash list) \<Rightarrow> uint64 \<Rightarrow> hash list" where
  "attest_hash g b h = h(bl_Number b := h (bl_Number b) @ [HexToHash g (bl_Hash b)])"

definition verify_attest :: "Geth \<Rightarrow> L2Block \<Rightarrow> VerifyEngine \<times> (uint64 \<Rightarrow> hash list) \<Rightarrow> VerifyEngine \<times> (uint64 \<Rightarrow> hash list)" where
  "verify_attest g b s = (case VerifyBlock g (fst s) b of
     (v, result) \<Rightarrow> (v, if vr_Valid result then attest_hash g b (snd s) else snd s))"

abbreviation verdicts :: "Node \<Rightarrow> VerifyEngine \<times> (uint64 \<Rightarrow> hash list)" where
  "verdicts n \<equiv> (nd_verification n, hashes (nd_consensus n))"

text \<open>What callbacks for \<open>bs\<close> in their order leave behind.\<close>

definition attest_run :: "Geth \<Rightarrow> Node \<Rightarrow> L2Block list \<Rightarrow> Node \<Rightarrow> bool" where
  "attest_run g n bs n' \<longleftrightarrow> verdicts n' = fold (verify_attest g) bs (verdicts n)"

lemma attest_run_Nil [simp]: "attest_run g n [] n' \<longleftrightarrow> verdicts n' = verdicts n"
  by (simp add: attest_run_def)

lemma attest_run_trans: "attest_run g n bs n' \<Longrightarrow> attest_run g n' cs n'' \<Longrightarrow> attest_run g n (bs @ cs) n''"
  by (simp add: attest_run_def)

lemma hashes_attest: "hashes (nd_consensus (attest_block g ks now now' b n)) = attest_hash g b (hashes (nd_consensus n))"
  by (auto simp: hashes_def attest_hash_def attest_block_attestations fun_eq_iff)

lemma hashes_callback:
  "hashes (nd_consensus (run_callback g post ks now now' b n)) =
     (if vr_Valid (snd (VerifyBlock g (nd_verification n) b)) then attest_hash g b (hashes (nd_consensus n)) else hashes (nd_consensus n))"
  by (auto simp: hashes_def attest_hash_def run_callback_frame fun_eq_iff)

lemma attest_run_callback: "attest_run g n [b] ((run_callback g post ks now now' b m)\<lparr>nd_poller := p\<rparr>)"
  if "nd_verification m = nd_verification n" "nd_consensus m = nd_consensus n"
  by (simp add: attest_run_def verify_attest_def run_callback_frame(4) hashes_callback that split_beta)

text \<open>A poll round no other goroutine disturbs, on any answers of the sequencer.\<close>

definition poll_ready :: "string list \<Rightarrow> Node \<Rightarrow> bool" where
  "poll_ready ks n \<longleftrightarrow> live n \<and> se_onNewBlock (nd_sync n) \<and> range_order (net_peers (nd_network n)) ks"

lemma poll_take_run:
  assumes "poll_ready ks n" "nd_poller n = PollerRound num remote None" "num \<le> remote" "fetchBlock post num = Ok b"
    and "commit_block (nd_sync n) b = (e, stored)"
  shows "\<exists>n'. (poll_step g post)\<^sup>*\<^sup>* n n' \<and> poll_ready ks n' \<and> nd_poller n' = PollerRound (num + 1) remote None \<and> nd_sync n' = e \<and>
    attest_run g n (if stored then [b] else []) n'"
proof -
  have r: "live n" "se_onNewBlock (nd_sync n)" "range_order (net_peers (nd_network n)) ks" using assms(1) by (simp_all add: poll_ready_def)
  define n1 where "n1 = n\<lparr>nd_sync := e, nd_poller := PollerRound (num + 1) remote (if stored then Some (Stored b) else None)\<rparr>"
  have s: "poll_step g post n n1"
    using poll_step.fetch [OF r(1) assms(2-4), of g] assms(5) by (simp add: poll_take_def n1_def)
  have r1: "poll_ready ks n1" using r commit_callback [OF assms(5)] by (simp add: poll_ready_def n1_def)
  show ?thesis
  proof (cases stored)
    case True
    let ?n = "(run_callback g post ks 0 0 b n1)\<lparr>nd_poller := PollerRound (num + 1) remote None\<rparr>"
    have "(poll_step g post)\<^sup>*\<^sup>* n1 ?n" using r1 True by (intro poll_callback_run) (simp_all add: poll_ready_def n1_def)
    moreover have "poll_ready ks ?n" using r1 by (simp add: poll_ready_def run_callback_frame run_callback_peers range_order_def)
    moreover have "attest_run g n [b] ?n" by (rule attest_run_callback) (simp_all add: n1_def)
    ultimately show ?thesis
      using converse_rtranclp_into_rtranclp [of "poll_step g post", OF s] True by (intro exI [of _ ?n]) (simp add: run_callback_frame n1_def)
  next
    case False
    then show ?thesis using r_into_rtranclp [of "poll_step g post", OF s] r1 by (intro exI [of _ n1]) (simp add: n1_def)
  qed
qed

lemma rpc_loop_run:
  assumes "rpc_loop post num remote e m ns = Some r" "poll_ready ks n" "nd_poller n = PollerRound num remote None" "nd_sync n = e"
  shows "\<exists>new n'. snd (snd r) = ns @ new \<and> (poll_step g post)\<^sup>*\<^sup>* n n' \<and> poll_ready ks n' \<and> nd_poller n' = PollerIdle \<and> nd_sync n' = fst r \<and>
    attest_run g n new n'"
proof -
  let ?P = "\<lambda>num e m ns r. \<forall>n. poll_ready ks n \<longrightarrow> nd_poller n = PollerRound num remote None \<longrightarrow> nd_sync n = e \<longrightarrow>
    (\<exists>new n'. snd (snd r) = ns @ new \<and> (poll_step g post)\<^sup>*\<^sup>* n n' \<and> poll_ready ks n' \<and> nd_poller n' = PollerIdle \<and> nd_sync n' = fst r \<and> attest_run g n new n')"
  have "?P num e m ns r"
  proof (rule rpc_loop_rule [where P = ?P, OF assms(1)], intro allI impI)
    fix num e ns n and m :: "Metrics option"
    assume h: "\<not> num \<le> remote \<or> (\<forall>b. fetchBlock post num \<noteq> Ok b)" "poll_ready ks n" "nd_poller n = PollerRound num remote None" "nd_sync n = e"
    have "poll_step g post n (n\<lparr>nd_poller := PollerIdle\<rparr>)" using h by (intro poll_step.stop) (simp_all add: poll_ready_def)
    then show "\<exists>new n'. snd (snd (e, m, ns)) = ns @ new \<and> (poll_step g post)\<^sup>*\<^sup>* n n' \<and> poll_ready ks n' \<and> nd_poller n' = PollerIdle \<and>
        nd_sync n' = fst (e, m, ns) \<and> attest_run g n new n'"
      using h by (intro exI [of _ "[]"] exI [of _ "n\<lparr>nd_poller := PollerIdle\<rparr>"]) (simp add: poll_ready_def)
  next
    fix num e m ns b e' m' ns' and r :: "SyncEngine \<times> Metrics option \<times> L2Block list"
    assume h: "num \<le> remote" "fetchBlock post num = Ok b" "processBlock post e m b = (e', m', ns')" and ih: "?P (num + 1) e' m' (ns @ ns') r"
    show "?P num e m ns r"
    proof (intro allI impI)
      fix n assume n: "poll_ready ks n" "nd_poller n = PollerRound num remote None" "nd_sync n = e"
      obtain stored where c: "commit_block (nd_sync n) b = (e', stored)" "ns' = (if stored then [b] else [])"
        using h(3) n(3) by (auto simp: processBlock_def split: prod.splits bool.splits)
      obtain n1 where n1: "(poll_step g post)\<^sup>*\<^sup>* n n1" "poll_ready ks n1" "nd_poller n1 = PollerRound (num + 1) remote None" "nd_sync n1 = e'"
          "attest_run g n ns' n1"
        using poll_take_run [OF n(1,2) h(1,2) c(1), of g] c(2) by blast
      then obtain new n' where "snd (snd r) = (ns @ ns') @ new" "(poll_step g post)\<^sup>*\<^sup>* n1 n'" "poll_ready ks n'" "nd_poller n' = PollerIdle"
          "nd_sync n' = fst r" "attest_run g n1 new n'"
        using ih by blast
      then show "\<exists>new n'. snd (snd r) = ns @ new \<and> (poll_step g post)\<^sup>*\<^sup>* n n' \<and> poll_ready ks n' \<and> nd_poller n' = PollerIdle \<and> nd_sync n' = fst r \<and>
          attest_run g n new n'"
        using rtranclp_trans [OF n1(1)] attest_run_trans [OF n1(5)] by (intro exI [of _ "ns' @ new"] exI [of _ n']) simp
    qed
  qed
  then show ?thesis using assms(2-4) by blast
qed

section \<open>A round\<close>

text \<open>
  One call of \<^verbatim>\<open>syncFromRPC\<close> by the idle poll loop, as steps of this goroutine only: nothing when
  there is nothing to fetch, and else the steps from the start of the round to its end.
\<close>

definition poll_round :: "Geth \<Rightarrow> http_post \<Rightarrow> Node \<Rightarrow> Node \<Rightarrow> bool" where
  "poll_round g post n n' \<longleftrightarrow> (case fetchLatestBlockNumber post of
     Ok remote \<Rightarrow> if remote \<le> LatestBlock (nd_sync n) then n' = n
       else (poll_step g post)\<^sup>*\<^sup>* (n\<lparr>nd_poller := PollerRound (LatestBlock (nd_sync n) + 1) remote None\<rparr>) n' \<and> nd_poller n' = PollerIdle
   | _ \<Rightarrow> n' = n)"

lemma poll_steps: "(poll_step g post)\<^sup>*\<^sup>* n n' \<Longrightarrow> (node_step g)\<^sup>*\<^sup>* n n'"
  by (induction rule: rtranclp_induct) (auto intro: node_step.poll rtranclp.rtrancl_into_rtrancl)

lemma poll_round_steps:
  assumes "poll_round g post n n'" "live n" "nd_poller n = PollerIdle"
  shows "(node_step g)\<^sup>*\<^sup>* n n'"
proof (cases "n' = n")
  case False
  then obtain remote where r: "fetchLatestBlockNumber post = Ok remote" "LatestBlock (nd_sync n) < remote"
      "(poll_step g post)\<^sup>*\<^sup>* (n\<lparr>nd_poller := PollerRound (LatestBlock (nd_sync n) + 1) remote None\<rparr>) n'"
    using assms(1) by (auto simp: poll_round_def not_le split: go_result.splits if_splits)
  show ?thesis
    by (rule converse_rtranclp_into_rtranclp [OF node_step.poll_start [OF assms(2,3) r(1,2)] poll_steps [OF r(3)]])
qed simp

text \<open>When the sequential program returns, the round can be run to its end.\<close>

lemma poll_round_exists:
  assumes "syncFromRPC post (nd_sync n) m = Some (e, m', bs)" "poll_ready ks n"
  shows "\<exists>n'. poll_round g post n n'"
proof (cases "\<exists>remote. fetchLatestBlockNumber post = Ok remote \<and> \<not> remote \<le> LatestBlock (nd_sync n)")
  case True
  then obtain remote where r: "fetchLatestBlockNumber post = Ok remote" "\<not> remote \<le> LatestBlock (nd_sync n)" by blast
  let ?n = "n\<lparr>nd_poller := PollerRound (LatestBlock (nd_sync n) + 1) remote None\<rparr>"
  have l: "rpc_loop post (LatestBlock (nd_sync n) + 1) remote (nd_sync n) m [] = Some (e, m', bs)"
    using assms(1) r by (simp add: syncFromRPC_def)
  have "poll_ready ks ?n" using assms(2) by (simp add: poll_ready_def)
  then show ?thesis using rpc_loop_run [OF l, of ks ?n g] r by (auto simp: poll_round_def)
next
  case False
  then have "poll_round g post n n" by (auto simp: poll_round_def split: go_result.split)
  then show ?thesis ..
qed

text \<open>What is left of a callback, as a function of the verdicts.\<close>

fun callback_rest :: "Geth \<Rightarrow> callback option \<Rightarrow> VerifyEngine \<times> (uint64 \<Rightarrow> hash list) \<Rightarrow> VerifyEngine \<times> (uint64 \<Rightarrow> hash list)" where
  "callback_rest g None s = s"
| "callback_rest g (Some (Stored b)) s = verify_attest g b s"
| "callback_rest g (Some (Gauged b)) s = verify_attest g b s"
| "callback_rest g (Some (Matched b r)) s = ((fst s)\<lparr>stateRoot := r\<rparr>, attest_hash g b (snd s))"
| "callback_rest g (Some (Verified b)) s = (fst s, attest_hash g b (snd s))"

lemma callback_rest_step:
  assumes "callback_step g post ks now now' cb n = (n', rest)" "se_onNewBlock (nd_sync n)"
  shows "callback_rest g rest (verdicts n') = callback_rest g (Some cb) (verdicts n)"
proof (cases cb)
  case (Stored b)
  then show ?thesis using assms by (auto simp: callback_step_def)
next
  case (Gauged b)
  then show ?thesis
    using assms(1) VerifyBlock_state [of g "nd_verification n" b] by (auto simp: callback_step_def verify_attest_def split: prod.splits if_splits)
next
  case (Matched b r)
  then show ?thesis using assms(1) by (auto simp: callback_step_def)
next
  case (Verified b)
  then show ?thesis using assms(1) by (auto simp: callback_step_def hashes_attest)
qed

text \<open>
  Whatever steps the loop takes to the end of the round, they amount to the sequential loop over
  the remaining numbers, and to the remaining callbacks in their order.
\<close>

lemma poll_sound:
  assumes "(poll_step g post)\<^sup>*\<^sup>* n n'" "nd_poller n' = PollerIdle" "se_onNewBlock (nd_sync n)"
  shows "(nd_poller n = PollerIdle \<longrightarrow> nd_sync n' = nd_sync n \<and> verdicts n' = verdicts n) \<and>
    (\<forall>num remote cb. nd_poller n = PollerRound num remote cb \<longrightarrow> (\<exists>new.
       (\<forall>m ns. \<exists>m'. rpc_loop post num remote (nd_sync n) m ns = Some (nd_sync n', m', ns @ new)) \<and>
       verdicts n' = fold (verify_attest g) new (callback_rest g cb (verdicts n))))"
  using assms(1,3)
proof (induction rule: converse_rtranclp_induct)
  case base
  then show ?case using assms(2) by simp
next
  case (step n n1)
  have s1: "se_onNewBlock (nd_sync n1)" using node_step_callback [OF node_step.poll [OF step.hyps(1)]] step.prems by simp
  note ih = step.IH [OF s1]
  from step.hyps(1) show ?case
  proof cases
    case (fetch num remote b)
    obtain e stored where c: "commit_block (nd_sync n) b = (e, stored)" by fastforce
    have n1: "nd_poller n1 = PollerRound (num + 1) remote (if stored then Some (Stored b) else None)" "nd_sync n1 = e" "verdicts n1 = verdicts n"
      using fetch(1) c by (simp_all add: poll_take_def)
    obtain new where new: "\<And>m ns. \<exists>m'. rpc_loop post (num + 1) remote e m ns = Some (nd_sync n', m', ns @ new)"
        "verdicts n' = fold (verify_attest g) new (callback_rest g (if stored then Some (Stored b) else None) (verdicts n))"
      using ih n1 by metis
    have "\<exists>m'. rpc_loop post num remote (nd_sync n) m ns = Some (nd_sync n', m', ns @ (if stored then [b] else []) @ new)" for m ns
    proof -
      obtain m1 where p: "processBlock post (nd_sync n) m b = (e, m1, if stored then [b] else [])"
        using c by (cases stored) (auto simp: processBlock_def)
      show ?thesis using new(1) [of m1 "ns @ (if stored then [b] else [])"] fetch(4,5) p by (subst rpc_loop.simps) auto
    qed
    moreover have "verdicts n' = fold (verify_attest g) ((if stored then [b] else []) @ new) (verdicts n)" using new(2) by simp
    ultimately have "\<exists>new. (\<forall>m ns. \<exists>m'. rpc_loop post num remote (nd_sync n) m ns = Some (nd_sync n', m', ns @ new)) \<and>
        verdicts n' = fold (verify_attest g) new (callback_rest g None (verdicts n))"
      by (intro exI [of _ "(if stored then [b] else []) @ new"]) simp
    then show ?thesis using fetch(3) by simp
  next
    case (callback num remote cb ks now now' m rest)
    have n1: "nd_poller n1 = PollerRound num remote rest" "nd_sync n1 = nd_sync n" "verdicts n1 = verdicts m"
      using callback(1) callback_step_sync [OF callback(5)] by simp_all
    obtain new where "\<And>m ns. \<exists>m'. rpc_loop post num remote (nd_sync n) m ns = Some (nd_sync n', m', ns @ new)"
        "verdicts n' = fold (verify_attest g) new (callback_rest g rest (verdicts m))"
      using ih n1 by metis
    then show ?thesis using callback(3) callback_rest_step [OF callback(5) step.prems] by auto
  next
    case (stop num remote)
    then have "nd_sync n' = nd_sync n" "verdicts n' = verdicts n" using ih by simp_all
    moreover have "rpc_loop post num remote (nd_sync n) m ns = Some (nd_sync n, m, ns)" for m ns
      using stop(4) by (subst rpc_loop.simps) (auto split: go_result.split)
    ultimately show ?thesis using stop(3) by (auto intro: exI [of _ "[]"])
  qed
qed

lemma poll_round_sound:
  assumes "poll_round g post n n'" "se_onNewBlock (nd_sync n)" "nd_poller n = PollerIdle"
  shows "nd_poller n' = PollerIdle \<and>
    (\<exists>m' bs. syncFromRPC post (nd_sync n) m = Some (nd_sync n', m', bs) \<and> attest_run g n bs n')"
proof (cases "\<exists>remote. fetchLatestBlockNumber post = Ok remote \<and> \<not> remote \<le> LatestBlock (nd_sync n)")
  case True
  then obtain remote where r: "fetchLatestBlockNumber post = Ok remote" "\<not> remote \<le> LatestBlock (nd_sync n)" by blast
  let ?n = "n\<lparr>nd_poller := PollerRound (LatestBlock (nd_sync n) + 1) remote None\<rparr>"
  have p: "(poll_step g post)\<^sup>*\<^sup>* ?n n'" "nd_poller n' = PollerIdle" using assms(1) r by (simp_all add: poll_round_def)
  have v: "verdicts ?n = verdicts n" by simp
  obtain new where "\<exists>m'. rpc_loop post (LatestBlock (nd_sync n) + 1) remote (nd_sync n) m [] = Some (nd_sync n', m', new)"
      "verdicts n' = fold (verify_attest g) new (verdicts n)"
    using poll_sound [OF p] assms(2) v by fastforce
  then show ?thesis using p(2) r by (auto simp: syncFromRPC_def attest_run_def)
next
  case False
  then have "n' = n" using assms(1) by (auto simp: poll_round_def split: go_result.splits)
  moreover have "syncFromRPC post (nd_sync n) m = Some (nd_sync n, m, [])"
    using False by (auto simp: syncFromRPC_def split: go_result.split)
  ultimately show ?thesis using assms(3) by simp
qed

end
