(* ===== verification/Runs.thy ===== *)
theory Runs
  imports PollRound
begin

text \<open>
  Runs of the whole node: an honest sequencer, the life of the process from start to exit, and
  the properties of the running node.
\<close>

section \<open>Chains with the right roots\<close>

text \<open>All blocks of a chain whose claimed roots are right are attested.\<close>

lemma fold_verify_attest:
  "claims_ok g (stateRoot v) bs \<Longrightarrow>
    snd (fold (verify_attest g) bs (v, h)) k = h k @ map (\<lambda>b. HexToHash g (bl_Hash b)) (filter (\<lambda>b. bl_Number b = k) bs)"
proof (induction bs arbitrary: v h)
  case (Cons b bs)
  have "vr_Valid (snd (VerifyBlock g v b))" using Cons.prems by (simp add: VerifyBlock_valid)
  then have "verify_attest g b (v, h) = (v\<lparr>stateRoot := next_root (stateRoot v) b\<rparr>, attest_hash g b h)"
    using VerifyBlock_state [of g v b] by (simp add: verify_attest_def split_beta)
  moreover have "attest_hash g b h k = h k @ (if bl_Number b = k then [HexToHash g (bl_Hash b)] else [])" by (simp add: attest_hash_def)
  ultimately show ?case using Cons.IH [of "v\<lparr>stateRoot := next_root (stateRoot v) b\<rparr>" "attest_hash g b h"] Cons.prems by simp
qed simp

text \<open>Blocks numbered from \<open>k\<close> on.\<close>

fun numbered :: "nat \<Rightarrow> L2Block list \<Rightarrow> bool" where
  "numbered k [] \<longleftrightarrow> True"
| "numbered k (b # bs) \<longleftrightarrow> bl_Number b = word_of_nat k \<and> numbered (Suc k) bs"

lemma word_of_nat_inject: "i < 2 ^ 64 \<Longrightarrow> j < 2 ^ 64 \<Longrightarrow> (word_of_nat i :: uint64) = word_of_nat j \<longleftrightarrow> i = j"
  by (simp add: word_unat_eq_iff unat_of_nat)

section \<open>An honest sequencer\<close>

lemma numbered_nth: "numbered k bs \<Longrightarrow> i < length bs \<Longrightarrow> bl_Number (bs ! i) = word_of_nat (k + i)"
  by (induction bs arbitrary: k i) (auto simp: nth_Cons' Suc_diff_le split: if_splits)

lemma honest_fetch:
  assumes "numbered 1 chain" "length chain < 2 ^ 64" "list_all block_utf8 chain" "b \<in> set chain"
  shows "fetchBlock (honest_post chain) (bl_Number b) = Ok b"
proof -
  obtain i where i: "i < length chain" "chain ! i = b" using assms(4) by (auto simp: in_set_conv_nth)
  have uniq: "j = i" if "j < length chain" "bl_Number (chain ! j) = bl_Number b" for j
  proof -
    have "(word_of_nat (1 + j) :: uint64) = word_of_nat (1 + i)"
      using that i numbered_nth [OF assms(1)] by metis
    then show "j = i" using that(1) i(1) assms(2) by (subst (asm) word_of_nat_inject) auto
  qed
  have "bl_Number b \<noteq> bl_Number (chain ! j)" if "j < i" for j using uniq [of j] that i(1) by auto
  then have "find (\<lambda>b'. bl_Number b = bl_Number b') chain = Some b"
    unfolding find_Some_iff by (intro exI [of _ i]) (simp add: i)
  then show ?thesis
    using assms(3,4) by (intro fetchBlock_response)
      (simp_all add: honest_post_def block_request_inject list_all_iff)
qed

lemma uint_small: "i < 2 ^ 64 \<Longrightarrow> uint (word_of_nat i :: uint64) = int i"
  by (simp add: uint_nat unat_of_nat)

text \<open>A node whose sync engine is empty, polling an honest sequencer, gets all its blocks.\<close>

lemma honest_sync:
  assumes "numbered 1 chain" "Suc (length chain) < 2 ^ 64" "list_all block_utf8 chain" "sync_inv e" "latestBlock e = 0"
  obtains e' m' where "syncFromRPC (honest_post chain) e m = Some (e', m', chain)" "latestBlock e' = word_of_nat (length chain)"
    "IsSynced (honest_post chain) e'" "\<forall>b \<in> set chain. sblocks e' (bl_Number b) = Some b"
proof -
  let ?r = "word_of_nat (length chain) :: uint64" and ?c = "\<lambda>n :: uint64. chain ! (unat n - 1)"
  have u: "unat ?r = length chain" "uint ?r = int (length chain)" using assms(2) by (simp_all add: unat_of_nat uint_small)
  have latest: "fetchLatestBlockNumber (honest_post chain) = Ok ?r"
    using u(2) by (intro fetchLatest_response) (simp add: honest_post_def)
  have nth: "?c n \<in> set chain \<and> bl_Number (?c n) = n" if "0 < n" "n \<le> ?r" for n :: uint64
  proof -
    have n: "0 < unat n" "unat n \<le> length chain" using that u(1) by (simp_all add: word_less_nat_alt word_le_nat_alt)
    then have i: "unat n - 1 < length chain" by simp
    have "bl_Number (?c n) = word_of_nat (unat n)" using numbered_nth [OF assms(1) i] n(1) by simp
    then show ?thesis using nth_mem [OF i] by simp
  qed
  have f: "fetchBlock (honest_post chain) n = Ok (?c n) \<and> bl_Number (?c n) = n" if "latestBlock e < n" "n \<le> ?r" for n
    using honest_fetch [OF assms(1) _ assms(3), of "?c n"] nth [of n] that assms(2,5) by simp
  have "?r \<noteq> -1"
  proof
    assume "?r = -1"
    then have "(word_of_nat (Suc (length chain)) :: uint64) = word_of_nat 0" by simp
    then show False using assms(2) by (subst (asm) word_of_nat_inject) simp_all
  qed
  then obtain e' m' where l: "rpc_loop (honest_post chain) (latestBlock e + 1) ?r e m [] =
      Some (e', m', map (\<lambda>i. ?c (word_of_int i)) [uint (latestBlock e) + 1..uint ?r])"
    and p: "latestBlock e' = ?r" "\<forall>n. latestBlock e < n \<longrightarrow> n \<le> ?r \<longrightarrow> sblocks e' n = Some (?c n)" "sync_inv e'" "sync_le e e'"
    using rpc_loop_catchup [where m = m and ns = "[]" and r = ?r and chain = ?c, OF assms(4) _ _ f] assms(5) by auto
  have c: "map (\<lambda>i. ?c (word_of_int i)) [uint (latestBlock e) + 1..uint ?r] = chain"
  proof (rule nth_equalityI)
    show "length (map (\<lambda>i. ?c (word_of_int i)) [uint (latestBlock e) + 1..uint ?r]) = length chain"
      using assms(5) u(2) by simp
    fix i assume "i < length (map (\<lambda>i. ?c (word_of_int i)) [uint (latestBlock e) + 1..uint ?r])"
    then have i: "i < length chain" using assms(5) u(2) by simp
    have "unat (word_of_int (1 + int i) :: uint64) = Suc i"
      using i assms(2) unat_of_nat [of "Suc i", where ?'a = 64] by simp
    then show "map (\<lambda>i. ?c (word_of_int i)) [uint (latestBlock e) + 1..uint ?r] ! i = chain ! i"
      using i assms(5) u(2) by simp
  qed
  have s: "sblocks e' (bl_Number b) = Some b" if b: "b \<in> set chain" for b
  proof -
    obtain i where i: "i < length chain" "chain ! i = b" using b by (auto simp: in_set_conv_nth)
    have n: "bl_Number b = word_of_nat (Suc i)" using numbered_nth [OF assms(1) i(1)] i(2) by simp
    then have "unat (bl_Number b) = Suc i" using i(1) assms(2) by (simp add: unat_of_nat del: of_nat_Suc)
    then show ?thesis using p(2) [rule_format, of "bl_Number b"] assms(5) u(1) i by (simp add: word_less_nat_alt word_le_nat_alt)
  qed
  show thesis
  proof (cases "chain = []")
    case True
    then have "syncFromRPC (honest_post chain) e m = Some (e, m, chain)" using latest assms(5) by (simp add: syncFromRPC_def LatestBlock_def)
    then show ?thesis using that True latest assms(5) by (simp add: IsSynced_def LatestBlock_def)
  next
    case False
    then have "\<not> ?r \<le> LatestBlock e" using assms(5) u(1) by (simp add: LatestBlock_def word_le_nat_alt)
    then have "syncFromRPC (honest_post chain) e m = Some (e', m', chain)"
      using latest l c by (simp add: syncFromRPC_def LatestBlock_def)
    then show ?thesis using that p(1) s latest by (simp add: IsSynced_def LatestBlock_def)
  qed
qed

text \<open>The built node after the first two statements of \<^verbatim>\<open>main\<close>.\<close>

lemma started_run:
  assumes "key_bytes envKey = Some kb" "toECDSA kb = Some key" "new_node g toECDSA cfg envKey conns clock = Ok n0"
  obtains n where "(node_step g)\<^sup>*\<^sup>* n0 n" "poll_ready [] n" "nd_poller n = PollerIdle" "nd_verification n = NewVerifyEngine"
    "sync_inv (nd_sync n)" "latestBlock (nd_sync n) = 0" "nd_consensus n = nd_consensus n0"
proof -
  have m: "uint (MinStake (cfg_Validator cfg)) < 2 ^ 63"
    using new_node_refused [where toECDSA = toECDSA, OF assms(1,2), of cfg g conns clock] assms(3)
    by (cases "uint (MinStake (cfg_Validator cfg)) < 2 ^ 63") auto
  have n0: "nd_main n0 = StartNet" "nd_sync n0 = OnNewBlock (NewSyncEngine (cfg_Sequencer cfg))" "nd_verification n0 = NewVerifyEngine"
      "nd_network n0 = NewNetwork (cfg_Validator cfg) conns"
    using new_node_Ok [where toECDSA = toECDSA, OF assms(1,2) m, of g conns clock] assms(3) by auto
  define n1 where "n1 = n0\<lparr>nd_network := (nd_network n0)\<lparr>net_listening := True\<rparr>, nd_main := StartSync\<rparr>"
  define n2 where "n2 = n1\<lparr>nd_sync := StartSyncEngine (nd_sync n1), nd_listener := ListenerIdle, nd_poller := PollerIdle, nd_main := StartConsensus\<rparr>"
  have p: "net_peers (nd_network n0) = Map.empty" by (simp add: n0(4) NewNetwork_def)
  have s1: "node_step g n0 n1"
    using node_step.main [of n0 "[]" g True False] n0(1) p by (simp add: live_def main_step_def StartNetwork_def n1_def range_order_def)
  have s2: "node_step g n1 n2"
    using node_step.main [of n1 "[]" g True False] p by (simp add: live_def main_step_def n2_def range_order_def) (simp add: n1_def)
  show thesis
    using that [OF converse_rtranclp_into_rtranclp [OF s1 r_into_rtranclp [of "node_step g", OF s2]]] n0 p
    by (simp add: n2_def n1_def live_def OnNewBlock_def NewSyncEngine_def StartSyncEngine_def poll_ready_def range_order_def sync_inv_def)
qed

lemma honest_run:
  assumes "key_bytes envKey = Some kb" "toECDSA kb = Some key" "new_node g toECDSA cfg envKey conns clock = Ok n0"
    and "numbered 1 chain" "Suc (length chain) < 2 ^ 64" "list_all block_utf8 chain" "claims_ok g (stateRoot NewVerifyEngine) chain"
  obtains n where "(node_step g)\<^sup>*\<^sup>* n0 n" "latestBlock (nd_sync n) = word_of_nat (length chain)" "IsSynced (honest_post chain) (nd_sync n)"
    "\<forall>b \<in> set chain. sblocks (nd_sync n) (bl_Number b) = Some b \<and> attestations_of (nd_consensus n) (bl_Number b) \<noteq> []"
proof -
  obtain n1 where n1: "(node_step g)\<^sup>*\<^sup>* n0 n1" "poll_ready [] n1" "nd_poller n1 = PollerIdle" "nd_verification n1 = NewVerifyEngine"
      "sync_inv (nd_sync n1)" "latestBlock (nd_sync n1) = 0" "nd_consensus n1 = nd_consensus n0"
    by (rule started_run [where toECDSA = toECDSA, OF assms(1-3)])
  obtain e' m' where e: "syncFromRPC (honest_post chain) (nd_sync n1) None = Some (e', m', chain)" "latestBlock e' = word_of_nat (length chain)"
      "IsSynced (honest_post chain) e'" "\<forall>b \<in> set chain. sblocks e' (bl_Number b) = Some b"
    by (rule honest_sync [OF assms(4-6) n1(5,6)])
  obtain n where r: "poll_round g (honest_post chain) n1 n" using poll_round_exists [OF e(1) n1(2)] by blast
  have "live n1" "se_onNewBlock (nd_sync n1)" using n1(2) by (simp_all add: poll_ready_def)
  then have n: "(node_step g)\<^sup>*\<^sup>* n1 n" "nd_sync n = e'" "attest_run g n1 chain n"
    using poll_round_steps [OF r _ n1(3)] poll_round_sound [OF r _ n1(3), of None] e(1) by auto
  have "attestations_of (nd_consensus n) (bl_Number b) \<noteq> []" if "b \<in> set chain" for b
  proof -
    have "hashes (nd_consensus n) (bl_Number b) = hashes (nd_consensus n1) (bl_Number b) @
        map (\<lambda>b. HexToHash g (bl_Hash b)) (filter (\<lambda>b'. bl_Number b' = bl_Number b) chain)"
      using n(3) fold_verify_attest [of g "nd_verification n1" chain "hashes (nd_consensus n1)" "bl_Number b"] assms(7) n1(4)
      unfolding attest_run_def by (metis snd_conv)
    then have "hashes (nd_consensus n) (bl_Number b) \<noteq> []" using that by (auto simp: filter_empty_conv)
    then show ?thesis by (simp add: hashes_def)
  qed
  then show thesis using that [OF rtranclp_trans [OF n1(1) n(1)]] n(2) e by simp
qed

section \<open>The life of the process\<close>

text \<open>The statements of \<^verbatim>\<open>main\<close> still to be run.\<close>

fun main_left :: "main_pc \<Rightarrow> nat" where
  "main_left StartNet = 17"
| "main_left StartSync = 16"
| "main_left StartConsensus = 15"
| "main_left StartRpc = 14"
| "main_left ServeMetrics = 13"
| "main_left WireSync = 12"
| "main_left WireVerify = 11"
| "main_left WireConsensus = 10"
| "main_left WireRpc = 9"
| "main_left SeedPeers = 8"
| "main_left SeedStake = 7"
| "main_left WaitSignal = 6"
| "main_left CancelAll = 5"
| "main_left StopNet = 4"
| "main_left StopSync = 3"
| "main_left StopConsensus = 2"
| "main_left StopRpc = 1"
| "main_left Exited = 0"

lemma main_left_exited: "main_left pc = 0 \<longleftrightarrow> pc = Exited"
  by (cases pc) simp_all

text \<open>
  A statement is always done at once, but for two: the signal, which the model takes at any time,
  and the stop of the server, which waits while requests are in flight.
\<close>

lemma StopServer_waits: "fst (StopServer s k expired) = StillWaiting \<longleftrightarrow> srv_httpServer s \<noteq> None \<and> 0 < k \<and> \<not> expired"
  by (simp add: StopServer_def split: option.split)

lemma server_http [simp]: "srv_httpServer (server_of n) = nd_httpServer n"
  by (simp add: server_of_def)

lemma main_step_left:
  assumes "live n"
  shows "nd_pending n = [] \<or> expired \<Longrightarrow> main_left (nd_main (main_step True expired ks n)) = main_left (nd_main n) - 1"
    and "nd_main (main_step bound expired ks n) = nd_main n \<or> main_left (nd_main (main_step bound expired ks n)) < main_left (nd_main n)"
proof -
  show "main_left (nd_main (main_step True expired ks n)) = main_left (nd_main n) - 1" if "nd_pending n = [] \<or> expired"
    using assms that StopServer_waits [of "server_of n" "length (nd_pending n)" expired]
    by (cases "nd_main n") (auto simp: live_def main_step_def StartNetwork_def split_beta)
  show "nd_main (main_step bound expired ks n) = nd_main n \<or> main_left (nd_main (main_step bound expired ks n)) < main_left (nd_main n)"
    using assms by (cases "nd_main n") (simp_all add: live_def main_step_def StartNetwork_def split_beta)
qed

lemma main_step_pending: "nd_pending (main_step bound expired ks n) = nd_pending n"
  by (simp add: main_step_def split: main_pc.split go_result.split prod.split)

lemma callback_step_main:
  "callback_step g post ks now now' cb n = (n', rest) \<Longrightarrow> nd_main n' = nd_main n \<and> nd_httpServer n' = nd_httpServer n"
  by (auto simp: callback_step_def split: callback.splits prod.splits)

lemma poll_step_main: "poll_step g post n n' \<Longrightarrow> nd_main n' = nd_main n \<and> nd_httpServer n' = nd_httpServer n"
  by (cases rule: poll_step.cases) (auto simp: poll_take_def callback_step_main split: prod.split)

text \<open>Only \<^verbatim>\<open>main\<close> moves \<^verbatim>\<open>main\<close>, and the server.\<close>

lemma node_step_main_cases:
  assumes "node_step g n n'"
  shows "nd_main n' = nd_main n \<and> nd_httpServer n' = nd_httpServer n \<or> live n \<and> (\<exists>bound expired ks. n' = main_step bound expired ks n)"
  using assms
  by cases (auto simp: gossip_take_def take_request_def callback_step_main poll_step_main put_metrics_frame split: go_result.split prod.split)

lemma node_step_main:
  assumes "node_step g n n'"
  shows "nd_main n' = nd_main n \<or> main_left (nd_main n') < main_left (nd_main n)"
  using node_step_main_cases [OF assms] main_step_left(2) by blast

lemma exited_stuck: "nd_main n = Exited \<Longrightarrow> \<not> node_step g n n'"
  by (auto simp: live_def elim!: node_stepE poll_stepE)

lemma main_step_peers: "dom (net_peers (nd_network (main_step bound expired ks n))) = dom (net_peers (nd_network n))"
proof -
  have "dom (net_peers (StopNetwork w ks)) = dom (net_peers w)" for w
    using shape_stop [of w ks] by (intro same_shape_dom) simp
  then show ?thesis by (simp add: main_step_def StartNetwork_def split: main_pc.split prod.split)
qed

text \<open>From the start of the RPC server on, there is a server to stop.\<close>

definition server_started :: "Node \<Rightarrow> bool" where
  "server_started n \<longleftrightarrow> (main_left (nd_main n) \<le> 13 \<longrightarrow> nd_main n \<noteq> Exited \<longrightarrow> nd_httpServer n \<noteq> None)"

lemma main_step_started: "server_started n \<Longrightarrow> server_started (main_step bound expired ks n)"
  by (cases "nd_main n")
    (simp_all add: server_started_def main_step_def StartNetwork_def StartServer_def StopServer_def del: not_None_eq split: prod.split option.split)

lemma reachable_started:
  assumes "boot fs env yaml path g toECDSA conns clock = Ok n0" "(node_step g)\<^sup>*\<^sup>* n0 n"
  shows "server_started n"
  using assms(2)
proof (induction rule: rtranclp_induct)
  case base
  have "nd_main n0 = StartNet" using assms(1) by (auto simp: boot_def new_node_def Let_def split: go_result.splits option.splits prod.splits)
  then show ?case by (simp add: server_started_def)
next
  case (step n n')
  then show ?case using node_step_main_cases [OF step(2)] main_step_started by (auto simp: server_started_def)
qed

text \<open>The statements of \<^verbatim>\<open>main\<close> alone, to the end, when no request is in flight or the deadline has passed.\<close>

lemma main_run:
  fixes expired ks
  defines "f \<equiv> main_step True expired ks"
  assumes "nd_pending n = [] \<or> expired" "range_order (net_peers (nd_network n)) ks" "main_left (nd_main n) = d"
  shows "(node_step g ^^ d) n ((f ^^ d) n) \<and> nd_main ((f ^^ d) n) = Exited \<and> same_books n ((f ^^ d) n)"
  using assms(2-)
proof (induction d arbitrary: n)
  case 0
  then show ?case by (simp add: same_books_def main_left_exited)
next
  case (Suc d)
  have l: "live n" using Suc.prems(3) main_left_exited [of "nd_main n"] by (auto simp: live_def)
  have s: "node_step g n (f n)" unfolding f_def by (rule node_step.main [OF l Suc.prems(2)])
  have r: "range_order (net_peers (nd_network (f n))) ks"
    unfolding f_def using Suc.prems(2) main_step_peers [of True expired ks n] by (simp add: range_order_def)
  have "nd_pending (f n) = [] \<or> expired" "main_left (nd_main (f n)) = d"
    unfolding f_def using Suc.prems(1,3) main_step_left(1) [OF l, of expired ks] by (simp_all add: main_step_pending)
  note ih = Suc.IH [OF this(1) r this(2)]
  have "(node_step g ^^ Suc d) n ((f ^^ d) (f n))" using relpowp_Suc_I2 [of "node_step g", OF s] ih by blast
  moreover have "same_books n ((f ^^ d) (f n))"
    using ih main_step_books [of n True expired ks] by (simp add: f_def same_books_def)
  ultimately show ?case using ih by (simp add: funpow_swap1)
qed

text \<open>Requests in flight can be brought to their end, whether or not new ones are taken.\<close>

lemma request_done:
  assumes "live n" "nd_pending n = q # qs"
  shows "\<exists>n'. (node_step g)\<^sup>*\<^sup>* n n' \<and> nd_main n' = nd_main n \<and> nd_httpServer n' = nd_httpServer n \<and> nd_pending n' = qs"
proof -
  have w: "\<exists>n'. node_step g m n' \<and> nd_main n' = nd_main m \<and> nd_httpServer n' = nd_httpServer m \<and> nd_pending n' = qs"
    if "live m" "nd_pending m = RootRead r # qs" for m r
    using node_step.request_write [of m "[]" r qs g] that by force
  show ?thesis
  proof (cases q)
    case (RootRead r)
    then show ?thesis using w [OF assms(1)] assms(2) by (metis r_into_rtranclp)
  next
    case (Received path r)
    define e where "e = example_env\<lparr>env_geth := g\<rparr>"
    let ?n = "take_request e example_orders path r (n\<lparr>nd_pending := [] @ qs\<rparr>)"
    have s: "node_step g n ?n" by (rule node_step.request [of n "[]" path r qs]) (use assms Received in \<open>simp_all add: e_def\<close>)
    have f: "nd_main ?n = nd_main n" "nd_httpServer ?n = nd_httpServer n" "nd_pending ?n = qs \<or> (\<exists>x. nd_pending ?n = RootRead x # qs)"
      by (simp_all add: take_request_def split: prod.split)
    then have "live ?n" using assms(1) by (simp add: live_def)
    then show ?thesis
      using f w [of ?n] r_into_rtranclp [of "node_step g", OF s] converse_rtranclp_into_rtranclp [of "node_step g", OF s]
      by (metis r_into_rtranclp)
  qed
qed

lemma requests_done:
  assumes "live n" "nd_pending n = qs"
  shows "\<exists>n'. (node_step g)\<^sup>*\<^sup>* n n' \<and> nd_main n' = nd_main n \<and> nd_httpServer n' = nd_httpServer n \<and> nd_pending n' = []"
  using assms
proof (induction qs arbitrary: n)
  case (Cons q qs)
  obtain n1 where n1: "(node_step g)\<^sup>*\<^sup>* n n1" "nd_main n1 = nd_main n" "nd_httpServer n1 = nd_httpServer n" "nd_pending n1 = qs"
    using request_done [OF Cons.prems, of g] by blast
  moreover have "live n1" using n1(2) Cons.prems(1) by (simp add: live_def)
  ultimately show ?case using Cons.IH [of n1] by (metis rtranclp_trans)
qed blast

section \<open>Example\<close>

text \<open>The started node polls a sequencer with two blocks and attests both.\<close>

lemma example_chain_ok:
  "numbered 1 example_chain" "Suc (length example_chain) < 2 ^ 64" "claims_ok example_geth (stateRoot NewVerifyEngine) example_chain"
  by (simp_all add: example_chain_def example_block_def)

definition example_root_block :: L2Block where
  "example_root_block = (example_block 2)\<lparr>bl_StateRoot := HashHex example_geth
     (next_root (next_root (stateRoot NewVerifyEngine) (example_block 1)) (example_block 2))\<rparr>"



lemma example_utf8: "block_utf8 example_root_block" "block_utf8 (example_block n)"
  using hex_bytes_ascii
  by (simp_all add: block_utf8_def example_root_block_def example_block_def valid_utf8_ascii) (simp add: example_geth_def valid_utf8_ascii)


lemma example_run:
  obtains kb n0 n where "key_bytes [] = Some kb" "example_start = Ok n0" "(node_step example_geth)\<^sup>*\<^sup>* n0 n" "attestations_of (nd_consensus n) 1 \<noteq> []"
proof -
  obtain kb where kb: "key_bytes [] = Some kb" using example_key by blast
  have "uint (MinStake (cfg_Validator DefaultConfig)) < 2 ^ 63" by (simp add: DefaultConfig_def)
  then obtain n0 where n0: "example_start = Ok n0"
    using new_node_Ok [where toECDSA = Some, OF kb refl] unfolding example_start_def by blast
  have "list_all block_utf8 example_chain" using example_utf8(2) by (simp add: example_chain_def)
  from honest_run [where toECDSA = Some, OF kb refl n0 [unfolded example_start_def] example_chain_ok(1,2) this example_chain_ok(3)]
  obtain n where "(node_step example_geth)\<^sup>*\<^sup>* n0 n" "attestations_of (nd_consensus n) (bl_Number (example_block 1)) \<noteq> []"
    by (auto simp: example_chain_def)
  then show ?thesis using that [OF kb n0] by (simp add: example_block_def)
qed

lemma example_boot:
  "example_start = Ok n0 \<Longrightarrow> boot (\<lambda>_. Some []) (\<lambda>_. []) (\<lambda>_. Some) ''config.yaml'' example_geth Some (\<lambda>_. example_conn) (\<lambda>_. 0) = Ok n0"
  by (simp add: boot_def Load_def example_start_def)

section \<open>Properties\<close>

text \<open>
  C1: The node never contradicts itself. In every state the goroutines can reach from start-up,
  in any interleaving and whatever peers, the sequencer and RPC clients send, at most one
  attestation is recorded for a block number; it is made by this node, and it is for the hash
  of the block stored under that number, which is never replaced.
\<close>

theorem no_equivocation:
  assumes "boot fs env yaml path g toECDSA conns clock = Ok n0" "(node_step g)\<^sup>*\<^sup>* n0 n"
  shows "length (attestations_of (nd_consensus n) num) \<le> 1 \<and>
    (\<forall>att \<in> set (attestations_of (nd_consensus n) num). \<exists>b. sblocks (nd_sync n) num = Some b \<and> bl_Number b = num \<and>
       at_BlockNumber att = num \<and> at_BlockHash att = HexToHash g (bl_Hash b) \<and> at_Validator att = ce_localAddr (nd_consensus n0))"
proof -
  obtain cfg kb key where b: "new_node g toECDSA cfg (env ''INSO_VALIDATOR_KEY'') conns clock = Ok n0"
      "key_bytes (env ''INSO_VALIDATOR_KEY'') = Some kb" "toECDSA kb = Some key"
    by (rule boot_parts [where toECDSA = toECDSA, OF assms(1)])
  note s = started_inv [where toECDSA = toECDSA, OF b(2,3,1) assms(2)]
  show ?thesis
    using node_invD(5) [OF s(1) [unfolded ledger_inv_def, THEN conjunct1], of num] node_invD(1) [OF s(1) [unfolded ledger_inv_def, THEN conjunct1]] node_steps_validators [OF assms(2)] by (auto simp: attested_ok_def)
qed

theorem no_equivocation_witness:
  "\<exists>n0 n. boot (\<lambda>_. Some []) (\<lambda>_. []) (\<lambda>_. Some) ''config.yaml'' example_geth Some (\<lambda>_. example_conn) (\<lambda>_. 0) = Ok n0 \<and>
     (node_step example_geth)\<^sup>*\<^sup>* n0 n \<and> length (attestations_of (nd_consensus n) 1) = 1"
proof -
  obtain kb n0 n where s: "key_bytes [] = Some kb" "example_start = Ok n0"
      "(node_step example_geth)\<^sup>*\<^sup>* n0 n" "attestations_of (nd_consensus n) 1 \<noteq> []" by (rule example_run)
  have "length (attestations_of (nd_consensus n) 1) \<le> 1" using no_equivocation [OF example_boot [OF s(2)] s(3), of 1] by simp
  then show ?thesis using example_boot [OF s(2)] s(3,4) by (auto simp: le_Suc_eq)
qed

text \<open>
  C3: The node implements a ledger. Seen from outside, each step of any goroutine adds one block
  under a free number, above 1 only after the block before it, or marks one stored block as
  attested, or changes nothing. So in every reachable state there is no gap between block 1 and any
  stored block, and whatever runs afterwards, no block is replaced and no attestation withdrawn.
\<close>

theorem node_refines_ledger:
  assumes "boot fs env yaml path g toECDSA conns clock = Ok n0" "(node_step g)\<^sup>*\<^sup>* n0 n"
  shows "ledger_of n0 = Map.empty \<and> ledger_step\<^sup>*\<^sup>* (ledger_of n0) (ledger_of n) \<and> ledger_ok (ledger_of n) \<and>
    (\<forall>n'. node_step g n n' \<longrightarrow> ledger_of n' = ledger_of n \<or> ledger_step (ledger_of n) (ledger_of n')) \<and>
    (\<forall>n'. (node_step g)\<^sup>*\<^sup>* n n' \<longrightarrow> ledger_le (ledger_of n) (ledger_of n'))"
proof -
  obtain cfg kb key where b: "new_node g toECDSA cfg (env ''INSO_VALIDATOR_KEY'') conns clock = Ok n0"
      "key_bytes (env ''INSO_VALIDATOR_KEY'') = Some kb" "toECDSA kb = Some key"
    by (rule boot_parts [where toECDSA = toECDSA, OF assms(1)])
  note s = started_inv [where toECDSA = toECDSA, OF b(2,3,1) assms(2)]
  have r: "ledger_step\<^sup>*\<^sup>* (ledger_of n0) (ledger_of n)" by (rule ledger.run_simulated [OF assms(2) s(3)])
  then have ok: "ledger_ok (ledger_of n)" using ledger_steps_ok [OF r] s(4) by (simp add: ledger_ok_def)
  have "ledger_le (ledger_of n) (ledger_of n')" if "(node_step g)\<^sup>*\<^sup>* n n'" for n'
    using ledger_steps_ok [OF ledger.run_simulated [OF that s(1)] ok] by simp
  then show ?thesis using s(4) r ok ledger_simulates [OF s(1)] by blast
qed

theorem node_refines_ledger_witness:
  "\<exists>n0 n b. example_start = Ok n0 \<and> (node_step example_geth)\<^sup>*\<^sup>* n0 n \<and> ledger_step\<^sup>*\<^sup>* Map.empty (ledger_of n) \<and> ledger_of n 1 = Some (b, True)"
proof -
  obtain kb n0 n where s: "key_bytes [] = Some kb" "example_start = Ok n0"
      "(node_step example_geth)\<^sup>*\<^sup>* n0 n" "attestations_of (nd_consensus n) 1 \<noteq> []" by (rule example_run)
  have "node_inv example_geth n"
    using started_inv(1) [where toECDSA = Some, OF s(1) refl s(2) [unfolded example_start_def] s(3)] by (simp add: ledger_inv_def)
  then obtain b where "ledger_of n 1 = Some (b, True)" using node_invD(5) [of example_geth n 1] s(4) by (auto simp: ledger_of_def attested_ok_def)
  moreover have "ledger_step\<^sup>*\<^sup>* Map.empty (ledger_of n)" using node_refines_ledger [OF example_boot [OF s(2)] s(3)] by metis
  ultimately show ?thesis using s(2,3) by blast
qed

text \<open>
  C28: In the running node finality means its own attestation and nothing else: no rule of the
  node ever registers another validator, so, for a minimum stake between 1 and \<open>2 ^ 53\<close> coins,
  a block is final in a reachable state exactly when this node has attested it.
\<close>

theorem self_finality:
  assumes "key_bytes envKey = Some kb" "toECDSA kb = Some key" "new_node g toECDSA cfg envKey conns clock = Ok n0"
    and "(node_step g)\<^sup>*\<^sup>* n0 n"
    and "0 < uint (MinStake (cfg_Validator cfg))" "uint (MinStake (cfg_Validator cfg)) \<le> 2 ^ 53" "clock 0 \<le> clock 3" "clock 1 \<le> clock 3"
  shows "fst (IsFinalized (nd_consensus n) [PubkeyToAddress g (PublicKey g key)] m num) \<longleftrightarrow> attestations_of (nd_consensus n) num \<noteq> []"
  by (rule reachable_final [where toECDSA = toECDSA, OF assms])

theorem self_finality_witness:
  "\<exists>n0 n a. example_start = Ok n0 \<and> (node_step example_geth)\<^sup>*\<^sup>* n0 n \<and> fst (IsFinalized (nd_consensus n) [a] None 1)"
proof -
  obtain kb n0 n where s: "key_bytes [] = Some kb" "example_start = Ok n0"
      "(node_step example_geth)\<^sup>*\<^sup>* n0 n" "attestations_of (nd_consensus n) 1 \<noteq> []" by (rule example_run)
  have m: "uint (MinStake (cfg_Validator DefaultConfig)) = 10000" by (simp add: DefaultConfig_def)
  show ?thesis
    using self_finality [where toECDSA = Some, OF s(1) refl s(2) [unfolded example_start_def] s(3), of None 1] s(2-4) m by auto
qed

text \<open>
  C13: A poll no other goroutine disturbs is the sequential program. From any reachable state with
  an idle poll loop, and whatever the sequencer answers: the steps of the poll loop alone can be run
  to the end of the round exactly when the call of \<^verbatim>\<open>syncFromRPC\<close> returns; and every such run ends
  with the sync engine that call returns, and with the verdicts of the callback run once for each
  block the call reports as new, in that order: the blocks verified one after the other, and one more
  attestation, of its hash, for each that was accepted.
\<close>

theorem poll_round_sequential:
  assumes "boot fs env yaml path g toECDSA conns clock = Ok n0" "(node_step g)\<^sup>*\<^sup>* n0 n" "live n" "nd_poller n = PollerIdle"
    and "range_order (net_peers (nd_network n)) ks"
  shows "((\<exists>n'. poll_round g post n n') \<longleftrightarrow> syncFromRPC post (nd_sync n) m \<noteq> None) \<and>
    (\<forall>n'. poll_round g post n n' \<longrightarrow> (node_step g)\<^sup>*\<^sup>* n n' \<and> nd_poller n' = PollerIdle \<and>
      (\<exists>m' bs. syncFromRPC post (nd_sync n) m = Some (nd_sync n', m', bs) \<and>
        (nd_verification n', hashes (nd_consensus n')) = fold (verify_attest g) bs (nd_verification n, hashes (nd_consensus n))))"
proof -
  have c: "se_onNewBlock (nd_sync n)" by (rule reachable_callback [where toECDSA = toECDSA, OF assms(1,2)])
  then have r: "poll_ready ks n" using assms(3,5) by (simp add: poll_ready_def)
  have "\<exists>n'. poll_round g post n n'" if "syncFromRPC post (nd_sync n) m \<noteq> None"
    using that poll_round_exists [OF _ r, of post m] by fastforce
  moreover have "\<exists>m' bs. syncFromRPC post (nd_sync n) m = Some (nd_sync n', m', bs) \<and> attest_run g n bs n'"
    "(node_step g)\<^sup>*\<^sup>* n n'" "nd_poller n' = PollerIdle" if "poll_round g post n n'" for n'
    using poll_round_sound [OF that c assms(4), of m] poll_round_steps [OF that assms(3,4)] by auto
  ultimately show ?thesis unfolding attest_run_def by blast
qed

theorem poll_round_sequential_witness:
  "\<exists>n0 n n'. example_start = Ok n0 \<and> (node_step example_geth)\<^sup>*\<^sup>* n0 n \<and> poll_round example_geth (honest_post example_chain) n n' \<and>
     latestBlock (nd_sync n') = 2"
proof -
  obtain kb n0 n where s: "key_bytes [] = Some kb" "example_start = Ok n0" by (rule example_run)
  obtain n where n: "(node_step example_geth)\<^sup>*\<^sup>* n0 n" "poll_ready [] n" "nd_poller n = PollerIdle" "nd_verification n = NewVerifyEngine"
      "sync_inv (nd_sync n)" "latestBlock (nd_sync n) = 0" "nd_consensus n = nd_consensus n0"
    by (rule started_run [where toECDSA = Some, OF s(1) refl s(2) [unfolded example_start_def]])
  have u: "list_all block_utf8 example_chain" using example_utf8(2) by (simp add: example_chain_def)
  obtain e' m' where e: "syncFromRPC (honest_post example_chain) (nd_sync n) None = Some (e', m', example_chain)"
      "latestBlock e' = word_of_nat (length example_chain)"
    by (rule honest_sync [OF example_chain_ok(1,2) u n(5,6)])
  have r: "live n" "range_order (net_peers (nd_network n)) []" using n(2) by (simp_all add: poll_ready_def)
  note p = poll_round_sequential [OF example_boot [OF s(2)] n(1) r(1) n(3) r(2), of "honest_post example_chain" None]
  obtain n' where n': "poll_round example_geth (honest_post example_chain) n n'" using p e(1) by auto
  then have "nd_sync n' = e'" using p e(1) by auto
  then show ?thesis using s(2) n(1) n' e(2) by (auto simp: example_chain_def)
qed

text \<open>
  C5: An honest chain is attested to the end. Whatever the length of the sequencer's chain (below
  \<open>2 ^ 64 - 1\<close>), when its blocks are numbered from 1 and every state root it claims is the right one,
  the node can get from start-up to a state in which it is synced, has stored every block, has
  attested each of them once, for its hash, and takes each of them as final. (The configured minimum
  stake is between 1 and \<open>2 ^ 53\<close> coins, the texts of the blocks are valid UTF-8, and the clock of the
  start-up does not go back.)
\<close>

theorem honest_chain_attested:
  assumes "key_bytes envKey = Some kb" "toECDSA kb = Some key" "new_node g toECDSA cfg envKey conns clock = Ok n0"
    and "numbered 1 chain" "Suc (length chain) < 2 ^ 64" "list_all block_utf8 chain" "claims_ok g (stateRoot NewVerifyEngine) chain"
    and "0 < uint (MinStake (cfg_Validator cfg))" "uint (MinStake (cfg_Validator cfg)) \<le> 2 ^ 53" "clock 0 \<le> clock 3" "clock 1 \<le> clock 3"
  shows "\<exists>n. (node_step g)\<^sup>*\<^sup>* n0 n \<and> IsSynced (honest_post chain) (nd_sync n) \<and> latestBlock (nd_sync n) = word_of_nat (length chain) \<and>
    (\<forall>b \<in> set chain. sblocks (nd_sync n) (bl_Number b) = Some b \<and>
      map at_BlockHash (attestations_of (nd_consensus n) (bl_Number b)) = [HexToHash g (bl_Hash b)] \<and>
      fst (IsFinalized (nd_consensus n) [PubkeyToAddress g (PublicKey g key)] m (bl_Number b)))"
proof -
  obtain n where n: "(node_step g)\<^sup>*\<^sup>* n0 n" "latestBlock (nd_sync n) = word_of_nat (length chain)" "IsSynced (honest_post chain) (nd_sync n)"
      "\<forall>b \<in> set chain. sblocks (nd_sync n) (bl_Number b) = Some b \<and> attestations_of (nd_consensus n) (bl_Number b) \<noteq> []"
    by (rule honest_run [where toECDSA = toECDSA, OF assms(1-7)])
  note inv = started_inv(1) [where toECDSA = toECDSA, OF assms(1-3) n(1), unfolded ledger_inv_def, THEN conjunct1]
  have "map at_BlockHash (attestations_of (nd_consensus n) (bl_Number b)) = [HexToHash g (bl_Hash b)]" if "b \<in> set chain" for b
    using n(4) that node_invD(5) [OF inv, of "bl_Number b"] by (auto simp: attested_ok_def)
  moreover have "fst (IsFinalized (nd_consensus n) [PubkeyToAddress g (PublicKey g key)] m (bl_Number b))" if "b \<in> set chain" for b
    using n(4) that reachable_final [where toECDSA = toECDSA, OF assms(1-3) n(1) assms(8-11)] by blast
  ultimately show ?thesis using n by blast
qed

theorem honest_chain_attested_witness:
  "\<exists>n0 n a. example_start = Ok n0 \<and> (node_step example_geth)\<^sup>*\<^sup>* n0 n \<and> latestBlock (nd_sync n) = 2 \<and> fst (IsFinalized (nd_consensus n) [a] None 2)"
proof -
  obtain kb n0 n where s: "key_bytes [] = Some kb" "example_start = Ok n0" by (rule example_run)
  have m: "uint (MinStake (cfg_Validator DefaultConfig)) = 10000" by (simp add: DefaultConfig_def)
  have u: "list_all block_utf8 example_chain" using example_utf8(2) by (simp add: example_chain_def)
  have c: "length example_chain = 2" "example_block 2 \<in> set example_chain" "bl_Number (example_block 2) = 2"
    by (simp_all add: example_chain_def example_block_def)
  show ?thesis
    using honest_chain_attested [where toECDSA = Some, OF s(1) refl s(2) [unfolded example_start_def] example_chain_ok(1,2) u example_chain_ok(3), of None]
      s(2) m c by fastforce
qed

text \<open>
  C14: The process ends. \<^verbatim>\<open>main\<close> never goes back: a step of any
  goroutine leaves it where it is or brings it closer to its end, at most 17 statements away. In every
  reachable state, when no request is in flight or the deadline of the shutdown has passed, its own
  statements take it to the end (once the signal has come), without a further step of the sync, consensus or
  network goroutines; then nothing moves any more, and a block whose callback was under way stays
  stored and is never attested. (What is done under a lock is one step, so that in a state of the model no
  lock is held: in the program \<^verbatim>\<open>Network.Stop\<close> may first wait for a broadcast that holds \<^verbatim>\<open>n.mu\<close> to
  finish, whose writes end after five seconds each at the latest.) While requests are in flight and the deadline has not passed, the last
  statement does wait; these requests can always be brought to their end.
\<close>

theorem shutdown:
  assumes "boot fs env yaml path g toECDSA conns clock = Ok n0" "(node_step g)\<^sup>*\<^sup>* n0 n" "range_order (net_peers (nd_network n)) ks"
  shows "main_left (nd_main n) \<le> 17 \<and>
    (\<forall>n'. node_step g n n' \<longrightarrow> nd_main n' = nd_main n \<or> main_left (nd_main n') < main_left (nd_main n)) \<and>
    (\<forall>expired. nd_pending n = [] \<or> expired \<longrightarrow> (let n' = (main_step True expired ks ^^ main_left (nd_main n)) n in
      (node_step g ^^ main_left (nd_main n)) n n' \<and> nd_main n' = Exited \<and> (\<forall>n''. \<not> node_step g n' n'') \<and>
      (\<forall>b. gossip_block n = Some b \<or> poll_block n = Some b \<longrightarrow>
        sblocks (nd_sync n') (bl_Number b) = Some b \<and> attestations_of (nd_consensus n') (bl_Number b) = []))) \<and>
    (nd_main n = StopRpc \<longrightarrow> nd_pending n \<noteq> [] \<longrightarrow> nd_main (main_step bound False ks n) = StopRpc \<and>
      (\<exists>n'. (node_step g)\<^sup>*\<^sup>* n n' \<and> nd_main n' = StopRpc \<and> nd_pending n' = []))"
proof -
  obtain cfg kb key where b: "new_node g toECDSA cfg (env ''INSO_VALIDATOR_KEY'') conns clock = Ok n0"
      "key_bytes (env ''INSO_VALIDATOR_KEY'') = Some kb" "toECDSA kb = Some key"
    by (rule boot_parts [where toECDSA = toECDSA, OF assms(1)])
  note inv = started_inv(1) [where toECDSA = toECDSA, OF b(2,3,1) assms(2), unfolded ledger_inv_def, THEN conjunct1]
  have w: "waiting n b" if "gossip_block n = Some b \<or> poll_block n = Some b" for b using that node_invD(2,3) [OF inv] by blast
  have 1: "main_left (nd_main n) \<le> 17" by (cases "nd_main n") simp_all
  have 2: "let n' = (main_step True expired ks ^^ main_left (nd_main n)) n in
      (node_step g ^^ main_left (nd_main n)) n n' \<and> nd_main n' = Exited \<and> (\<forall>n''. \<not> node_step g n' n'') \<and>
      (\<forall>b. gossip_block n = Some b \<or> poll_block n = Some b \<longrightarrow>
        sblocks (nd_sync n') (bl_Number b) = Some b \<and> attestations_of (nd_consensus n') (bl_Number b) = [])"
    if "nd_pending n = [] \<or> expired" for expired
    unfolding Let_def using main_run [OF that assms(3) refl, of g] exited_stuck w
    by (auto simp: waiting_def same_books_def attestations_of_def)
  have 3: "nd_main (main_step bound False ks n) = StopRpc \<and> (\<exists>n'. (node_step g)\<^sup>*\<^sup>* n n' \<and> nd_main n' = StopRpc \<and> nd_pending n' = [])"
    if p: "nd_main n = StopRpc" "nd_pending n \<noteq> []"
  proof -
    have "nd_httpServer n \<noteq> None" using reachable_started [where toECDSA = toECDSA, OF assms(1,2)] p(1) by (simp add: server_started_def)
    then have "nd_main (main_step bound False ks n) = StopRpc"
      using p StopServer_waits [of "server_of n" "length (nd_pending n)" False] by (simp add: main_step_def split_beta)
    moreover have "live n" using p(1) by (simp add: live_def)
    ultimately show ?thesis using requests_done [of n _ g] p(1) by metis
  qed
  show ?thesis using 1 2 3 node_step_main by blast
qed

theorem shutdown_witness:
  "\<exists>n0. example_start = Ok n0 \<and> (node_step example_geth ^^ 17) n0 ((main_step True False [] ^^ 17) n0) \<and>
     nd_main ((main_step True False [] ^^ 17) n0) = Exited"
proof -
  obtain kb n0 n where s: "key_bytes [] = Some kb" "example_start = Ok n0" by (rule example_run)
  have "uint (MinStake (cfg_Validator DefaultConfig)) < 2 ^ 63" by (simp add: DefaultConfig_def)
  then have n0: "nd_main n0 = StartNet" "net_peers (nd_network n0) = Map.empty" "nd_pending n0 = []"
    using new_node_Ok [where toECDSA = Some, OF s(1) refl, of DefaultConfig example_geth "\<lambda>_. example_conn" "\<lambda>_. 0"] s(2)
    unfolding example_start_def by (auto simp: NewNetwork_def)
  have "range_order (net_peers (nd_network n0)) []" by (simp add: n0(2) range_order_def)
  from shutdown [OF example_boot [OF s(2)] rtranclp.rtrancl_refl this] show ?thesis
    using s(2) n0(1,3) by (auto simp: Let_def)
qed



end
