(* ===== verification/Spec2Isabelle.thy ===== *)
theory Spec2Isabelle
  imports SHA256 Metrics Staking Reputation P2P Sync Verification Consensus FloatText RpcResponse Runs
begin

text \<open>
  A model of the InSo validator, a node that follows the blocks of a sequencer, checks them
  and attests them, with the properties that make its components correct. Paths below are
  under \<^verbatim>\<open>src/\<close>.

  \<^bold>\<open>The program.\<close> \<^verbatim>\<open>cmd/validator/main.go\<close> builds one object per package and wires them together.
  Blocks reach the sync engine from two goroutines, the gossip listener (messages of the P2P
  network) and the poll loop (the sequencer's JSON-RPC). A block that is stored is given to a
  callback, which asks the verification engine to recompute its state root and, if it agrees,
  lets the consensus engine sign an attestation, record it, credit XP in the reputation
  manager and broadcast the signature. The RPC server reads all components and can run the
  verifiers on request; the metrics are counters written by the others.

  \<^bold>\<open>Theories, in the order of the imports.\<close>
  \<^item> \<open>Prelude\<close>: machine integers, Go results (\<open>Ok\<close>, \<open>Err\<close>, \<open>Panic\<close>), traversal of maps in an
    arbitrary order, and the locales of state machines, of machines with an operation budget
    of refinements and of simulations, which the components interpret.
  \<^item> \<open>Float64\<close>, \<open>BigFloat\<close>: float64 as rationals with rounding to nearest even, and
    \<^verbatim>\<open>math/big.Float\<close>. Rounding is a locale over the precision. Products and sums are not fused:
    the sources do not fix the target, and the model is that of amd64, whose compiler does not fuse them.
  \<^item> \<open>Bytes\<close>, \<open>SHA256\<close>, \<open>SHA256Bits\<close>: big-endian bytes, SHA-256 on words, and its compression function on
    lists of bits, proved equal, with which the digests of the examples are evaluated.
  \<^item> \<open>Json\<close>, \<open>Codec\<close>, \<open>JsonPrint\<close>, \<open>FloatText\<close>: \<^verbatim>\<open>encoding/json\<close>: the scanner, the decoder of structs, the
    encoder, base64 and the shortest text of a float64; what is printed is read back, with invalid
    UTF-8 replaced, up to the nesting the scanner allows.
  \<^item> \<open>ServeMux\<close>: how \<^verbatim>\<open>net/http\<close> finds the handler of a path, redirects included, for both HTTP servers.
  \<^item> \<open>Config\<close>: \<^verbatim>\<open>internal/config/config.go\<close>, defaults and \<^verbatim>\<open>Load\<close>, with the expansion of variables.
  \<^item> \<open>Metrics\<close>: \<^verbatim>\<open>internal/metrics/metrics.go\<close>, counters, the two pages and their routes.
  \<^item> \<open>Staking\<close>: \<^verbatim>\<open>internal/staking/manager.go\<close>; \<open>StakingManager\<close> is \<^verbatim>\<open>Manager\<close>, the methods keep their
    names (\<open>RegisterStake\<close> is \<^verbatim>\<open>Register\<close>). Slashing is the product of big floats, truncated.
  \<^item> \<open>Reputation\<close>: \<^verbatim>\<open>internal/reputation/manager.go\<close>: XP in 64-bit words with the cap, uptime in 16
    bits, the sovereignty score in float64.
  \<^item> \<open>Protocol\<close>, \<open>P2P\<close>: \<^verbatim>\<open>internal/p2p/protocol.go\<close> and \<^verbatim>\<open>network.go\<close>: payloads, frames, peers, and a step
    relation \<open>net_step\<close> with one rule per goroutine.
  \<^item> \<open>Sync\<close>: \<^verbatim>\<open>internal/sync/engine.go\<close>: the RPC client down to the bytes of requests and responses,
    the gossip listener and the catch-up loop.
  \<^item> \<open>Verification\<close>: \<^verbatim>\<open>internal/verification/engine.go\<close> and \<^verbatim>\<open>features.go\<close>: state roots, lanes, compute
    receipts, adaptive bounds.
  \<^item> \<open>Consensus\<close>: \<^verbatim>\<open>internal/consensus/engine.go\<close>: validators, attestations, finality, signatures.
  \<^item> \<open>Rpc\<close>: \<^verbatim>\<open>internal/rpc/server.go\<close>: from the text of a request to the text of the response.
  \<^item> \<open>RpcResponse\<close>: every answer of the RPC handlers is well-formed JSON.
  \<^item> \<open>Node\<close>: \<^verbatim>\<open>cmd/validator/main.go\<close>: the construction of the components, the statements of \<^verbatim>\<open>main\<close> from the
    start of the services to the end of the process (\<open>main_step\<close>, with the program counter \<open>main_pc\<close>), and the
    callback for a stored block, as one piece (\<open>on_new_block\<close>) and in its steps (\<open>callback_step\<close>).
  \<^item> \<open>Goroutines\<close>: the step relation \<open>node_step\<close>, with rules for \<^verbatim>\<open>main\<close>, the gossip listener, the poll
    loop, the consensus loop, the goroutines of the network and the RPC requests; its invariant, and
    the abstract ledger it implements.
  \<^item> \<open>PollRound\<close>: a round of the poll loop alone (\<open>poll_step\<close>, \<open>poll_round\<close>), and its agreement with the
    sequential \<open>syncFromRPC\<close> and the callback as a function.
  \<^item> \<open>Runs\<close>: the honest sequencer, the life of the process, and the properties of the running node.

  \<^bold>\<open>How code becomes definitions.\<close> A struct is a record and a method a function from the state to a
  result and the new state; what a method does under a lock is one step. Every error return
  and panic is a constructor. \<^verbatim>\<open>time.Now()\<close> is an argument. A loop over a Go map takes the order
  of the keys as an argument, and theorems hold for every order. Integers keep their width:
  unsigned and signed 64-bit integers are words, \<^verbatim>\<open>*big.Int\<close> is \<open>int\<close>.

  \<^bold>\<open>What is shown.\<close> Staking: what a slash takes, bounds and conservation over all runs.
  Reputation: the score stays below 1, is monotone through every rounding step, XP and uptime
  stay bounded. P2P: frames round-trip, broadcast messages are delivered in order, invariants of
  every interleaving. Sync: the engine refines an append-only chain, a poll of an honest
  sequencer catches up, and two inputs that stop it. Verification: which chains are accepted,
  and that accepted receipts are authentic. Consensus: the float64 finality test is exact, the
  range of voting power, signatures round-trip and bind, what finality depends on. RPC: every
  call is answered under its identifier with well-formed JSON and touches only the state it should.
  Node: in every interleaving at most one attestation per number, for the stored block; the node
  refines a ledger that only grows; an undisturbed poll round is the sequential program; a correct
  chain of any length can be followed to its end; \<^verbatim>\<open>main\<close> ends, after waiting for requests at most until its deadline; and the
  order in which callbacks can overtake each other. Where a statement rests on SHA-256, it names the
  two inputs that would have to collide, or assumes that two given roots differ; the witnesses
  evaluate the digests.

  \<^bold>\<open>Interfaces.\<close> The locales are \<open>machine\<close>, \<open>budget_machine\<close>, \<open>refinement\<close> and \<open>simulation\<close> (Prelude),
  the rounding of floats, \<open>bounded_channel\<close> (P2P), the channel of received messages, and
  \<open>sovereignty\<close> (Consensus), the contract between the consensus engine and the provider of scores; each is interpreted on the definitions of the component that provides it.

  \<^bold>\<open>Bounds and fuel.\<close> Nothing uses fuel: parsers are folds over the input, the read loop and the
  name and number functions recur on a decreasing length, and the catch-up loop, which need not
  end, is a partial function whose value \<open>None\<close> means that it runs forever. \<^verbatim>\<open>main\<close> has at most 17
  statements left; apart from locks, only its last one can wait. The bounds in
  theorems are those of the code: 53 bits where float64 sums are exact, 10 MiB frames, 4096
  messages in the channel, 1 MiB requests, 10000 levels of JSON, \<open>2 ^ 64\<close> for counters.

  \<^bold>\<open>Parameters.\<close> go-ethereum (\<open>Geth\<close>: hex forms, Keccak-256, secp256k1) with the laws \<open>geth_ok\<close>, YAML,
  the HTTP transports (functions from a request to a response, so that within one call the
  answers depend on the request only), connections (byte streams that may fail), the texts of
  times, addresses, transport errors and redirects. The float-to-integer conversion Go leaves to the
  implementation is a parameter too.

  \<^bold>\<open>Not modelled.\<close> Sockets, the listeners of the HTTP servers and timers (the rules of \<open>net_step\<close> and
  \<open>node_step\<close> may happen at any time instead), log lines other than those of the message handlers and
  the callback (they are output only), command-line flags, tests and build files. Of the memory
  model only the interleaving is covered: the unlocked reading of the state root and its writing
  are separate steps of a callback or a request, but one write of the 32 bytes is one step, and so
  is a pointer to the metrics that \<^verbatim>\<open>main\<close> sets while the goroutines run. A request reads the other
  components in one step, although it takes their locks one after the other. What is done under a lock
  is one step, so that a wait for a lock does not appear (such as that of \<^verbatim>\<open>Network.Stop\<close> for a broadcast). The two writes of a frame are separate steps
  for the announcement of a new connection, which has no lock; a broadcast, which holds the lock
  of the network for reading, is one step, although the announcement to one of its peers could fall into it.
  Response bodies are what the handlers write, without headers. All other statements
  of the packages are modelled; what is left of the sources is declarations and imports.
\<close>

end
